(* ===== verification/Prelude.thy ===== *)
theory Prelude
  imports Main "HOL-Library.Word"
begin

text \<open>
  What the component theories share: the faults a C++ execution can end in and the
  result type that carries them, the arithmetic of \<^verbatim>\<open>size_t\<close>, \<^verbatim>\<open>int\<close> and \<^verbatim>\<open>long\<close>, bytes and the
  C library's searches over them, network byte order, and the two decimal
  conversions (\<^verbatim>\<open>std::to_string\<close>, \<^verbatim>\<open>std::stoi\<close>) the HTTP protocol uses.
\<close>

section \<open>Faults and results\<close>

text \<open>
  An operation of the program either returns (\<open>Inr\<close>) or leaves the program's control:
  an uncaught exception, \<^verbatim>\<open>abort()\<close> from a \<^verbatim>\<open>LOG_FATAL\<close> record, or undefined behaviour
  (a read outside the vector, a dereference of a null or freed pointer, a read of an
  indeterminate value). Undefined behaviour is a fault value, never a HOL default.
\<close>

datatype fault =
    OutOfBounds
  | UseAfterFree
  | NullDeref
  | Uninitialised
  | DivideByZero
  | Aborted
  | InvalidArgument
  | OutOfRange
  | LengthError

type_synonym 'a result = "fault + 'a"

definition and_then :: "'a result \<Rightarrow> ('a \<Rightarrow> 'b result) \<Rightarrow> 'b result" where
  "and_then m k = (case m of Inl e \<Rightarrow> Inl e | Inr x \<Rightarrow> k x)"

lemma and_then_simps [simp]:
  "and_then (Inl e) k = Inl e"
  "and_then (Inr x) k = k x"
  by (simp_all add: and_then_def)

lemma and_then_cong [fundef_cong]:
  "m = m' \<Longrightarrow> (\<And>x. m' = Inr x \<Longrightarrow> k x = k' x) \<Longrightarrow> and_then m k = and_then m' k'"
  by (cases m') simp_all

lemma and_then_Inr_iff:
  "and_then m k = Inr y \<longleftrightarrow> (\<exists>x. m = Inr x \<and> k x = Inr y)"
  by (cases m) auto

lemma and_then_assoc: "and_then (and_then m f) g = and_then m (\<lambda>x. and_then (f x) g)"
  by (cases m) simp_all

text \<open>What holds of the result, if there is one; the rules take a function apart as it is written.\<close>

definition ensures :: "'a result \<Rightarrow> ('a \<Rightarrow> bool) \<Rightarrow> bool" where
  "ensures r Q \<longleftrightarrow> (\<forall>x. r = Inr x \<longrightarrow> Q x)"

lemma ensuresD: "ensures r Q \<Longrightarrow> r = Inr x \<Longrightarrow> Q x"
  by (simp add: ensures_def)

lemma ensures_simps [simp]: "ensures (Inl e) Q" "ensures (Inr x) Q \<longleftrightarrow> Q x"
  by (simp_all add: ensures_def)

lemma ensures_mono: "ensures r P \<Longrightarrow> (\<And>x. P x \<Longrightarrow> Q x) \<Longrightarrow> ensures r Q"
  by (simp add: ensures_def)

lemma ensures_and_then: "(\<And>x. m = Inr x \<Longrightarrow> ensures (k x) Q) \<Longrightarrow> ensures (and_then m k) Q"
  by (cases m) simp_all

lemma ensures_through:
  "ensures m P \<Longrightarrow> (\<And>x. P x \<Longrightarrow> ensures (k x) Q) \<Longrightarrow> ensures (and_then m k) Q"
  by (cases m) simp_all

lemma ensures_Inr: "Q x \<Longrightarrow> ensures (Inr x) Q"
  by simp

lemma ensures_if: "(q \<Longrightarrow> ensures x Q) \<Longrightarrow> (\<not> q \<Longrightarrow> ensures y Q) \<Longrightarrow> ensures (if q then x else y) Q"
  by simp

lemma ensures_option:
  "(m = None \<Longrightarrow> ensures x Q) \<Longrightarrow> (\<And>y. m = Some y \<Longrightarrow> ensures (f y) Q) \<Longrightarrow>
    ensures (case m of None \<Rightarrow> x | Some y \<Rightarrow> f y) Q"
  by (cases m) auto

lemmas ensures_intros = ensures_and_then ensures_Inr ensures_if ensures_option

section \<open>Machine integers\<close>

text \<open>
  \<^verbatim>\<open>size_t\<close> is a \<open>nat\<close> below \<open>2 ^ 64\<close> with the wrap-around written out, \<^verbatim>\<open>int\<close> and
  \<^verbatim>\<open>long\<close> are \<open>int\<close> with the conversion that two's complement makes. No C++ object is
  larger than \<open>PTRDIFF_MAX\<close>.
\<close>

abbreviation max_object :: nat where
  "max_object \<equiv> 9223372036854775807"

definition sz_add :: "nat \<Rightarrow> nat \<Rightarrow> nat" where
  "sz_add a b = (a + b) mod 2 ^ 64"

definition sz_sub :: "nat \<Rightarrow> nat \<Rightarrow> nat" where
  "sz_sub a b = nat ((int a - int b) mod 2 ^ 64)"

definition to_int32 :: "int \<Rightarrow> int" where
  "to_int32 z = (z + 2 ^ 31) mod 2 ^ 32 - 2 ^ 31"

definition to_int64 :: "int \<Rightarrow> int" where
  "to_int64 z = (z + 2 ^ 63) mod 2 ^ 64 - 2 ^ 63"

definition to_size :: "int \<Rightarrow> nat" where
  "to_size z = nat (z mod 2 ^ 64)"

text \<open>C's \<^verbatim>\<open>/\<close> and \<^verbatim>\<open>%\<close> truncate towards zero.\<close>

definition c_div :: "int \<Rightarrow> int \<Rightarrow> int" where
  "c_div a b = sgn a * sgn b * (\<bar>a\<bar> div \<bar>b\<bar>)"

definition c_mod :: "int \<Rightarrow> int \<Rightarrow> int" where
  "c_mod a b = a - c_div a b * b"

lemma sz_add_small: "a + b < 2 ^ 64 \<Longrightarrow> sz_add a b = a + b"
  by (simp add: sz_add_def)

lemma sz_add_0 [simp]: "a < 2 ^ 64 \<Longrightarrow> sz_add a 0 = a"
  by (simp add: sz_add_def)

lemma sz_sub_small: "b \<le> a \<Longrightarrow> a < 2 ^ 64 \<Longrightarrow> sz_sub a b = a - b"
  by (simp add: sz_sub_def nat_diff_distrib)

lemma sz_sub_wrap: "a < b \<Longrightarrow> b < 2 ^ 64 \<Longrightarrow> sz_sub a b = 2 ^ 64 - (b - a)"
proof -
  assume ab: "a < b" "b < 2 ^ 64"
  then have "(int a - int b) mod 2 ^ 64 = (int a - int b + 2 ^ 64) mod 2 ^ 64"
    by (metis mod_add_self2)
  also have "\<dots> = int a - int b + 2 ^ 64"
    using ab by (intro mod_pos_pos_trivial) auto
  finally show ?thesis using ab by (simp add: sz_sub_def)
qed

lemma to_int32_small: "- (2 ^ 31) \<le> z \<Longrightarrow> z < 2 ^ 31 \<Longrightarrow> to_int32 z = z"
  by (simp add: to_int32_def)

lemma to_int32_range: "- (2 ^ 31) \<le> to_int32 z" "to_int32 z < 2 ^ 31"
  by (simp_all add: to_int32_def)

lemma to_int64_small: "- (2 ^ 63) \<le> z \<Longrightarrow> z < 2 ^ 63 \<Longrightarrow> to_int64 z = z"
  by (simp add: to_int64_def)

lemma to_size_int: "n < 2 ^ 64 \<Longrightarrow> to_size (int n) = n"
  by (simp add: to_size_def nat_mod_distrib)

lemma c_div_nonneg: "0 \<le> a \<Longrightarrow> 0 < b \<Longrightarrow> c_div a b = a div b"
  by (cases "a = 0") (simp_all add: c_div_def sgn_if)

lemma c_mod_nonneg: "0 \<le> a \<Longrightarrow> 0 < b \<Longrightarrow> c_mod a b = a mod b"
  by (simp add: c_mod_def c_div_nonneg minus_div_mult_eq_mod)

lemma c_div_mod_eq: "c_div a b * b + c_mod a b = a"
  by (simp add: c_mod_def)

section \<open>Bytes and searches\<close>

text \<open>A byte is a \<open>char\<close>, so that the source's string literals are HOL literals.\<close>

type_synonym byte = char

abbreviation NUL :: byte where "NUL \<equiv> CHR 0x00"
abbreviation LF :: byte where "LF \<equiv> CHR 0x0A"
abbreviation CR :: byte where "CR \<equiv> CHR 0x0D"

text \<open>The first position of a byte in a region (what \<^verbatim>\<open>memchr\<close> finds) and of the two
  bytes \<^verbatim>\<open>\r\n\<close> (what \<^verbatim>\<open>memmem\<close> finds).\<close>

fun index_of :: "byte \<Rightarrow> byte list \<Rightarrow> nat option" where
  "index_of c [] = None"
| "index_of c (x # xs) = (if x = c then Some 0 else map_option Suc (index_of c xs))"

fun index_of_crlf :: "byte list \<Rightarrow> nat option" where
  "index_of_crlf (x # y # xs) =
     (if x = CR \<and> y = LF then Some 0 else map_option Suc (index_of_crlf (y # xs)))"
| "index_of_crlf _ = None"

lemma take_length_append: "take (length xs) (xs @ ys) = xs"
  by simp

lemma drop_length_append: "drop (length xs) (xs @ ys) = ys"
  by simp

lemma index_of_None [simp]: "index_of c xs = None \<longleftrightarrow> c \<notin> set xs"
  by (induction xs) auto

lemma index_of_append [simp]: "c \<notin> set xs \<Longrightarrow> index_of c (xs @ c # ys) = Some (length xs)"
  by (induction xs) auto

lemma index_of_SomeD:
  "index_of c xs = Some k \<Longrightarrow> k < length xs \<and> xs ! k = c \<and> c \<notin> set (take k xs)"
  by (induction xs arbitrary: k) (auto split: if_splits)

lemma index_of_Some_length: "index_of c xs = Some k \<Longrightarrow> k < length xs"
  by (simp add: index_of_SomeD)

lemma index_of_take:
  "index_of c xs = Some k \<Longrightarrow> k < n \<Longrightarrow> index_of c (take n xs) = Some k"
  by (induction xs arbitrary: k n) (auto simp: take_Cons' split: if_splits)

lemma index_of_crlf_append [simp]:
  "CR \<notin> set xs \<Longrightarrow> index_of_crlf (xs @ CR # LF # ys) = Some (length xs)"
proof (induction xs)
  case (Cons x xs)
  then show ?case by (cases xs) auto
qed simp

lemma index_of_crlf_hit [simp]: "index_of_crlf (CR # LF # ys) = Some 0"
  by simp

lemma index_of_crlf_SomeD:
  "index_of_crlf xs = Some k \<Longrightarrow>
     Suc k < length xs \<and> xs ! k = CR \<and> xs ! Suc k = LF \<and>
     (\<forall>j < k. \<not> (xs ! j = CR \<and> xs ! Suc j = LF))"
proof (induction xs arbitrary: k rule: index_of_crlf.induct)
  case (1 x y xs)
  show ?case
  proof (cases "x = CR \<and> y = LF")
    case True
    with "1.prems" show ?thesis by simp
  next
    case False
    with "1.prems" obtain j where j: "k = Suc j" "index_of_crlf (y # xs) = Some j"
      by auto
    with "1.IH" False show ?thesis
      by (auto simp: less_Suc_eq_0_disj)
  qed
qed auto

lemma index_of_crlf_Some_length: "index_of_crlf xs = Some k \<Longrightarrow> k + 2 \<le> length xs"
  using index_of_crlf_SomeD by fastforce

lemma index_of_crlf_no_CR: "CR \<notin> set xs \<Longrightarrow> index_of_crlf xs = None"
  by (induction xs rule: index_of_crlf.induct) auto

lemma index_of_crlf_take:
  "index_of_crlf xs = Some k \<Longrightarrow> k + 2 \<le> n \<Longrightarrow> index_of_crlf (take n xs) = Some k"
proof (induction xs arbitrary: k n rule: index_of_crlf.induct)
  case (1 x y xs)
  then obtain m where n: "n = Suc (Suc m)"
    by (metis add_2_eq_Suc' le_Suc_ex add_Suc)
  show ?case
  proof (cases "x = CR \<and> y = LF")
    case True
    with "1.prems" n show ?thesis by simp
  next
    case False
    with "1.prems" obtain j where j: "k = Suc j" "index_of_crlf (y # xs) = Some j"
      by auto
    from "1.IH" [OF False j(2), of "Suc m"] "1.prems" j n False show ?thesis by auto
  qed
qed auto

text \<open>
  \<^verbatim>\<open>strncmp(p, s, strlen(s)) == 0\<close> over the bytes from \<^verbatim>\<open>p\<close> to the end of the object: it
  reads on while the bytes agree, so it stops at the first difference or at a NUL, and
  reading past the object is a fault.
\<close>

fun strncmp_eq :: "byte list \<Rightarrow> string \<Rightarrow> bool result" where
  "strncmp_eq xs [] = Inr True"
| "strncmp_eq [] (c # cs) = Inl OutOfBounds"
| "strncmp_eq (x # xs) (c # cs) =
     (if x = c then if x = NUL then Inr True else strncmp_eq xs cs else Inr False)"

lemma strncmp_eq_append [simp]: "NUL \<notin> set s \<Longrightarrow> strncmp_eq (s @ xs) s = Inr True"
  by (induction s) auto

lemma strncmp_eq_TrueD: "NUL \<notin> set s \<Longrightarrow> strncmp_eq xs s = Inr True \<Longrightarrow> take (length s) xs = s"
  by (induction xs s rule: strncmp_eq.induct) (auto split: if_splits)

lemma strncmp_eq_total: "length s \<le> length xs \<Longrightarrow> \<exists>r. strncmp_eq xs s = Inr r"
  by (induction xs s rule: strncmp_eq.induct) auto

text \<open>A stop byte that the pattern does not contain keeps the comparison inside the
  object, however short the object is.\<close>

lemma strncmp_eq_stop: "c \<in> set xs \<Longrightarrow> c \<notin> set s \<Longrightarrow> \<exists>r. strncmp_eq xs s = Inr r"
  by (induction xs s rule: strncmp_eq.induct) auto

section \<open>Network byte order\<close>

definition be_bytes :: "32 word \<Rightarrow> byte list" where
  "be_bytes w = map (\<lambda>k. char_of (unat w div 2 ^ k)) [24, 16, 8, 0]"

definition be_word :: "byte list \<Rightarrow> 32 word" where
  "be_word bs = word_of_nat (foldl (\<lambda>a c. a * 256 + of_char c) 0 bs)"

lemma length_be_bytes [simp]: "length (be_bytes w) = 4"
  by (simp add: be_bytes_def)

lemma base256_step: "n div (256 * k) * 256 + n div k mod 256 = n div (k :: nat)"
  by (metis div_mult2_eq div_mult_mod_eq mult.commute)

lemma base256_digits:
  assumes "n < 4294967296"
  shows "((n div 16777216 mod 256 * 256 + n div 65536 mod 256) * 256 + n div 256 mod 256) * 256 +
       n mod 256 = (n :: nat)"
proof -
  have "n div 16777216 mod 256 = n div 16777216"
    using assms by (intro mod_less) (simp add: less_mult_imp_div_less)
  then show ?thesis
    using base256_step [of n 65536] base256_step [of n 256] base256_step [of n 1] by simp
qed

lemma be_word_be_bytes [simp]: "be_word (be_bytes w) = w"
proof -
  have "unat w < 4294967296"
    using unsigned_less [of w] by simp
  then have "foldl (\<lambda>a c. a * 256 + of_char c) 0 (be_bytes w) = unat w"
    using base256_digits [of "unat w"] by (simp add: be_bytes_def algebra_simps)
  then show ?thesis
    by (simp add: be_word_def)
qed

section \<open>Decimal numbers\<close>

definition digit_char :: "nat \<Rightarrow> byte" where
  "digit_char d = char_of (48 + d)"

fun to_string :: "nat \<Rightarrow> string" where
  "to_string n = (if n < 10 then [digit_char n]
     else to_string (n div 10) @ [digit_char (n mod 10)])"

declare to_string.simps [simp del]

definition is_digit :: "byte \<Rightarrow> bool" where
  "is_digit c \<longleftrightarrow> 48 \<le> (of_char c :: nat) \<and> (of_char c :: nat) \<le> 57"

definition is_space :: "byte \<Rightarrow> bool" where
  "is_space c \<longleftrightarrow> c = CHR '' '' \<or> (9 \<le> (of_char c :: nat) \<and> (of_char c :: nat) \<le> 13)"

definition digits_value :: "byte list \<Rightarrow> nat" where
  "digits_value ds = foldl (\<lambda>a c. a * 10 + (of_char c - 48)) 0 ds"

text \<open>
  \<^verbatim>\<open>std::stoi\<close>: skip white space, an optional sign, the longest run of digits; no digit is
  \<^verbatim>\<open>std::invalid_argument\<close>, a value outside \<^verbatim>\<open>int\<close> is \<^verbatim>\<open>std::out_of_range\<close>. What follows the
  digits is ignored.
\<close>

definition stoi :: "string \<Rightarrow> int result" where
  "stoi str =
     (let s = dropWhile is_space str;
          neg = (s \<noteq> [] \<and> hd s = CHR ''-'');
          s' = (if s \<noteq> [] \<and> (hd s = CHR ''-'' \<or> hd s = CHR ''+'') then tl s else s);
          ds = takeWhile is_digit s';
          v = (if neg then - int (digits_value ds) else int (digits_value ds))
      in if ds = [] then Inl InvalidArgument
         else if v < - (2 ^ 31) \<or> 2 ^ 31 \<le> v then Inl OutOfRange
         else Inr v)"

lemma of_digit_char: "d < 10 \<Longrightarrow> of_char (digit_char d) = 48 + d"
  by (simp add: digit_char_def)

lemma is_digit_digit_char: "d < 10 \<Longrightarrow> is_digit (digit_char d)"
  by (simp add: is_digit_def of_digit_char)

lemma to_string_nonempty [simp]: "to_string n \<noteq> []"
  by (subst to_string.simps) simp

lemma to_string_digits: "\<forall>c \<in> set (to_string n). is_digit c"
proof (induction n rule: to_string.induct)
  case (1 n)
  then show ?case
    by (subst to_string.simps) (auto simp: is_digit_digit_char)
qed

lemma digits_value_snoc: "digits_value (ds @ [c]) = digits_value ds * 10 + (of_char c - 48)"
  by (simp add: digits_value_def)

lemma digits_value_to_string [simp]: "digits_value (to_string n) = n"
proof (induction n rule: to_string.induct)
  case (1 n)
  show ?case
  proof (cases "n < 10")
    case True
    then show ?thesis
      by (subst to_string.simps) (simp add: digits_value_def of_digit_char)
  next
    case False
    with "1.IH" show ?thesis
      by (subst to_string.simps) (simp add: digits_value_snoc of_digit_char)
  qed
qed

lemma length_to_string: "n < 10 ^ d \<Longrightarrow> 0 < d \<Longrightarrow> length (to_string n) \<le> d"
proof (induction n arbitrary: d rule: to_string.induct)
  case (1 n)
  show ?case
  proof (cases "n < 10")
    case True
    with "1.prems" show ?thesis by (subst to_string.simps) simp
  next
    case False
    with "1.prems" obtain e where e: "d = Suc e" "0 < e" by (cases d; cases "d - 1") auto
    with "1.prems" have "n div 10 < 10 ^ e" by auto
    with "1.IH" False e show ?thesis by (subst to_string.simps) simp
  qed
qed

lemma not_digit_chars:
  "is_digit c \<Longrightarrow> \<not> is_space c \<and> c \<noteq> CHR ''-'' \<and> c \<noteq> CHR ''+'' \<and> c \<noteq> CHR '' '' \<and> c \<noteq> CR"
  by (auto simp: is_digit_def is_space_def)

lemma stoi_digits:
  assumes "ds \<noteq> []" and "\<forall>c \<in> set ds. is_digit c" and "digits_value ds < 2 ^ 31"
  shows "stoi ds = Inr (int (digits_value ds))"
proof -
  from assms(1) obtain c cs where ds: "ds = c # cs" by (cases ds) auto
  with assms(2) have "\<not> is_space c \<and> c \<noteq> CHR ''-'' \<and> c \<noteq> CHR ''+''"
    using not_digit_chars by auto
  moreover from assms(2) have "takeWhile is_digit ds = ds" by (simp add: takeWhile_eq_all_conv)
  ultimately show ?thesis
    using assms(3) ds by (auto simp: stoi_def Let_def)
qed

lemma stoi_to_string: "n < 2 ^ 31 \<Longrightarrow> stoi (to_string n) = Inr (int n)"
  using stoi_digits [of "to_string n"] to_string_digits by simp

end
