(* ===== verification/Timestamps.thy ===== *)
theory Timestamps
  imports Prelude
begin

text \<open>
  \<^verbatim>\<open>base/timestamp.h\<close>: a point in time as seconds and milliseconds, its comparison
  operators, the truncated difference the event loop hands to \<^verbatim>\<open>epoll_wait\<close>, and the two
  constructors from the wall clock. The clock itself (\<^verbatim>\<open>gettimeofday\<close>) is an argument.
\<close>

section \<open>The class and its operators\<close>

datatype timestamp = TimeStamp (sec: int) (msec: int)

text \<open>\<^verbatim>\<open>operator<\<close> and \<^verbatim>\<open>operator==\<close>; the order instance makes the library's facts about
  linear orders available for time stamps.\<close>

definition ts_less :: "timestamp \<Rightarrow> timestamp \<Rightarrow> bool" where
  "ts_less a b = (if sec a \<noteq> sec b then sec a < sec b else msec a < msec b)"

definition ts_eq :: "timestamp \<Rightarrow> timestamp \<Rightarrow> bool" where
  "ts_eq a b \<longleftrightarrow> sec a = sec b \<and> msec a = msec b"

text \<open>\<^verbatim>\<open>operator-\<close>: the difference in milliseconds, cut to a 32-bit \<^verbatim>\<open>int\<close>.\<close>

definition ts_diff :: "timestamp \<Rightarrow> timestamp \<Rightarrow> int" where
  "ts_diff a b = to_int32 ((sec a - sec b) * 1000 + msec a - msec b)"

text \<open>\<^verbatim>\<open>now\<close> from a \<^verbatim>\<open>struct timeval\<close>, and \<^verbatim>\<open>after_now_ms\<close> from the value \<^verbatim>\<open>now()\<close> returned.\<close>

definition ts_now :: "int \<Rightarrow> int \<Rightarrow> timestamp" where
  "ts_now tv_sec tv_usec = TimeStamp tv_sec (c_div tv_usec 1000)"

definition after_now_ms :: "timestamp \<Rightarrow> int \<Rightarrow> timestamp" where
  "after_now_ms now after_time_ms =
     (let tmp = msec now + after_time_ms
      in TimeStamp (sec now + c_div tmp 1000) (c_mod tmp 1000))"

instantiation timestamp :: linorder
begin

definition less_timestamp :: "timestamp \<Rightarrow> timestamp \<Rightarrow> bool" where
  "less_timestamp a b = ts_less a b"

definition less_eq_timestamp :: "timestamp \<Rightarrow> timestamp \<Rightarrow> bool" where
  "less_eq_timestamp a b \<longleftrightarrow> ts_less a b \<or> ts_eq a b"

instance
proof
  fix x y z :: timestamp
  show "x < y \<longleftrightarrow> x \<le> y \<and> \<not> y \<le> x"
    by (auto simp: less_timestamp_def less_eq_timestamp_def ts_less_def ts_eq_def)
  show "x \<le> x"
    by (simp add: less_eq_timestamp_def ts_eq_def)
  show "x \<le> y \<Longrightarrow> y \<le> z \<Longrightarrow> x \<le> z"
    by (auto simp: less_eq_timestamp_def ts_less_def ts_eq_def split: if_splits)
  show "x \<le> y \<Longrightarrow> y \<le> x \<Longrightarrow> x = y"
    by (auto simp: less_eq_timestamp_def ts_less_def ts_eq_def timestamp.expand split: if_splits)
  show "x \<le> y \<or> y \<le> x"
    by (auto simp: less_eq_timestamp_def ts_less_def ts_eq_def)
qed

end

lemma ts_less_iff [simp]: "ts_less a b \<longleftrightarrow> a < b"
  by (simp add: less_timestamp_def)

lemma ts_eq_iff [simp]: "ts_eq a b \<longleftrightarrow> a = b"
  by (auto simp: ts_eq_def timestamp.expand)

lemma less_timestamp_iff:
  "a < b \<longleftrightarrow> (if sec a \<noteq> sec b then sec a < sec b else msec a < msec b)"
  by (simp add: less_timestamp_def ts_less_def del: ts_less_iff)

section \<open>Milliseconds since the epoch\<close>

text \<open>The number a time stamp stands for, and the normal form the clock produces.\<close>

definition total_ms :: "timestamp \<Rightarrow> int" where
  "total_ms t = sec t * 1000 + msec t"

definition normalised :: "timestamp \<Rightarrow> bool" where
  "normalised t \<longleftrightarrow> 0 \<le> msec t \<and> msec t < 1000"

lemma normalised_now: "0 \<le> u \<Longrightarrow> u < 1000000 \<Longrightarrow> normalised (ts_now s u)"
  by (auto simp: normalised_def ts_now_def c_div_nonneg)

lemma total_ms_after: "total_ms (after_now_ms now k) = total_ms now + k"
  using c_div_mod_eq [of "msec now + k" 1000]
  by (simp add: total_ms_def after_now_ms_def Let_def algebra_simps)

lemma normalised_after:
  "0 \<le> msec now + k \<Longrightarrow> normalised (after_now_ms now k)"
  by (simp add: normalised_def after_now_ms_def Let_def c_mod_nonneg)

lemma less_iff_total_ms:
  "normalised a \<Longrightarrow> normalised b \<Longrightarrow> a < b \<longleftrightarrow> total_ms a < total_ms b"
  by (auto simp: less_timestamp_iff normalised_def total_ms_def)

lemma ts_diff_exact:
  "\<bar>total_ms a - total_ms b\<bar> < 2 ^ 31 \<Longrightarrow> ts_diff a b = total_ms a - total_ms b"
  by (simp add: ts_diff_def total_ms_def to_int32_small algebra_simps)

end
