(* ===== verification/Timers.thy ===== *)
theory Timers
  imports Timestamps "HOL-Library.Multiset"
begin

text \<open>
  \<^verbatim>\<open>net/timer_manager.h\<close>: the queue of timers of an event loop. The contract the event
  loop relies on is the locale \<open>timer_queue\<close>; the model of \<^verbatim>\<open>TimerManager\<close> is interpreted
  in it below, and the loop that takes the due timers is the client \<open>timer_client\<close>.
\<close>

section \<open>TimerManager\<close>

text \<open>
  A timer is its time stamp and its callback; callbacks are a type parameter. The code's
  \<^verbatim>\<open>Timer::operator<\<close> is turned round so that the maximum of the
  \<^verbatim>\<open>std::priority_queue\<close> is the earliest timer.
\<close>

type_synonym 'f timer = "timestamp \<times> 'f"

definition timer_less :: "'f timer \<Rightarrow> 'f timer \<Rightarrow> bool" where
  "timer_less a b \<longleftrightarrow> \<not> (fst a < fst b)"

text \<open>
  \<^verbatim>\<open>std::priority_queue<Timer>\<close>: a bag of timers whose \<^verbatim>\<open>top\<close> is an element that is not
  less than any other in the sense of \<^verbatim>\<open>operator<\<close>. Which of several equal ones it is, the
  standard leaves open; the scan takes the last. \<^verbatim>\<open>top\<close> and \<^verbatim>\<open>pop\<close> of an empty queue are
  undefined.
\<close>

record 'f timer_manager =
  queue :: "'f timer list"

definition new_timer_manager :: "'f timer_manager" where
  "new_timer_manager = \<lparr>queue = []\<rparr>"

definition timer_max :: "'f timer \<Rightarrow> 'f timer \<Rightarrow> 'f timer" where
  "timer_max m u = (if timer_less m u then u else m)"

fun pq_top :: "'f timer list \<Rightarrow> 'f timer result" where
  "pq_top [] = Inl OutOfBounds"
| "pq_top (t # ts) = Inr (foldl timer_max t ts)"

definition tm_empty :: "'f timer_manager \<Rightarrow> bool" where
  "tm_empty m \<longleftrightarrow> queue m = []"

definition tm_top :: "'f timer_manager \<Rightarrow> 'f timer result" where
  "tm_top m = pq_top (queue m)"

definition tm_pop :: "'f timer_manager \<Rightarrow> 'f timer_manager result" where
  "tm_pop m = and_then (pq_top (queue m)) (\<lambda>t. Inr (m\<lparr>queue := remove1 t (queue m)\<rparr>))"

definition get_latest_timer :: "'f timer_manager \<Rightarrow> timestamp result" where
  "get_latest_timer m =
     (if queue m = [] then Inr (TimeStamp 0 0)
      else and_then (pq_top (queue m)) (\<lambda>tm. Inr (fst tm)))"

definition add_timer :: "timestamp \<Rightarrow> 'f \<Rightarrow> 'f timer_manager \<Rightarrow> 'f timer_manager" where
  "add_timer ts func m = m\<lparr>queue := queue m @ [(ts, func)]\<rparr>"

text \<open>
  The loop of \<^verbatim>\<open>EventLoop::loop\<close> that moves the due timers out of the queue:
  \<^verbatim>\<open>while (!_timers.empty()) { tm = top; if (tm.timestamp() < now) push_back, pop; else break; }\<close>.
\<close>

lemma timer_max_fold:
  "foldl timer_max t ts \<in> set (t # ts) \<and> (\<forall>u \<in> set (t # ts). fst (foldl timer_max t ts) \<le> fst u)"
proof (induction ts arbitrary: t)
  case (Cons v ts)
  have "timer_max t v \<in> {t, v}" "fst (timer_max t v) \<le> fst t" "fst (timer_max t v) \<le> fst v"
    by (auto simp: timer_max_def timer_less_def)
  with Cons.IH [of "timer_max t v"] show ?case
    by (auto intro: order_trans)
qed simp

lemma pq_top_in: "pq_top q = Inr t \<Longrightarrow> t \<in> set q"
  by (metis list.exhaust pq_top.simps sum.inject(2) sum.simps(4) timer_max_fold)

lemma pq_top_le: "pq_top q = Inr t \<Longrightarrow> u \<in> set q \<Longrightarrow> fst t \<le> fst u"
  by (metis list.exhaust pq_top.simps sum.inject(2) sum.simps(4) timer_max_fold)

lemma pq_top_nonempty: "q \<noteq> [] \<Longrightarrow> \<exists>t. pq_top q = Inr t"
  by (cases q) auto

function take_due ::
  "timestamp \<Rightarrow> 'f timer_manager \<Rightarrow> 'f timer list \<Rightarrow> ('f timer list \<times> 'f timer_manager) result"
where
  "take_due now m exe =
     (if tm_empty m then Inr (exe, m)
      else and_then (tm_top m) (\<lambda>tm.
        if fst tm < now then and_then (tm_pop m) (\<lambda>m'. take_due now m' (exe @ [tm]))
        else Inr (exe, m)))"
  by pat_completeness auto
termination
proof (relation "measure (\<lambda>(now, m, exe). length (queue m))")
  fix now :: timestamp and m :: "'f timer_manager" and exe tm m'
  assume top: "tm_top m = Inr tm" and pop: "tm_pop m = Inr m'"
  from top have "tm \<in> set (queue m)" by (simp add: tm_top_def pq_top_in)
  moreover from this have "0 < length (queue m)" by (rule length_pos_if_in_set)
  ultimately have "length (queue m') < length (queue m)"
    using top pop by (auto simp: tm_pop_def tm_top_def length_remove1)
  then show "((now, m', exe @ [tm]), now, m, exe) \<in> measure (\<lambda>(now, m, exe). length (queue m))"
    by simp
qed simp

declare take_due.simps [simp del]

section \<open>The contract\<close>

locale timer_queue =
  fixes is_empty :: "'q \<Rightarrow> bool"
    and top :: "'q \<Rightarrow> 'f timer result"
    and pop :: "'q \<Rightarrow> 'q result"
    and push :: "timestamp \<Rightarrow> 'f \<Rightarrow> 'q \<Rightarrow> 'q"
    and elems :: "'q \<Rightarrow> 'f timer multiset"
  assumes is_empty: "is_empty q \<longleftrightarrow> elems q = {#}"
    and top: "elems q \<noteq> {#} \<Longrightarrow> \<exists>t. top q = Inr t \<and> t \<in># elems q \<and> (\<forall>u \<in># elems q. fst t \<le> fst u)"
    and pop: "top q = Inr t \<Longrightarrow> \<exists>q'. pop q = Inr q' \<and> elems q' = elems q - {#t#}"
    and push: "elems (push ts f q) = elems q + {#(ts, f)#}"
begin

lemma push_not_empty: "\<not> is_empty (push ts f q)"
  by (simp add: is_empty push)

lemma top_push_le:
  "top (push ts f q) = Inr t \<Longrightarrow> fst t \<le> ts \<and> (\<forall>u \<in># elems q. fst t \<le> fst u)"
  using top [of "push ts f q"] by (auto simp: push)

end

text \<open>A client that takes timers off the front while they are due.\<close>

locale timer_client = timer_queue +
  fixes drain :: "timestamp \<Rightarrow> 'a \<Rightarrow> 'b timer list \<Rightarrow> ('b timer list \<times> 'a) result"
  assumes drain: "drain now q exe =
     (if is_empty q then Inr (exe, q)
      else and_then (top q) (\<lambda>tm.
        if fst tm < now then and_then (pop q) (\<lambda>q'. drain now q' (exe @ [tm]))
        else Inr (exe, q)))"
begin

lemma drain_stop:
  assumes "\<forall>u \<in># elems q. \<not> fst u < now"
  shows "drain now q exe = Inr (exe, q)"
proof (cases "elems q = {#}")
  case True
  then show ?thesis by (simp add: drain [of now q] is_empty)
next
  case False
  from top [OF this] obtain t where "top q = Inr t" "t \<in># elems q" by blast
  with False assms show ?thesis by (simp add: drain [of now q] is_empty)
qed

lemma drain_step:
  assumes "u \<in># elems q" and "fst u < now"
  shows "\<exists>t q'. top q = Inr t \<and> fst t < now \<and> (\<forall>u \<in># elems q. fst t \<le> fst u) \<and>
    elems q = add_mset t (elems q') \<and> drain now q exe = drain now q' (exe @ [t])"
proof -
  have ne: "elems q \<noteq> {#}" using assms(1) by auto
  from top [OF this] obtain t where t: "top q = Inr t" "t \<in># elems q" "\<forall>u \<in># elems q. fst t \<le> fst u"
    by blast
  from pop [OF t(1)] obtain q' where q': "pop q = Inr q'" "elems q' = elems q - {#t#}" by blast
  from t(3) assms have due: "fst t < now" by (meson le_less_trans)
  have "elems q = add_mset t (elems q')" using q'(2) t(2) by simp
  moreover have "drain now q exe = drain now q' (exe @ [t])"
    using ne t(1) q'(1) due by (simp add: drain [of now q exe] is_empty)
  ultimately show ?thesis using t(1,3) due by blast
qed

text \<open>It returns, it takes exactly the due timers, and it takes them in order of time.\<close>

lemma drain_spec:
  "\<exists>due q'. drain now q exe = Inr (exe @ due, q') \<and>
     mset due = filter_mset (\<lambda>t. fst t < now) (elems q) \<and>
     elems q' = filter_mset (\<lambda>t. \<not> fst t < now) (elems q) \<and>
     sorted (map fst due)"
proof (induction "size (elems q)" arbitrary: q exe rule: less_induct)
  case less
  show ?case
  proof (cases "\<exists>u \<in># elems q. fst u < now")
    case False
    then have "filter_mset (\<lambda>t. fst t < now) (elems q) = {#}"
      "filter_mset (\<lambda>t. \<not> fst t < now) (elems q) = elems q"
      by (auto simp: filter_mset_eq_conv)
    moreover from False have "drain now q exe = Inr (exe, q)" by (simp add: drain_stop)
    ultimately show ?thesis by force
  next
    case True
    then obtain t q1 where t: "top q = Inr t" "fst t < now" "\<forall>u \<in># elems q. fst t \<le> fst u"
      and q1: "elems q = add_mset t (elems q1)" "drain now q exe = drain now q1 (exe @ [t])"
      using drain_step [of _ q now exe] by blast
    from less [of q1 "exe @ [t]"] q1(1) obtain due q' where IH:
      "drain now q1 (exe @ [t]) = Inr ((exe @ [t]) @ due, q')"
      "mset due = filter_mset (\<lambda>t. fst t < now) (elems q1)"
      "elems q' = filter_mset (\<lambda>t. \<not> fst t < now) (elems q1)"
      "sorted (map fst due)"
      by auto
    from IH(2) have "set due \<subseteq> set_mset (elems q1)"
      by (metis multiset_filter_subset set_mset_mono set_mset_mset)
    then have "sorted (map fst (t # due))" using IH(4) t(3) q1(1) by auto
    moreover have "drain now q exe = Inr (exe @ (t # due), q')" using q1(2) IH(1) by simp
    ultimately show ?thesis using IH(2,3) q1(1) t(2)
      by (intro exI [of _ "t # due"] exI [of _ q']) simp
  qed
qed

end

section \<open>The model of TimerManager meets it\<close>

definition timers_of :: "'f timer_manager \<Rightarrow> 'f timer multiset" where
  "timers_of m = mset (queue m)"

interpretation tmq: timer_client tm_empty tm_top tm_pop add_timer timers_of take_due
proof (unfold_locales, goal_cases)
  case (1 q)
  show ?case by (simp add: tm_empty_def timers_of_def)
next
  case (2 q)
  then show ?case
    using pq_top_nonempty [of "queue q"] pq_top_in pq_top_le
    by (fastforce simp: tm_top_def timers_of_def)
next
  case (3 q t)
  then show ?case by (simp add: tm_top_def tm_pop_def timers_of_def)
next
  case (4 ts f q)
  show ?case by (simp add: add_timer_def timers_of_def)
next
  case (5 now q exe)
  show ?case by (rule take_due.simps)
qed

end
