(* ===== verification/Buffers.thy ===== *)
theory Buffers
  imports Prelude
begin

text \<open>
  \<^verbatim>\<open>net/buffer.h\<close>, \<^verbatim>\<open>net/buffer.cpp\<close>: the byte buffer between sockets and protocols, its views,
  and the two system calls it makes. The contract the protocol parsers rely on is the
  locale \<open>byte_queue\<close>: a buffer is a queue of unread bytes.
\<close>

section \<open>State\<close>

text \<open>
  The fields of \<^verbatim>\<open>Buffer\<close>. A pointer into \<^verbatim>\<open>_data\<close> is its index there; the object is the
  whole vector, so a stale byte past \<^verbatim>\<open>_windex\<close> can be read and a byte past the vector
  cannot.
\<close>

record buffer =
  rindex :: nat
  windex :: nat
  data :: "byte list"
  extra_index :: nat
  extra_data :: "byte list"

definition InitialBufferSize :: nat where
  "InitialBufferSize = 1024"

definition new_buffer :: "nat \<Rightarrow> buffer" where
  "new_buffer buf_size =
     \<lparr>rindex = 0, windex = 0, data = replicate buf_size NUL, extra_index = 0, extra_data = []\<rparr>"

definition readable :: "buffer \<Rightarrow> nat" where
  "readable b = sz_sub (windex b) (rindex b)"

definition writeable :: "buffer \<Rightarrow> nat" where
  "writeable b = sz_sub (length (data b)) (windex b)"

definition extraable :: "buffer \<Rightarrow> nat" where
  "extraable b = sz_sub (length (extra_data b)) (extra_index b)"

section \<open>Memory\<close>

text \<open>Reading \<open>n\<close> bytes at index \<open>p\<close>; the \<^verbatim>\<open>memchr\<close> of the C library, which stops at the
  first match, with the index of the match as its result.\<close>

definition in_bounds :: "buffer \<Rightarrow> nat \<Rightarrow> nat \<Rightarrow> bool" where
  "in_bounds b p n \<longleftrightarrow> p + n \<le> length (data b) \<and> length (data b) \<le> max_object"

definition mem_read :: "buffer \<Rightarrow> nat \<Rightarrow> nat \<Rightarrow> byte list result" where
  "mem_read b p n = (if in_bounds b p n then Inr (take n (drop p (data b))) else Inl OutOfBounds)"

definition mem_chr :: "buffer \<Rightarrow> nat \<Rightarrow> byte \<Rightarrow> nat \<Rightarrow> nat option result" where
  "mem_chr b p c n =
     (case index_of c (take n (drop p (data b))) of
        Some k \<Rightarrow> Inr (Some (p + k))
      | None \<Rightarrow> if in_bounds b p n then Inr None else Inl OutOfBounds)"

section \<open>Operations\<close>

definition peek_uint32 :: "buffer \<Rightarrow> nat result" where
  "peek_uint32 b = and_then (mem_read b (rindex b) 4) (\<lambda>bs. Inr (unat (be_word bs)))"

definition peek_int32 :: "buffer \<Rightarrow> int result" where
  "peek_int32 b = and_then (mem_read b (rindex b) 4) (\<lambda>bs. Inr (sint (be_word bs)))"

definition find_crlf :: "nat \<Rightarrow> buffer \<Rightarrow> int result" where
  "find_crlf len b = and_then (mem_read b (rindex b) len) (\<lambda>bs.
     case index_of_crlf bs of None \<Rightarrow> Inr (-1) | Some k \<Rightarrow> Inr (to_int32 (int k)))"

definition retrieve :: "nat \<Rightarrow> buffer \<Rightarrow> buffer" where
  "retrieve n b = b\<lparr>rindex := sz_add (rindex b) n\<rparr>"

text \<open>\<^verbatim>\<open>_data.resize(_data.size() * 2)\<close>: the new half is zero, a size past the maximum throws.\<close>

definition resize_double :: "buffer \<Rightarrow> buffer result" where
  "resize_double b =
     (if 2 * length (data b) \<le> max_object
      then Inr (b\<lparr>data := data b @ replicate (length (data b)) NUL\<rparr>)
      else Inl LengthError)"

text \<open>\<^verbatim>\<open>_append\<close>: one doubling at most, then \<^verbatim>\<open>memcpy\<close>. The length is an \<^verbatim>\<open>int\<close>.\<close>

definition append_mem :: "byte list \<Rightarrow> buffer \<Rightarrow> buffer result" where
  "append_mem mem b =
     (let memlen = to_int32 (int (length mem)) in
      and_then (if to_int32 (int (writeable b)) < memlen then resize_double b else Inr b) (\<lambda>b.
        let n = to_size memlen; w = windex b in
        if n \<le> length mem \<and> in_bounds b w n
        then Inr (b\<lparr>data := take w (data b) @ take n mem @ drop (w + n) (data b),
                    windex := sz_add w n\<rparr>)
        else Inl OutOfBounds))"

definition append_int32 :: "int \<Rightarrow> buffer \<Rightarrow> buffer result" where
  "append_int32 num = append_mem (be_bytes (word_of_int num))"

definition append_uint32 :: "nat \<Rightarrow> buffer \<Rightarrow> buffer result" where
  "append_uint32 num = append_mem (be_bytes (word_of_nat num))"

text \<open>A sequence of \<^verbatim>\<open>append\<close> calls, and \<^verbatim>\<open>append_extra\<close>, which replaces the extra data and
  leaves the index.\<close>

fun append_all :: "byte list list \<Rightarrow> buffer \<Rightarrow> buffer result" where
  "append_all [] b = Inr b"
| "append_all (m # ms) b = and_then (append_mem m b) (append_all ms)"

definition append_extra :: "byte list \<Rightarrow> buffer \<Rightarrow> buffer" where
  "append_extra extra b = b\<lparr>extra_data := extra\<rparr>"

definition clear :: "buffer \<Rightarrow> buffer" where
  "clear b = b\<lparr>rindex := 0, windex := 0, extra_index := 0\<rparr>"

section \<open>System calls\<close>

text \<open>
  The kernel's answers are arguments. A \<^verbatim>\<open>write\<close> of \<open>n\<close> bytes with answer \<open>Room k\<close> takes
  the first \<open>min k n\<close>; a \<^verbatim>\<open>read\<close> of at most \<open>n\<close> bytes with answer \<open>Pending bs\<close> delivers the
  first \<open>min n (length bs)\<close> of them, none at the end of the stream.
\<close>

datatype errno = EAGAIN | EWOULDBLOCK | EINTR | EPIPE | ECONNRESET | ECONNABORTED
  | ECONNREFUSED | ETIMEDOUT | EINPROGRESS | ENOENT | EOTHER int

datatype write_answer = Room nat | WriteErr errno
datatype read_answer = Pending "byte list" | ReadErr errno

definition transient :: "errno \<Rightarrow> bool" where
  "transient e \<longleftrightarrow> e = EAGAIN \<or> e = EWOULDBLOCK \<or> e = EINTR"

text \<open>\<^verbatim>\<open>write_fd\<close>: the result, the buffer, and the bytes handed to the kernel. The write of the
  extra data is made unless the first write returned early.\<close>

definition write_extra ::
  "write_answer \<Rightarrow> int \<times> buffer \<times> byte list \<Rightarrow> (int \<times> buffer \<times> byte list) result"
where
  "write_extra a = (\<lambda>(total, b, out).
     if extraable b \<noteq> 0 then
       (case a of
          WriteErr e \<Rightarrow> if transient e then Inr (-1, b, out)
            else if e = EPIPE then Inr (0, b, out) else Inl Aborted
        | Room k \<Rightarrow>
            (let n = min k (extraable b) in
             if extra_index b + n \<le> length (extra_data b) then
               Inr (total + int n, b\<lparr>extra_index := sz_add (extra_index b) n\<rparr>,
                    out @ take n (drop (extra_index b) (extra_data b)))
             else Inl OutOfBounds))
     else Inr (total, b, out))"

definition write_fd ::
  "write_answer \<Rightarrow> write_answer \<Rightarrow> buffer \<Rightarrow> (int \<times> buffer \<times> byte list) result"
where
  "write_fd a1 a2 b =
     (if readable b \<noteq> 0 then
        (case a1 of
           WriteErr e \<Rightarrow> if transient e then Inr (-1, b, [])
             else if e = EPIPE then Inr (0, b, []) else Inl Aborted
         | Room k \<Rightarrow>
             (let n = min k (readable b) in
              and_then (mem_read b (rindex b) n) (\<lambda>bs.
                write_extra a2 (int n, b\<lparr>rindex := sz_add (rindex b) n\<rparr>, bs))))
      else write_extra a2 (0, b, []))"

definition read_fd :: "read_answer \<Rightarrow> buffer \<Rightarrow> (int \<times> buffer) result" where
  "read_fd a b =
     and_then (if writeable b = 0 then resize_double b else Inr b) (\<lambda>b.
       case a of
         ReadErr e \<Rightarrow> if transient e then Inr (-1, b) else Inl Aborted
       | Pending bs \<Rightarrow>
           (let n = min (writeable b) (length bs); w = windex b in
            if in_bounds b w n then
              Inr (int n, b\<lparr>data := take w (data b) @ take n bs @ drop (w + n) (data b),
                            windex := sz_add w n\<rparr>)
            else Inl OutOfBounds))"

section \<open>Views\<close>

text \<open>\<^verbatim>\<open>BufferView\<close>: indices, so that a view survives the growth of the vector. The buffer a
  view belongs to is an argument of the operations that read it.\<close>

record bufview =
  has_buf :: bool
  v_begin :: nat
  v_end :: nat

definition null_view :: bufview where
  "null_view = \<lparr>has_buf = False, v_begin = 0, v_end = 0\<rparr>"

definition view_at :: "nat \<Rightarrow> nat \<Rightarrow> bufview" where
  "view_at p len = \<lparr>has_buf = True, v_begin = p, v_end = sz_add p len\<rparr>"

definition view_empty :: "bufview \<Rightarrow> bool" where
  "view_empty v \<longleftrightarrow> v_begin v = v_end v"

definition view_size :: "bufview \<Rightarrow> nat" where
  "view_size v = sz_sub (v_end v) (v_begin v)"

text \<open>\<^verbatim>\<open>std::string(first, last)\<close> with \<^verbatim>\<open>last\<close> before \<^verbatim>\<open>first\<close> throws \<^verbatim>\<open>std::length_error\<close>.\<close>

definition view_str :: "buffer \<Rightarrow> bufview \<Rightarrow> byte list result" where
  "view_str b v =
     (if \<not> has_buf v then Inr []
      else if view_size v > max_object then Inl LengthError
      else mem_read b (v_begin v) (view_size v))"

section \<open>The invariant and the unread bytes\<close>

definition buf_ok :: "buffer \<Rightarrow> bool" where
  "buf_ok b \<longleftrightarrow> rindex b \<le> windex b \<and> windex b \<le> length (data b) \<and> length (data b) \<le> max_object \<and>
     extra_index b \<le> length (extra_data b) \<and> length (extra_data b) \<le> max_object"

definition unread :: "buffer \<Rightarrow> byte list" where
  "unread b = take (windex b - rindex b) (drop (rindex b) (data b))"

definition extra_left :: "buffer \<Rightarrow> byte list" where
  "extra_left b = drop (extra_index b) (extra_data b)"

lemma buf_ok_new [simp]: "n \<le> max_object \<Longrightarrow> buf_ok (new_buffer n)"
  by (simp add: buf_ok_def new_buffer_def)

lemma unread_new [simp]: "unread (new_buffer n) = []"
  by (simp add: unread_def new_buffer_def)

lemma length_data_new [simp]: "length (data (new_buffer n)) = n"
  by (simp add: new_buffer_def)

lemma length_unread [simp]: "buf_ok b \<Longrightarrow> length (unread b) = windex b - rindex b"
  by (auto simp: buf_ok_def unread_def)

lemma readable_unread: "buf_ok b \<Longrightarrow> readable b = length (unread b)"
  by (auto simp: readable_def buf_ok_def sz_sub_small unread_def)

lemma writeable_ok: "buf_ok b \<Longrightarrow> writeable b = length (data b) - windex b"
  by (auto simp: writeable_def buf_ok_def sz_sub_small)

lemma extraable_left: "buf_ok b \<Longrightarrow> extraable b = length (extra_left b)"
  by (auto simp: extraable_def extra_left_def buf_ok_def sz_sub_small)

lemma readable_bound: "buf_ok b \<Longrightarrow> readable b \<le> max_object"
  by (auto simp: readable_def buf_ok_def sz_sub_small)

lemma data_split:
  "buf_ok b \<Longrightarrow> drop (rindex b) (data b) = unread b @ drop (windex b) (data b)"
  by (simp add: buf_ok_def unread_def)
     (metis append_take_drop_id drop_drop le_add_diff_inverse2)

lemma drop_data:
  "buf_ok b \<Longrightarrow> k \<le> length (unread b) \<Longrightarrow>
     drop (rindex b + k) (data b) = drop k (unread b) @ drop (windex b) (data b)"
  by (metis add.commute append_eq_append_conv_if data_split drop_append drop_drop diff_is_0_eq drop0)

lemma mem_read_unread:
  assumes "buf_ok b" and "k + n \<le> length (unread b)"
  shows "mem_read b (rindex b + k) n = Inr (take n (drop k (unread b)))"
  using assms drop_data [of b k]
  by (auto simp: mem_read_def in_bounds_def buf_ok_def)

lemma mem_chr_unread:
  assumes "buf_ok b" and "k + n \<le> length (unread b)"
  shows "mem_chr b (rindex b + k) c n =
    Inr (map_option (\<lambda>j. rindex b + k + j) (index_of c (take n (drop k (unread b)))))"
proof -
  have "take n (drop (rindex b + k) (data b)) = take n (drop k (unread b))"
    using assms drop_data [of b k] by auto
  then show ?thesis
    using assms by (auto simp: mem_chr_def in_bounds_def buf_ok_def split: option.splits)
qed

lemmas mem_unread = mem_read_unread [of _ 0, simplified] mem_chr_unread [of _ 0, simplified]

section \<open>What the operations do to the unread bytes\<close>

lemma retrieve_ok:
  assumes "buf_ok b" and "n \<le> length (unread b)"
  shows "buf_ok (retrieve n b)" and "unread (retrieve n b) = drop n (unread b)"
    and "rindex (retrieve n b) = rindex b + n"
proof -
  have "rindex b + n < 2 ^ 64" using assms by (auto simp: buf_ok_def)
  then have r: "sz_add (rindex b) n = rindex b + n" by (rule sz_add_small)
  show "buf_ok (retrieve n b)" "rindex (retrieve n b) = rindex b + n"
    using assms r by (auto simp: buf_ok_def retrieve_def)
  show "unread (retrieve n b) = drop n (unread b)"
    using assms r by (simp add: unread_def retrieve_def drop_take add.commute)
qed

lemma retrieve_frame [simp]:
  "windex (retrieve n b) = windex b" "data (retrieve n b) = data b"
  "extra_index (retrieve n b) = extra_index b" "extra_data (retrieve n b) = extra_data b"
  by (simp_all add: retrieve_def)

lemma resize_double_ok:
  assumes "buf_ok b" and "2 * length (data b) \<le> max_object"
  obtains b' where "resize_double b = Inr b'" "buf_ok b'" "unread b' = unread b"
    "rindex b' = rindex b" "windex b' = windex b" "length (data b') = 2 * length (data b)"
    "extra_data b' = extra_data b" "extra_index b' = extra_index b"
proof (rule that)
  show "resize_double b = Inr (b\<lparr>data := data b @ replicate (length (data b)) NUL\<rparr>)"
    using assms by (simp add: resize_double_def)
qed (use assms in \<open>auto simp: buf_ok_def unread_def\<close>)

lemma store_ok:
  assumes "buf_ok b" and "windex b + length mem \<le> length (data b)"
  defines "b' \<equiv> b\<lparr>data := take (windex b) (data b) @ mem @ drop (windex b + length mem) (data b),
    windex := sz_add (windex b) (length mem)\<rparr>"
  shows "buf_ok b'" and "unread b' = unread b @ mem" and "length (data b') = length (data b)"
    and "rindex b' = rindex b" and "windex b' = windex b + length mem"
proof -
  have w: "sz_add (windex b) (length mem) = windex b + length mem"
    using assms by (intro sz_add_small) (auto simp: buf_ok_def)
  show "buf_ok b'" "length (data b') = length (data b)" "rindex b' = rindex b"
    "windex b' = windex b + length mem"
    using assms w by (auto simp: buf_ok_def)
  let ?front = "take (windex b - rindex b) (drop (rindex b) (data b))"
  have front: "drop (rindex b) (take (windex b) (data b)) = ?front"
    "length ?front = windex b - rindex b" "length (take (windex b) (data b)) = windex b"
    "rindex b \<le> windex b"
    using assms(1) by (auto simp: buf_ok_def drop_take)
  then have "drop (rindex b) (take (windex b) (data b) @ mem @ rest) = ?front @ mem @ rest" for rest
    by simp
  then have "take (windex b + length mem - rindex b)
      (drop (rindex b) (take (windex b) (data b) @ mem @ rest)) = ?front @ mem" for rest
    using front by simp
  then show "unread b' = unread b @ mem"
    using w by (simp add: b'_def unread_def del: take_append drop_append)
qed

lemma append_mem_into:
  assumes "length mem < 2 ^ 31"
    and "(if to_int32 (int (writeable b)) < int (length mem) then resize_double b else Inr b) = Inr c"
    and "buf_ok c" and "windex c + length mem \<le> length (data c)"
  shows "\<exists>b'. append_mem mem b = Inr b' \<and> buf_ok b' \<and> unread b' = unread c @ mem \<and>
    length (data b') = length (data c) \<and> rindex b' = rindex c \<and>
    windex b' = windex c + length mem \<and> extra_data b' = extra_data c \<and> extra_index b' = extra_index c"
proof -
  have ml: "to_int32 (int (length mem)) = int (length mem)"
    using assms(1) by (intro to_int32_small) auto
  have sz: "to_size (int (length mem)) = length mem"
    using assms(1) by (intro to_size_int) auto
  show ?thesis
    using store_ok [OF assms(3,4)] assms
    by (auto simp: append_mem_def Let_def ml sz in_bounds_def buf_ok_def)
qed

text \<open>An append of at most the capacity finds room after one doubling.\<close>

lemma append_mem_ok:
  assumes ok: "buf_ok b" and len: "length mem \<le> length (data b)"
    and small: "2 * length (data b) < 2 ^ 31"
  shows "\<exists>b'. append_mem mem b = Inr b' \<and> buf_ok b' \<and> unread b' = unread b @ mem \<and>
    length (data b) \<le> length (data b') \<and> rindex b' = rindex b \<and>
    windex b' = windex b + length mem \<and>
    extra_data b' = extra_data b \<and> extra_index b' = extra_index b \<and>
    length (data b') = (if writeable b < length mem then 2 * length (data b) else length (data b))"
proof -
  have wr: "to_int32 (int (writeable b)) = int (writeable b)"
    using ok small by (intro to_int32_small) (auto simp: writeable_ok buf_ok_def)
  have ml: "length mem < 2 ^ 31" using len small by simp
  show ?thesis
  proof (cases "writeable b < length mem")
    case True
    have "2 * length (data b) \<le> max_object" using small by simp
    from resize_double_ok [OF ok this] obtain c where c: "resize_double b = Inr c" "buf_ok c"
      "unread c = unread b" "rindex c = rindex b" "windex c = windex b"
      "length (data c) = 2 * length (data b)" "extra_data c = extra_data b" "extra_index c = extra_index b"
      by blast
    have "windex c + length mem \<le> length (data c)"
      using c(5,6) ok len by (simp add: buf_ok_def)
    with append_mem_into [OF ml _ c(2), of b] c wr True show ?thesis by auto
  next
    case False
    then have "windex b + length mem \<le> length (data b)"
      using ok by (auto simp: writeable_ok buf_ok_def)
    with append_mem_into [OF ml _ ok, of b] wr False show ?thesis by auto
  qed
qed

lemma append_mem_small_int:
  assumes "buf_ok b" and "length (data b) < 2 ^ 31" and "length mem < 2 ^ 31"
  shows "to_int32 (int (writeable b)) = int (writeable b)"
    and "to_int32 (int (length mem)) = int (length mem)"
  using assms by (auto intro!: to_int32_small simp: writeable_ok buf_ok_def)

text \<open>The one doubling is not always enough: the copy then runs past the vector.\<close>

text \<open>C37. An append larger than twice the vector writes past its end: the vector is doubled
  only once.\<close>

lemma append_mem_overflow:
  assumes ok: "buf_ok b" and small: "2 * length (data b) < 2 ^ 31" "length mem < 2 ^ 31"
    and big: "2 * length (data b) < windex b + length mem"
  shows "append_mem mem b = Inl OutOfBounds"
proof -
  have cap: "length (data b) < 2 ^ 31" "2 * length (data b) \<le> max_object" using small by simp_all
  note ints = append_mem_small_int [OF ok cap(1) small(2)]
  have less: "writeable b < length mem" using ok big by (auto simp: writeable_ok buf_ok_def)
  have "to_size (int (length mem)) = length mem" using small by (intro to_size_int) auto
  then show ?thesis
    using ok cap less big
    by (simp add: append_mem_def Let_def ints resize_double_def in_bounds_def)
qed

lemma append_all_ok:
  assumes "buf_ok b" and "\<forall>m \<in> set ms. length m \<le> length (data b)"
    and "length (data b) \<le> N" and "2 * (windex b + length (concat ms)) \<le> N" and "2 * N < 2 ^ 31"
  shows "\<exists>b'. append_all ms b = Inr b' \<and> buf_ok b' \<and> unread b' = unread b @ concat ms \<and>
    rindex b' = rindex b \<and> extra_data b' = extra_data b \<and> extra_index b' = extra_index b"
  using assms
proof (induction ms arbitrary: b)
  case (Cons m ms)
  from Cons.prems have "length m \<le> length (data b)" "2 * length (data b) < 2 ^ 31" by auto
  from append_mem_ok [OF Cons.prems(1) this] obtain c where c: "append_mem m b = Inr c" "buf_ok c"
    "unread c = unread b @ m" "length (data b) \<le> length (data c)" "rindex c = rindex b"
    "windex c = windex b + length m" "extra_data c = extra_data b" "extra_index c = extra_index b"
    "length (data c) = (if writeable b < length m then 2 * length (data b) else length (data b))"
    by blast
  have "length (data c) \<le> N"
    using c(9) Cons.prems(1,3,4) by (auto simp: writeable_ok buf_ok_def split: if_splits)
  moreover have "\<forall>m \<in> set ms. length m \<le> length (data c)"
    using Cons.prems(2) c(4) by fastforce
  ultimately show ?case
    using Cons.IH [OF c(2)] Cons.prems(4,5) c by (simp add: algebra_simps)
qed simp

text \<open>The vector never grows past twice what is in it.\<close>

lemma append_mem_bound:
  assumes r: "append_mem m b = Inr c" and ok: "buf_ok b" and small: "length (data b) < 2 ^ 31" "length m < 2 ^ 31"
  shows "buf_ok c \<and> windex c = windex b + length m \<and> length (data b) \<le> length (data c) \<and>
    length (data c) \<le> max (length (data b)) (2 * (windex b + length m)) \<and>
    extra_index c = extra_index b \<and> extra_data c = extra_data b"
proof -
  note ints = append_mem_small_int [OF ok small]
  have sz: "to_size (int (length m)) = length m" using small(2) by (simp add: to_size_def)
  define g where "g = (if int (writeable b) < int (length m) then resize_double b else Inr b)"
  from r ints obtain d where d: "g = Inr d" "in_bounds d (windex d) (length m)"
    "c = d\<lparr>data := take (windex d) (data d) @ take (length m) m @ drop (windex d + length m) (data d),
      windex := sz_add (windex d) (length m)\<rparr>"
    by (auto simp: append_mem_def g_def and_then_Inr_iff Let_def sz split: if_splits)
  have d': "buf_ok d" "windex d = windex b" "length (data b) \<le> length (data d)"
    "length (data d) \<le> max (length (data b)) (2 * (windex b + length m))"
    "extra_index d = extra_index b" "extra_data d = extra_data b"
    using d(1) ok by (auto simp: g_def resize_double_def buf_ok_def writeable_ok split: if_splits)
  have "windex d + length m \<le> length (data d)" using d(2) by (simp add: in_bounds_def)
  from store_ok [OF d'(1) this] d(3) d' show ?thesis by simp
qed

lemma append_all_bound:
  assumes "append_all ms b = Inr c" and "buf_ok b" and "length (data b) \<le> N" "N < 2 ^ 31"
    and "2 * (windex b + length (concat ms)) \<le> N"
  shows "buf_ok c \<and> length (data b) \<le> length (data c) \<and> length (data c) \<le> N \<and>
    extra_index c = extra_index b \<and> extra_data c = extra_data b"
  using assms
proof (induction ms arbitrary: b)
  case (Cons m ms)
  then obtain d where d: "append_mem m b = Inr d" "append_all ms d = Inr c" by (auto simp: and_then_Inr_iff)
  have "length m < 2 ^ 31" "length (data b) < 2 ^ 31" using Cons.prems(3-5) by simp_all
  note m = append_mem_bound [OF d(1) Cons.prems(2) this(2,1)]
  have "length (data d) \<le> N" "2 * (windex d + length (concat ms)) \<le> N"
    using m Cons.prems(3,5) by (auto simp: algebra_simps)
  with Cons.IH [OF d(2)] m Cons.prems(4) show ?case by auto
qed simp

section \<open>The contract of the protocol parsers\<close>

text \<open>
  What a parser may rely on: the buffer is a queue of unread bytes, \<open>peek\<close> reads a
  big-endian number at its front and \<open>skip\<close> drops bytes from its front.
\<close>

locale byte_queue =
  fixes ok :: "'b \<Rightarrow> bool"
    and content :: "'b \<Rightarrow> byte list"
    and avail :: "'b \<Rightarrow> nat"
    and peek_u :: "'b \<Rightarrow> nat result"
    and peek_i :: "'b \<Rightarrow> int result"
    and skip :: "nat \<Rightarrow> 'b \<Rightarrow> 'b"
  assumes avail: "ok b \<Longrightarrow> avail b = length (content b)"
    and peek_u: "ok b \<Longrightarrow> 4 \<le> length (content b) \<Longrightarrow>
      peek_u b = Inr (unat (be_word (take 4 (content b))))"
    and peek_i: "ok b \<Longrightarrow> 4 \<le> length (content b) \<Longrightarrow>
      peek_i b = Inr (sint (be_word (take 4 (content b))))"
    and skip_ok: "ok b \<Longrightarrow> n \<le> length (content b) \<Longrightarrow> ok (skip n b)"
    and skip: "ok b \<Longrightarrow> n \<le> length (content b) \<Longrightarrow> content (skip n b) = drop n (content b)"
begin

text \<open>A 32-bit field at the front is read as it was written, and skipped as a whole.\<close>

lemma u32_field:
  assumes "ok b" and "content b = be_bytes w @ rest"
  shows "peek_u b = Inr (unat w)" and "ok (skip 4 b)" and "content (skip 4 b) = rest"
    and "avail b = 4 + length rest"
  using assms by (simp_all add: peek_u skip skip_ok avail)

lemma i32_field:
  assumes "ok b" and "content b = be_bytes w @ rest"
  shows "peek_i b = Inr (sint w)"
  using assms by (simp add: peek_i)

lemma blob_field:
  assumes "ok b" and "content b = bs @ rest" and "n = length bs"
  shows "ok (skip n b)" and "content (skip n b) = rest"
  using assms by (simp_all add: skip skip_ok)

end

interpretation bufq: byte_queue buf_ok unread readable peek_uint32 peek_int32 retrieve
  by unfold_locales
     (simp_all add: readable_unread retrieve_ok peek_uint32_def peek_int32_def mem_unread)

section \<open>Sockets\<close>

lemma read_fd_ok:
  assumes ok: "buf_ok b" and cap: "0 < length (data b)" "2 * length (data b) \<le> max_object"
  shows "\<exists>n b'. read_fd (Pending bs) b = Inr (int n, b') \<and> buf_ok b' \<and>
    unread b' = unread b @ take n bs \<and> n \<le> length bs \<and> (n = 0 \<longleftrightarrow> bs = []) \<and>
    rindex b' = rindex b \<and> length (data b) \<le> length (data b')"
proof -
  have "\<exists>c. (if writeable b = 0 then resize_double b else Inr b) = Inr c \<and> buf_ok c \<and>
    unread c = unread b \<and> rindex c = rindex b \<and> 0 < writeable c \<and> length (data b) \<le> length (data c)"
  proof (cases "writeable b = 0")
    case True
    from resize_double_ok [OF ok cap(2)] obtain c where c: "resize_double b = Inr c" "buf_ok c"
      "unread c = unread b" "rindex c = rindex b" "windex c = windex b"
      "length (data c) = 2 * length (data b)" by blast
    moreover have "windex b < 2 * length (data b)"
      using ok cap(1) by (auto simp: buf_ok_def intro: le_less_trans)
    then have "0 < writeable c" using c(2,5,6) by (simp add: writeable_ok)
    ultimately show ?thesis using True by auto
  qed (use ok in auto)
  then obtain c where c: "(if writeable b = 0 then resize_double b else Inr b) = Inr c" "buf_ok c"
    "unread c = unread b" "rindex c = rindex b" "0 < writeable c" "length (data b) \<le> length (data c)"
    by blast
  define n where "n = min (writeable c) (length bs)"
  then have n: "length (take n bs) = n" "n = 0 \<longleftrightarrow> bs = []" "n \<le> length bs"
    using c(5) by (auto simp: min_def)
  have fits: "windex c + n \<le> length (data c)"
    using c(2) by (auto simp: writeable_ok buf_ok_def n_def)
  define d where "d = c\<lparr>data := take (windex c) (data c) @ take n bs @ drop (windex c + n) (data c),
    windex := sz_add (windex c) n\<rparr>"
  have "read_fd (Pending bs) b = Inr (int n, d)"
    using c(1,2) fits by (simp add: read_fd_def Let_def in_bounds_def buf_ok_def d_def flip: n_def)
  moreover have "buf_ok d" "unread d = unread c @ take n bs" "length (data d) = length (data c)"
    "rindex d = rindex c"
    using store_ok [OF c(2), of "take n bs", unfolded n(1), OF fits] by (simp_all add: d_def)
  ultimately show ?thesis using c(3,4,6) n by auto
qed

lemma read_fd_fits:
  assumes ok: "buf_ok b" and bs: "bs \<noteq> []" "length bs \<le> writeable b"
  shows "\<exists>b'. read_fd (Pending bs) b = Inr (int (length bs), b') \<and> buf_ok b' \<and> unread b' = unread b @ bs \<and>
    length (data b') = length (data b)"
proof -
  have w: "windex b + length bs \<le> length (data b)" "writeable b \<noteq> 0"
    using bs ok by (auto simp: writeable_ok buf_ok_def)
  have "in_bounds b (windex b) (length bs)" using w ok by (simp add: in_bounds_def buf_ok_def)
  then show ?thesis
    using store_ok [OF ok w(1)] w(2) bs(2) by (simp add: read_fd_def Let_def min_absorb2)
qed

lemma write_extra_ok:
  assumes ok: "buf_ok b"
  shows "\<exists>m b' out'. write_extra (Room j) (t, b, out) = Inr (t + int m, b', out @ out') \<and> buf_ok b' \<and>
    out' @ extra_left b' = extra_left b \<and> unread b' = unread b \<and> m = length out' \<and>
    length (extra_left b') = length (extra_left b) - j"
proof -
  define m where "m = min j (extraable b)"
  define d where "d = b\<lparr>extra_index := sz_add (extra_index b) m\<rparr>"
  have ex: "extraable b = length (extra_data b) - extra_index b" "m \<le> extraable b"
    using ok by (auto simp: extraable_left extra_left_def m_def)
  then have "sz_add (extra_index b) m = extra_index b + m"
    using ok by (intro sz_add_small) (auto simp: buf_ok_def)
  with ok ex have d: "buf_ok d" "unread d = unread b" "extra_left b = take m (extra_left b) @ extra_left d"
    "length (take m (extra_left b)) = m"
    by (auto simp: d_def buf_ok_def unread_def extra_left_def add.commute
        simp flip: drop_drop)
  have "m = min j (length (extra_left b))" using ok by (simp add: m_def extraable_left)
  moreover have "length (extra_left b) = m + length (extra_left d)"
    using d(4) by (subst d(3)) (simp only: length_append)
  ultimately have m: "length (extra_left d) = length (extra_left b) - j" by simp
  have "write_extra (Room j) (t, b, out) = Inr (t + int m, d, out @ take m (extra_left b))"
  proof (cases "extraable b = 0")
    case True
    then have "sz_add (extra_index b) 0 = extra_index b" using ok by (auto simp: buf_ok_def)
    with True show ?thesis by (simp add: write_extra_def m_def d_def)
  next
    case False
    with ex ok have "extra_index b + m \<le> length (extra_data b)" by (auto simp: buf_ok_def)
    with False show ?thesis
      by (simp add: write_extra_def Let_def extra_left_def d_def flip: m_def)
  qed
  then show ?thesis using d m by (metis (no_types))
qed

text \<open>
  When the first write is complete the stream stays in order: what was sent followed by
  what is left is what was there.
\<close>

lemma write_fd_ok:
  assumes ok: "buf_ok b" and all: "readable b \<le> k"
  shows "\<exists>n b' out. write_fd (Room k) (Room j) b = Inr (int n, b', out) \<and> buf_ok b' \<and>
    out @ extra_left b' = unread b @ extra_left b \<and> unread b' = [] \<and> n = length out \<and>
    length (extra_left b') = length (extra_left b) - j"
proof -
  define c where "c = retrieve (readable b) b"
  have r: "readable b = length (unread b)" using ok by (rule readable_unread)
  then have c: "buf_ok c" "unread c = []" "extra_left c = extra_left b"
    using retrieve_ok [OF ok, of "readable b"] by (simp_all add: c_def extra_left_def)
  have "c = b" if "readable b = 0" using that ok by (simp add: c_def retrieve_def buf_ok_def)
  then have "write_fd (Room k) (Room j) b = write_extra (Room j) (int (readable b), c, unread b)"
    using all r mem_unread(1) [OF ok, of "readable b"]
    by (auto simp: write_fd_def Let_def c_def retrieve_def min_absorb2)
  with write_extra_ok [OF c(1), of j "int (readable b)" "unread b"] c r show ?thesis
    by (elim exE conjE) (rule exI, rule exI, rule exI, auto)
qed

text \<open>
  When the first write is not complete the second is made all the same: the kernel gets the
  start of the extra data behind the start of the buffer's own bytes, whose rest is left.
\<close>

text \<open>When the socket takes only part of the buffer, write_fd goes on with the extra
  data, out of order.\<close>

lemma write_fd_partial:
  assumes ok: "buf_ok b" and part: "0 < k" "k < readable b"
  shows "\<exists>b'. write_fd (Room k) (Room j) b =
      Inr (int (k + min j (length (extra_left b))), b', take k (unread b) @ take j (extra_left b)) \<and>
    buf_ok b' \<and> unread b' = drop k (unread b) \<and> extra_left b' = drop j (extra_left b)"
proof -
  have k: "k \<le> length (unread b)" using ok part by (simp add: readable_unread del: length_unread)
  let ?c = "retrieve k b"
  note c = retrieve_ok [OF ok k]
  have xl: "extra_left ?c = extra_left b" by (simp add: extra_left_def)
  define m where "m = min j (extraable ?c)"
  have ex: "extraable ?c = length (extra_left b)" using c(1) xl by (simp add: extraable_left)
  have e: "extra_index ?c + m \<le> length (extra_data ?c)" "extra_index ?c + m < 2 ^ 64"
    using c(1) ex by (auto simp: m_def buf_ok_def extra_left_def)
  let ?d = "?c\<lparr>extra_index := extra_index ?c + m\<rparr>"
  have d: "buf_ok ?d" "unread ?d = drop k (unread b)" "extra_left ?d = drop m (extra_left b)"
    using c e xl by (auto simp: buf_ok_def unread_def extra_left_def add.commute simp flip: drop_drop)
  have m: "m = min j (length (extra_left b))" by (simp add: m_def ex)
  have w: "write_extra (Room j) (int k, ?c, take k (unread b)) =
      Inr (int k + int m, ?d, take k (unread b) @ take m (extra_left b))"
  proof (cases "extraable ?c = 0")
    case True
    then have "m = 0" "extra_left b = []" using ex by (simp_all add: m_def)
    with True show ?thesis by (simp add: write_extra_def)
  next
    case False
    with e show ?thesis
      by (simp add: write_extra_def Let_def sz_add_small extra_left_def flip: m_def)
  qed
  have "min k (readable b) = k" using part by simp
  then have "write_fd (Room k) (Room j) b = write_extra (Room j) (int k, ?c, take k (unread b))"
    using part mem_unread(1) [OF ok k] by (simp add: write_fd_def Let_def retrieve_def)
  moreover have "take m (extra_left b) = take j (extra_left b)" "drop m (extra_left b) = drop j (extra_left b)"
    using m by (auto simp: min_def)
  ultimately show ?thesis using w d m by (intro exI [of _ ?d]) simp
qed

lemma clear_ok: "buf_ok b \<Longrightarrow> buf_ok (clear b) \<and> unread (clear b) = []"
  by (simp add: buf_ok_def clear_def unread_def)

lemma buf_ok_append_extra:
  "buf_ok b \<Longrightarrow> extra_index b \<le> length x \<Longrightarrow> length x \<le> max_object \<Longrightarrow> buf_ok (append_extra x b)"
  by (simp add: buf_ok_def append_extra_def)

lemma append_extra_frame [simp]:
  "unread (append_extra x b) = unread b" "extra_data (append_extra x b) = x"
  "rindex (append_extra x b) = rindex b" "extra_index (append_extra x b) = extra_index b"
  by (simp_all add: append_extra_def unread_def)

text \<open>Packing a message: a sequence of appends, then the payload as extra data.\<close>

lemma pack_chunks_ok:
  assumes "buf_ok b" and "extra_index b = 0" and "length pl \<le> max_object"
    and "\<forall>m \<in> set ms. length m \<le> length (data b)"
    and "2 * length (data b) < 2 ^ 31" and "4 * (windex b + length (concat ms)) < 2 ^ 31"
  shows "\<exists>b'. and_then (append_all ms b) (\<lambda>b. Inr (True, append_extra pl b)) = Inr (True, b') \<and>
    buf_ok b' \<and> unread b' = unread b @ concat ms \<and> extra_left b' = pl"
proof -
  let ?N = "max (length (data b)) (2 * (windex b + length (concat ms)))"
  have "2 * ?N < 2 ^ 31" using assms(5,6) by (simp add: max_def)
  from append_all_ok [OF assms(1,4) _ _ this] obtain c where
    "append_all ms b = Inr c" "buf_ok c" "unread c = unread b @ concat ms" "extra_index c = extra_index b"
    by auto
  with assms(2,3) show ?thesis by (simp add: extra_left_def buf_ok_append_extra)
qed

text \<open>A view taken at the front of the unread bytes reads them.\<close>

lemma view_front:
  assumes "buf_ok b" and "n \<le> length (unread b)"
  shows "view_str b (view_at (rindex b) n) = Inr (take n (unread b))"
proof -
  have "rindex b + n < 2 ^ 64" "n \<le> max_object" using assms by (auto simp: buf_ok_def)
  then have "view_size (view_at (rindex b) n) = n"
    by (simp add: view_size_def view_at_def sz_add_small sz_sub_small)
  then show ?thesis
    using assms mem_unread(1) [OF assms(1), of n] \<open>n \<le> max_object\<close>
    by (simp add: view_str_def) (simp add: view_at_def)
qed

text \<open>A view is the same after the read index has moved.\<close>

lemma view_str_retrieve [simp]: "view_str (retrieve n b) v = view_str b v"
  by (simp add: view_str_def mem_read_def in_bounds_def)

end
