(* ===== verification/Event_Loops.thy ===== *)
theory Event_Loops
  imports Timers Buffers
begin

text \<open>
  \<^verbatim>\<open>net/channel.h\<close>, \<^verbatim>\<open>net/eventloop.h\<close>, \<^verbatim>\<open>net/eventloop.cpp\<close>: channels and their registration
  with \<^verbatim>\<open>epoll\<close>, the \<^verbatim>\<open>eventfd\<close> that wakes a loop, and \<^verbatim>\<open>EventLoop\<close> with its queues of
  functions and timers. The callbacks are a type parameter.
\<close>

unbundle bit_operations_syntax

section \<open>Channels\<close>

abbreviation EPOLLIN :: "32 word" where "EPOLLIN \<equiv> 1"
abbreviation EPOLLOUT :: "32 word" where "EPOLLOUT \<equiv> 4"

text \<open>\<^verbatim>\<open>_el\<close> is the number of the loop, \<open>None\<close> when it is null.\<close>

record channel =
  fd :: int
  event :: "32 word"
  sevent :: "32 word"
  el :: "nat option"

definition new_channel :: "int \<Rightarrow> nat option \<Rightarrow> channel" where
  "new_channel f e = \<lparr>fd = f, event = 0, sevent = 0, el = e\<rparr>"

text \<open>The pointer stored with a registration: the two channels a loop and a server own, and
  connections by their address.\<close>

datatype chan_ptr = WakeUperPtr | AcceptorPtr | ConnPtr nat

section \<open>The kernel's interest list\<close>

text \<open>
  \<^verbatim>\<open>epoll_ctl(2)\<close>: a map from descriptors to the events asked for and the user's pointer.
  Adding a descriptor that is there and changing or deleting one that is not are errors
  (\<open>None\<close>). Closing a descriptor removes it.
\<close>

type_synonym interest = "int \<rightharpoonup> (32 word \<times> chan_ptr)"

datatype epoll_op = EPOLL_CTL_ADD | EPOLL_CTL_MOD | EPOLL_CTL_DEL

fun epoll_ctl :: "epoll_op \<Rightarrow> int \<Rightarrow> 32 word \<Rightarrow> chan_ptr \<Rightarrow> interest \<Rightarrow> interest option" where
  "epoll_ctl EPOLL_CTL_ADD f ev p k = (if k f = None then Some (k(f \<mapsto> (ev, p))) else None)"
| "epoll_ctl EPOLL_CTL_MOD f ev p k = (if k f = None then None else Some (k(f \<mapsto> (ev, p))))"
| "epoll_ctl EPOLL_CTL_DEL f ev p k = (if k f = None then None else Some (k(f := None)))"

text \<open>\<^verbatim>\<open>_epoll_ctl\<close>: an error is fatal, success is remembered in \<^verbatim>\<open>_sevent\<close>.\<close>

definition do_epoll_ctl ::
  "epoll_op \<Rightarrow> chan_ptr \<Rightarrow> 'c channel_scheme \<Rightarrow> interest \<Rightarrow> ('c channel_scheme \<times> interest) result"
where
  "do_epoll_ctl op p c k =
     (case epoll_ctl op (fd c) (event c) p k of
        None \<Rightarrow> Inl Aborted
      | Some k' \<Rightarrow> Inr (c\<lparr>sevent := event c\<rparr>, k'))"

definition update_channel ::
  "chan_ptr \<Rightarrow> 'c channel_scheme \<Rightarrow> interest \<Rightarrow> ('c channel_scheme \<times> interest) result"
where
  "update_channel p c k =
     (if sevent c \<noteq> event c then
        if sevent c = 0 then
          if event c \<noteq> 0 then do_epoll_ctl EPOLL_CTL_ADD p c k else Inr (c, k)
        else if event c = 0 then do_epoll_ctl EPOLL_CTL_DEL p c k
        else do_epoll_ctl EPOLL_CTL_MOD p c k
      else Inr (c, k))"

text \<open>What \<^verbatim>\<open>_sevent\<close> stands for: the registration the kernel holds.\<close>

definition registration :: "chan_ptr \<Rightarrow> 32 word \<Rightarrow> (32 word \<times> chan_ptr) option" where
  "registration p ev = (if ev = 0 then None else Some (ev, p))"

definition registered :: "chan_ptr \<Rightarrow> 'c channel_scheme \<Rightarrow> interest \<Rightarrow> bool" where
  "registered p c k \<longleftrightarrow> k (fd c) = registration p (sevent c)"

lemma update_channel_ok:
  assumes "registered p c k"
  shows "update_channel p c k = Inr (c\<lparr>sevent := event c\<rparr>, k(fd c := registration p (event c)))"
proof (cases "sevent c = event c")
  case True
  then have "c\<lparr>sevent := event c\<rparr> = c" by (simp flip: True)
  with True assms show ?thesis
    by (auto simp: update_channel_def registered_def fun_upd_idem)
next
  case False
  with assms show ?thesis
    by (auto simp: update_channel_def do_epoll_ctl_def registered_def registration_def)
qed

lemma registered_update [simp]:
  "registered p (c\<lparr>sevent := event c\<rparr>) (k(fd c := registration p (event c)))"
  by (simp add: registered_def)

lemma registered_other:
  "fd c \<noteq> f \<Longrightarrow> registered p c (k(f := x)) \<longleftrightarrow> registered p c k"
  by (simp add: registered_def)

text \<open>A channel whose record of the registration is wrong makes the loop abort.\<close>

lemma update_channel_stale:
  assumes "sevent c \<noteq> 0" and "event c \<noteq> sevent c" and "k (fd c) = None"
  shows "update_channel p c k = Inl Aborted"
  using assms by (auto simp: update_channel_def do_epoll_ctl_def)

section \<open>EventLoop\<close>

text \<open>
  \<open>wake_count\<close> is the counter of the \<^verbatim>\<open>eventfd\<close>. \<^verbatim>\<open>_channels\<close> maps the addresses of
  connections to the time they were made.
\<close>

record 'f event_loop =
  is_stop :: bool
  wake_count :: nat
  funcs :: "'f list"
  timers :: "'f timer_manager"
  channels :: "nat \<rightharpoonup> timestamp"
  interests :: interest

definition DefaultEpollTimeout :: int where
  "DefaultEpollTimeout = 256"

text \<open>\<^verbatim>\<open>WakeUper::wakeup\<close> writes 1: the counter grows, or the write would block at the top of its
  range and the error is ignored. \<^verbatim>\<open>WakeUper::handle_events\<close> reads, which sets it to zero.\<close>

definition wakeup :: "'f event_loop \<Rightarrow> 'f event_loop" where
  "wakeup l = l\<lparr>wake_count := (if wake_count l < 2 ^ 64 - 2 then wake_count l + 1 else wake_count l)\<rparr>"

definition wakeuper_handle_events :: "32 word \<Rightarrow> 'f event_loop \<Rightarrow> 'f event_loop" where
  "wakeuper_handle_events events l =
     (if events AND EPOLLIN \<noteq> 0 then l\<lparr>wake_count := 0\<rparr> else l)"

text \<open>The constructor of loop number \<open>me\<close>, with the descriptor of its \<^verbatim>\<open>eventfd\<close>.\<close>

definition new_event_loop :: "nat \<Rightarrow> int \<Rightarrow> 'f event_loop result" where
  "new_event_loop me wfd =
     and_then (update_channel WakeUperPtr ((new_channel wfd (Some me))\<lparr>event := EPOLLIN\<rparr>) Map.empty)
       (\<lambda>(_, k). Inr \<lparr>is_stop = False, wake_count = 0, funcs = [], timers = new_timer_manager,
          channels = Map.empty, interests = k\<rparr>)"

definition stop :: "'f event_loop \<Rightarrow> 'f event_loop" where
  "stop l = wakeup (l\<lparr>is_stop := True\<rparr>)"

definition push_func :: "'f \<Rightarrow> 'f event_loop \<Rightarrow> 'f event_loop" where
  "push_func f l = l\<lparr>funcs := funcs l @ [f]\<rparr>"

definition add_func :: "'f \<Rightarrow> 'f event_loop \<Rightarrow> 'f event_loop" where
  "add_func f l = wakeup (push_func f l)"

definition run_after :: "timestamp \<Rightarrow> int \<Rightarrow> 'f \<Rightarrow> 'f event_loop \<Rightarrow> 'f event_loop" where
  "run_after now after_time_ms f l =
     wakeup (l\<lparr>timers := add_timer (after_now_ms now after_time_ms) f (timers l)\<rparr>)"

definition add_channel :: "nat \<Rightarrow> timestamp \<Rightarrow> 'f event_loop \<Rightarrow> 'f event_loop" where
  "add_channel p t l = l\<lparr>channels := (channels l)(p \<mapsto> t)\<rparr>"

definition remove_channel :: "nat \<Rightarrow> timestamp \<Rightarrow> 'f event_loop \<Rightarrow> 'f event_loop" where
  "remove_channel p t l =
     (case channels l p of
        None \<Rightarrow> l
      | Some t' \<Rightarrow> if ts_eq t' t then l\<lparr>channels := (channels l)(p := None)\<rparr> else l)"

definition has_channel :: "nat \<Rightarrow> timestamp \<Rightarrow> 'f event_loop \<Rightarrow> bool" where
  "has_channel p t l = (case channels l p of None \<Rightarrow> False | Some t' \<Rightarrow> ts_eq t' t)"

text \<open>The time limit of \<^verbatim>\<open>epoll_wait\<close>.\<close>

definition poll_timeout :: "timestamp \<Rightarrow> 'f event_loop \<Rightarrow> int result" where
  "poll_timeout now l =
     and_then
       (if \<not> tm_empty (timers l) then
          and_then (get_latest_timer (timers l)) (\<lambda>latest. Inr (ts_diff latest now))
        else Inr DefaultEpollTimeout)
       (\<lambda>timeout_ms. Inr (if timeout_ms < 0 then 0 else timeout_ms))"

definition swap_funcs :: "'f event_loop \<Rightarrow> 'f list \<times> 'f event_loop" where
  "swap_funcs l = (funcs l, l\<lparr>funcs := []\<rparr>)"

definition due_timers :: "timestamp \<Rightarrow> 'f event_loop \<Rightarrow> ('f list \<times> 'f event_loop) result" where
  "due_timers now l =
     and_then (take_due now (timers l) []) (\<lambda>(exe, m). Inr (map snd exe, l\<lparr>timers := m\<rparr>))"

section \<open>The loop\<close>

text \<open>
  The body of \<^verbatim>\<open>EventLoop::loop\<close> over a world \<open>'w\<close> the callbacks act on: \<open>get\<close> and \<open>put\<close> are the
  loop in it, \<open>handle\<close> the virtual \<^verbatim>\<open>handle_events\<close> of the channel of an event, \<open>exec\<close> the call
  of a function object. The answer of \<^verbatim>\<open>epoll_wait\<close> and the clock are inputs.
\<close>

datatype 'e poll_answer = Ready "'e list" | PollErr errno

fun run_all :: "('x \<Rightarrow> 'w \<Rightarrow> 'w result) \<Rightarrow> 'x list \<Rightarrow> 'w \<Rightarrow> 'w result" where
  "run_all step [] w = Inr w"
| "run_all step (x # xs) w = and_then (step x w) (run_all step xs)"

definition loop_body ::
  "('w \<Rightarrow> 'f event_loop) \<Rightarrow> ('f event_loop \<Rightarrow> 'w \<Rightarrow> 'w) \<Rightarrow> ('e \<Rightarrow> 'w \<Rightarrow> 'w result) \<Rightarrow>
   ('f \<Rightarrow> 'w \<Rightarrow> 'w result) \<Rightarrow> 'e poll_answer \<Rightarrow> timestamp \<Rightarrow> 'w \<Rightarrow> 'w result"
where
  "loop_body get put handle exec answer now w =
     (case answer of
        PollErr e \<Rightarrow> if transient e then Inr w else Inl Aborted
      | Ready events \<Rightarrow>
          and_then (run_all handle events w) (\<lambda>w1.
          let (fs, l1) = swap_funcs (get w1) in
          and_then (run_all exec fs (put l1 w1)) (\<lambda>w2.
          and_then (due_timers now (get w2)) (\<lambda>(ts, l2).
            run_all exec ts (put l2 w2)))))"

text \<open>\<^verbatim>\<open>while (!_is_stop.load())\<close>, over as many rounds as there are inputs.\<close>

fun loop ::
  "('w \<Rightarrow> 'f event_loop) \<Rightarrow> ('e poll_answer \<Rightarrow> timestamp \<Rightarrow> 'w \<Rightarrow> 'w result) \<Rightarrow>
   ('e poll_answer \<times> timestamp) list \<Rightarrow> 'w \<Rightarrow> 'w result"
where
  "loop get body [] w = Inr w"
| "loop get body ((a, now) # rest) w =
     (if is_stop (get w) then Inr w else and_then (body a now w) (loop get body rest))"

lemma run_all_inv:
  assumes "\<And>x w. x \<in> set xs \<Longrightarrow> I w \<Longrightarrow> \<exists>w'. step x w = Inr w' \<and> I w'" and "I w"
  shows "\<exists>w'. run_all step xs w = Inr w' \<and> I w'"
  using assms
proof (induction xs arbitrary: w)
  case (Cons x xs)
  from Cons.prems(1) [OF _ Cons.prems(2)] obtain w1 where "step x w = Inr w1" "I w1" by auto
  moreover from Cons.IH [OF Cons.prems(1) \<open>I w1\<close>] obtain w2 where "run_all step xs w1 = Inr w2" "I w2"
    by auto
  ultimately show ?case by simp
qed simp

lemma run_all_append:
  "run_all step (xs @ ys) w = and_then (run_all step xs w) (run_all step ys)"
  by (induction xs arbitrary: w) (simp_all add: and_then_assoc cong: and_then_cong)

lemma loop_stopped: "is_stop (get w) \<Longrightarrow> loop get body inputs w = Inr w"
  by (cases inputs) auto

lemma loop_inv:
  assumes "\<And>a now w. (a, now) \<in> set inputs \<Longrightarrow> I w \<Longrightarrow> \<exists>w'. body a now w = Inr w' \<and> I w'" and "I w"
  shows "\<exists>w'. loop get body inputs w = Inr w' \<and> I w'"
  using assms
proof (induction inputs arbitrary: w)
  case (Cons x inputs)
  obtain a now where x: "x = (a, now)" by (cases x)
  from Cons.prems(1) [OF _ Cons.prems(2), of a now] x obtain w1 where "body a now w = Inr w1" "I w1"
    by auto
  moreover from Cons.IH [OF Cons.prems(1) \<open>I w1\<close>] obtain w2 where
    "loop get body inputs w1 = Inr w2" "I w2" by auto
  ultimately show ?case using x Cons.prems(2) by auto
qed simp

section \<open>Properties of the loop's operations\<close>

lemma wakeup_frame [simp]:
  "funcs (wakeup l) = funcs l" "timers (wakeup l) = timers l" "channels (wakeup l) = channels l"
  "interests (wakeup l) = interests l" "is_stop (wakeup l) = is_stop l"
  by (simp_all add: wakeup_def)

lemma wakeup_wakes: "0 < wake_count (wakeup l)"
  by (simp add: wakeup_def)

lemma el_frames [simp]:
  "funcs (add_func f l) = funcs l @ [f]" "timers (add_func f l) = timers l"
  "channels (add_func f l) = channels l" "interests (add_func f l) = interests l"
  "funcs (run_after now ms f l) = funcs l" "channels (run_after now ms f l) = channels l"
  "interests (run_after now ms f l) = interests l"
  "timers (run_after now ms f l) = add_timer (after_now_ms now ms) f (timers l)"
  "funcs (add_channel p t l) = funcs l" "timers (add_channel p t l) = timers l"
  "interests (add_channel p t l) = interests l" "channels (add_channel p t l) = (channels l)(p \<mapsto> t)"
  "funcs (remove_channel p t l) = funcs l" "timers (remove_channel p t l) = timers l"
  "interests (remove_channel p t l) = interests l"
  by (simp_all add: add_func_def push_func_def run_after_def add_channel_def remove_channel_def split: option.splits)

lemma has_channel_iff [simp]: "has_channel p t l \<longleftrightarrow> channels l p = Some t"
  by (auto simp: has_channel_def split: option.splits)

lemma channels_remove:
  "channels (remove_channel p t l) = (if channels l p = Some t then (channels l)(p := None) else channels l)"
  by (auto simp: remove_channel_def split: option.splits)

lemma new_event_loop_ok:
  "new_event_loop me wfd = Inr \<lparr>is_stop = False, wake_count = 0, funcs = [], timers = new_timer_manager,
     channels = Map.empty, interests = [wfd \<mapsto> (EPOLLIN, WakeUperPtr)]\<rparr>"
proof -
  have "registered WakeUperPtr ((new_channel wfd (Some me))\<lparr>event := EPOLLIN\<rparr>) Map.empty"
    by (simp add: registered_def registration_def new_channel_def)
  then show ?thesis
    by (simp add: new_event_loop_def update_channel_ok) (simp add: new_channel_def registration_def)
qed

text \<open>The wait ends when the earliest timer is due, and is never negative.\<close>

lemma poll_timeout_no_timers: "timers l = new_timer_manager \<Longrightarrow> poll_timeout now l = Inr 256"
  by (simp add: poll_timeout_def tm_empty_def new_timer_manager_def DefaultEpollTimeout_def)

text \<open>The time epoll_wait may block is the distance to the earliest timer, never
  negative.\<close>

lemma poll_timeout_earliest:
  assumes "timers_of (timers l) \<noteq> {#}"
    and near: "\<forall>u \<in># timers_of (timers l). \<bar>total_ms (fst u) - total_ms now\<bar> < 2 ^ 31"
  shows "\<exists>t \<in># timers_of (timers l). (\<forall>u \<in># timers_of (timers l). fst t \<le> fst u) \<and>
    poll_timeout now l = Inr (max 0 (total_ms (fst t) - total_ms now))"
proof -
  from tmq.top [OF assms(1)] obtain t where t: "tm_top (timers l) = Inr t"
    "t \<in># timers_of (timers l)" "\<forall>u \<in># timers_of (timers l). fst t \<le> fst u" by blast
  moreover have "ts_diff (fst t) now = total_ms (fst t) - total_ms now"
    using near t(2) by (intro ts_diff_exact) simp
  moreover have "queue (timers l) \<noteq> []" using assms(1) by (simp add: timers_of_def)
  ultimately have "poll_timeout now l = Inr (max 0 (total_ms (fst t) - total_ms now))"
    by (auto simp: poll_timeout_def get_latest_timer_def tm_empty_def tm_top_def max_def)
  with t show ?thesis by blast
qed

text \<open>The functions of the due timers, earliest first; the others stay.\<close>

lemma due_timers_ok:
  "\<exists>due m. due_timers now l = Inr (map snd due, l\<lparr>timers := m\<rparr>) \<and>
     mset due = filter_mset (\<lambda>t. fst t < now) (timers_of (timers l)) \<and>
     timers_of m = filter_mset (\<lambda>t. \<not> fst t < now) (timers_of (timers l)) \<and>
     sorted (map fst due)"
proof -
  from tmq.drain_spec [of now "timers l" "[]"] obtain due m where d:
    "take_due now (timers l) [] = Inr (due, m)"
    "mset due = filter_mset (\<lambda>t. fst t < now) (timers_of (timers l))"
    "timers_of m = filter_mset (\<lambda>t. \<not> fst t < now) (timers_of (timers l))"
    "sorted (map fst due)" by auto
  then have "due_timers now l = Inr (map snd due, l\<lparr>timers := m\<rparr>)" by (simp add: due_timers_def)
  with d show ?thesis by blast
qed

end
