(* ===== verification/Contexts.thy ===== *)
theory Contexts
  imports Buffers
begin

text \<open>
  \<^verbatim>\<open>protocols/protocol.h\<close> and \<^verbatim>\<open>protocols/protocol.proto\<close>: the enumerations of the protocol
  layer and the data every protocol's \<^verbatim>\<open>Context\<close> carries.
\<close>

section \<open>Enumerations\<close>

datatype conn_type = ConnType_Short | ConnType_Single | ConnType_Pool

fun conn_type_num :: "conn_type \<Rightarrow> int" where
  "conn_type_num ConnType_Short = 0"
| "conn_type_num ConnType_Single = 1"
| "conn_type_num ConnType_Pool = 2"

text \<open>What \<^verbatim>\<open>protoc\<close> generates for an enumeration: a test that a number is a member, and the
  conversion from a number.\<close>

definition ConnType_IsValid :: "int \<Rightarrow> bool" where
  "ConnType_IsValid n \<longleftrightarrow> n = 0 \<or> n = 1 \<or> n = 2"

definition ConnType_of :: "int \<Rightarrow> conn_type" where
  "ConnType_of n =
     (if n = 0 then ConnType_Short else if n = 1 then ConnType_Single else ConnType_Pool)"

datatype rpc_status = RpcStatus_OK | RpcStatus_INVALID_PATH

fun rpc_status_num :: "rpc_status \<Rightarrow> int" where
  "rpc_status_num RpcStatus_OK = 0"
| "rpc_status_num RpcStatus_INVALID_PATH = 1"

definition RpcStatus_IsValid :: "int \<Rightarrow> bool" where
  "RpcStatus_IsValid n \<longleftrightarrow> n = 0 \<or> n = 1"

definition RpcStatus_of :: "int \<Rightarrow> rpc_status" where
  "RpcStatus_of n = (if n = 0 then RpcStatus_OK else RpcStatus_INVALID_PATH)"

datatype parse_status =
    ParseProtocol_Success
  | ParseProtocol_Error
  | ParseProtocol_NoEnoughData
  | ParseProtocol_TryAnotherProtocol
  | ParseProtocol_PartSuccess

lemma ConnType_roundtrip [simp]:
  "ConnType_IsValid (conn_type_num t)" "ConnType_of (conn_type_num t) = t"
  by (cases t; simp add: ConnType_IsValid_def ConnType_of_def)+

lemma RpcStatus_roundtrip [simp]:
  "RpcStatus_IsValid (rpc_status_num s)" "RpcStatus_of (rpc_status_num s) = s"
  by (cases s; simp add: RpcStatus_IsValid_def RpcStatus_of_def)+

lemma conn_type_num_range: "0 \<le> conn_type_num t" "conn_type_num t \<le> 2"
  by (cases t; simp)+

lemma rpc_status_num_range: "0 \<le> rpc_status_num s" "rpc_status_num s \<le> 1"
  by (cases s; simp)+

text \<open>A small non-negative number written as an \<^verbatim>\<open>int32_t\<close> is read back.\<close>

lemma sint_small: "0 \<le> n \<Longrightarrow> n < 2 ^ 31 \<Longrightarrow> sint (word_of_int n :: 32 word) = n"
  by (simp add: sint_uint uint_word_of_int signed_take_bit_int_eq_self)

lemma unat_small: "n < 2 ^ 32 \<Longrightarrow> unat (word_of_nat n :: 32 word) = n"
  by (simp add: unat_of_nat)

section \<open>The context of a call\<close>

text \<open>\<^verbatim>\<open>Context\<close>: \<^verbatim>\<open>_rpc_status\<close> is not initialised by the constructor, so it is \<open>None\<close> until it is
  set, and reading it before is a fault.\<close>

record rpc_context =
  conn_type :: conn_type
  rpc_status :: "rpc_status option"
  service :: string
  method_name :: string
  payload_view :: bufview
  payload :: "byte list"

definition read_rpc_status :: "('a rpc_context_scheme) \<Rightarrow> rpc_status result" where
  "read_rpc_status c = (case rpc_status c of None \<Rightarrow> Inl Uninitialised | Some s \<Rightarrow> Inr s)"

end
