(* ===== verification/Simple.thy ===== *)
theory Simple
  imports Contexts
begin

text \<open>
  \<^verbatim>\<open>protocols/simple.cpp\<close>, class \<^verbatim>\<open>SimpleContext\<close>: the length-prefixed binary protocol. Each
  parser is its loop body (one stage) and the loop; a stage of the body either returns
  (\<open>Some\<close> status) or goes round again (\<open>None\<close>).
\<close>

section \<open>SimpleContext\<close>

record simple_ctx = rpc_context +
  s_stage :: int

definition MAGIC_NUM :: int where
  "MAGIC_NUM = 0x19951028"

definition new_simple_ctx :: simple_ctx where
  "new_simple_ctx =
     \<lparr>conn_type = ConnType_Short, rpc_status = None, service = [], method_name = [],
      payload_view = null_view, payload = [], s_stage = 0\<rparr>"

text \<open>\<^verbatim>\<open>parse_request\<close>\<close>

definition simple_request_step ::
  "simple_ctx \<Rightarrow> buffer \<Rightarrow> (parse_status option \<times> simple_ctx \<times> buffer) result"
where
  "simple_request_step c b =
     (if s_stage c = 0 then
        (if readable b < 4 then Inr (Some ParseProtocol_NoEnoughData, c, b)
         else and_then (peek_int32 b) (\<lambda>magic_num.
           if magic_num \<noteq> MAGIC_NUM then Inr (Some ParseProtocol_Error, c, b)
           else Inr (None, c\<lparr>s_stage := 1\<rparr>, retrieve 4 b)))
      else if s_stage c = 1 then
        (if readable b < 4 then Inr (Some ParseProtocol_NoEnoughData, c, b)
         else and_then (peek_int32 b) (\<lambda>ct.
           if \<not> ConnType_IsValid ct then Inr (Some ParseProtocol_Error, c, b)
           else Inr (None, c\<lparr>conn_type := ConnType_of ct, s_stage := 2\<rparr>, retrieve 4 b)))
      else if s_stage c = 2 then
        (if readable b < 4 then Inr (Some ParseProtocol_NoEnoughData, c, b)
         else and_then (peek_uint32 b) (\<lambda>path_len.
           if readable b < path_len then Inr (Some ParseProtocol_NoEnoughData, c, b)
           else let b1 = retrieve 4 b in
             and_then (mem_chr b1 (rindex b1) (CHR ''/'') path_len) (\<lambda>tmp.
               case tmp of
                 None \<Rightarrow> Inr (Some ParseProtocol_Error, c, b1)
               | Some p \<Rightarrow>
                   and_then (mem_read b1 (rindex b1) (p - rindex b1)) (\<lambda>svc.
                   and_then (mem_read b1 (p + 1)
                       (to_size (int path_len - 1 - (int p - int (rindex b1))))) (\<lambda>mth.
                     Inr (None, c\<lparr>service := svc, method_name := mth, s_stage := 3\<rparr>,
                          retrieve path_len b1))))))
      else if s_stage c = 3 then
        (if readable b < 4 then Inr (Some ParseProtocol_NoEnoughData, c, b)
         else and_then (peek_uint32 b) (\<lambda>payload_len.
           if readable b < payload_len then Inr (Some ParseProtocol_NoEnoughData, c, b)
           else let b1 = retrieve 4 b in
             Inr (None, c\<lparr>payload_view := view_at (rindex b1) payload_len, s_stage := 4\<rparr>,
                  retrieve payload_len b1)))
      else Inr (Some ParseProtocol_Success, c, b))"

lemma simple_request_step_stage:
  "simple_request_step c b = Inr (None, c', b') \<Longrightarrow>
     0 \<le> s_stage c \<and> s_stage c < 4 \<and> s_stage c' = s_stage c + 1"
  by (auto simp: simple_request_step_def and_then_Inr_iff Let_def split: if_splits option.splits)

function simple_parse_request ::
  "simple_ctx \<Rightarrow> buffer \<Rightarrow> (parse_status \<times> simple_ctx \<times> buffer) result"
where
  "simple_parse_request c b = and_then (simple_request_step c b) (\<lambda>(r, c', b').
     case r of Some st \<Rightarrow> Inr (st, c', b') | None \<Rightarrow> simple_parse_request c' b')"
  by pat_completeness auto
termination
  by (relation "measure (\<lambda>(c, b). nat (4 - s_stage c))") (auto dest!: simple_request_step_stage)

text \<open>\<^verbatim>\<open>parse_response\<close>\<close>

definition simple_response_step ::
  "simple_ctx \<Rightarrow> buffer \<Rightarrow> (parse_status option \<times> simple_ctx \<times> buffer) result"
where
  "simple_response_step c b =
     (if s_stage c = 0 then
        (if readable b < 4 then Inr (Some ParseProtocol_NoEnoughData, c, b)
         else and_then (peek_int32 b) (\<lambda>magic_num.
           if magic_num \<noteq> MAGIC_NUM then Inr (Some ParseProtocol_Error, c, b)
           else Inr (None, c\<lparr>s_stage := 1\<rparr>, retrieve 4 b)))
      else if s_stage c = 1 then
        (if readable b < 2 * 4 then Inr (Some ParseProtocol_NoEnoughData, c, b)
         else and_then (peek_int32 b) (\<lambda>ct.
           if \<not> ConnType_IsValid ct then Inr (Some ParseProtocol_Error, c, b)
           else let b1 = retrieve 4 b; c1 = c\<lparr>conn_type := ConnType_of ct\<rparr> in
             and_then (peek_int32 b1) (\<lambda>st.
               if \<not> RpcStatus_IsValid st then Inr (Some ParseProtocol_Error, c1, b1)
               else Inr (None, c1\<lparr>rpc_status := Some (RpcStatus_of st), s_stage := 2\<rparr>,
                         retrieve 4 b1))))
      else if s_stage c = 2 then
        (if readable b < 4 then Inr (Some ParseProtocol_NoEnoughData, c, b)
         else and_then (peek_uint32 b) (\<lambda>payload_len.
           if readable b < payload_len then Inr (Some ParseProtocol_NoEnoughData, c, b)
           else let b1 = retrieve 4 b in
             Inr (None, c\<lparr>payload_view := view_at (rindex b1) payload_len, s_stage := 3\<rparr>,
                  retrieve payload_len b1)))
      else Inr (Some ParseProtocol_Success, c, b))"

lemma simple_response_step_stage:
  "simple_response_step c b = Inr (None, c', b') \<Longrightarrow>
     0 \<le> s_stage c \<and> s_stage c < 3 \<and> s_stage c' = s_stage c + 1"
  by (auto simp: simple_response_step_def and_then_Inr_iff Let_def split: if_splits)

function simple_parse_response ::
  "simple_ctx \<Rightarrow> buffer \<Rightarrow> (parse_status \<times> simple_ctx \<times> buffer) result"
where
  "simple_parse_response c b = and_then (simple_response_step c b) (\<lambda>(r, c', b').
     case r of Some st \<Rightarrow> Inr (st, c', b') | None \<Rightarrow> simple_parse_response c' b')"
  by pat_completeness auto
termination
  by (relation "measure (\<lambda>(c, b). nat (3 - s_stage c))") (auto dest!: simple_response_step_stage)

declare simple_parse_request.simps [simp del] simple_parse_response.simps [simp del]

text \<open>\<^verbatim>\<open>pack_request\<close> and \<^verbatim>\<open>pack_response\<close>. The lengths are cut to \<^verbatim>\<open>uint32_t\<close>; \<^verbatim>\<open>_payload\<close> is
  \<^verbatim>\<open>const\<close> there, so the move is a copy.\<close>

definition simple_pack_request :: "simple_ctx \<Rightarrow> buffer \<Rightarrow> (bool \<times> buffer) result" where
  "simple_pack_request c wr_buf =
     and_then (append_int32 MAGIC_NUM wr_buf) (\<lambda>b.
     and_then (append_int32 (conn_type_num (conn_type c)) b) (\<lambda>b.
     and_then (append_uint32 (length (service c) + 1 + length (method_name c)) b) (\<lambda>b.
     and_then (append_all [service c, ''/'', method_name c] b) (\<lambda>b.
     and_then (append_uint32 (length (payload c)) b) (\<lambda>b.
       Inr (True, append_extra (payload c) b))))))"

definition simple_pack_response :: "simple_ctx \<Rightarrow> buffer \<Rightarrow> (bool \<times> buffer) result" where
  "simple_pack_response c wr_buf =
     and_then (append_int32 MAGIC_NUM wr_buf) (\<lambda>b.
     and_then (append_int32 (conn_type_num (conn_type c)) b) (\<lambda>b.
     and_then (read_rpc_status c) (\<lambda>st.
     and_then (append_int32 (rpc_status_num st) b) (\<lambda>b.
     and_then (append_uint32 (length (payload c)) b) (\<lambda>b.
       Inr (True, append_extra (payload c) b))))))"

section \<open>The wire format\<close>

text \<open>The specification: what a request and a response look like on the wire.\<close>

definition int32_wire :: "int \<Rightarrow> byte list" where
  "int32_wire n = be_bytes (word_of_int n)"

definition uint32_wire :: "nat \<Rightarrow> byte list" where
  "uint32_wire n = be_bytes (word_of_nat n)"

definition simple_request_wire :: "conn_type \<Rightarrow> string \<Rightarrow> string \<Rightarrow> byte list \<Rightarrow> byte list" where
  "simple_request_wire ct svc mth pl =
     int32_wire MAGIC_NUM @ int32_wire (conn_type_num ct) @
     uint32_wire (length svc + 1 + length mth) @ svc @ ''/'' @ mth @ uint32_wire (length pl) @ pl"

definition simple_response_wire :: "conn_type \<Rightarrow> rpc_status \<Rightarrow> byte list \<Rightarrow> byte list" where
  "simple_response_wire ct st pl =
     int32_wire MAGIC_NUM @ int32_wire (conn_type_num ct) @ int32_wire (rpc_status_num st) @
     uint32_wire (length pl) @ pl"

lemma length_wire [simp]: "length (int32_wire n) = 4" "length (uint32_wire k) = 4"
  by (simp_all add: int32_wire_def uint32_wire_def)

lemma append_simps:
  "append_int32 n b = append_all [int32_wire n] b"
  "append_uint32 k b = append_all [uint32_wire k] b"
  by (simp_all add: append_int32_def append_uint32_def int32_wire_def uint32_wire_def and_then_def
      split: sum.splits)

lemma append_all_append: "append_all (xs @ ys) b = and_then (append_all xs b) (append_all ys)"
  by (induction xs arbitrary: b) (simp_all add: and_then_def split: sum.splits)

text \<open>Reading a field of the wire at the front of a buffer.\<close>

lemma int32_front:
  assumes "buf_ok b" and "unread b = int32_wire n @ rest" and "0 \<le> n" and "n < 2 ^ 31"
  shows "peek_int32 b = Inr n" and "buf_ok (retrieve 4 b)" and "unread (retrieve 4 b) = rest"
    and "readable b = 4 + length rest"
  using bufq.i32_field [OF assms(1) assms(2) [unfolded int32_wire_def]]
    bufq.u32_field [OF assms(1) assms(2) [unfolded int32_wire_def]] sint_small [OF assms(3,4)]
  by simp_all

lemma uint32_front:
  assumes "buf_ok b" and "unread b = uint32_wire n @ rest" and "n < 2 ^ 32"
  shows "peek_uint32 b = Inr n" and "buf_ok (retrieve 4 b)" and "unread (retrieve 4 b) = rest"
    and "readable b = 4 + length rest"
  using bufq.u32_field [OF assms(1) assms(2) [unfolded uint32_wire_def]] unat_small [OF assms(3)]
  by simp_all

lemma MAGIC_NUM_range: "0 \<le> MAGIC_NUM" "MAGIC_NUM < 2 ^ 31"
  by (simp_all add: MAGIC_NUM_def)

lemma conn_type_num_bounds: "0 \<le> conn_type_num t" "conn_type_num t < 2 ^ 31"
  by (cases t; simp)+

lemma rpc_status_num_bounds: "0 \<le> rpc_status_num s" "rpc_status_num s < 2 ^ 31"
  by (cases s; simp)+

lemmas magic_front = int32_front [OF _ _ MAGIC_NUM_range]
lemmas conn_type_front = int32_front [OF _ _ conn_type_num_bounds]
lemmas rpc_status_front = int32_front [OF _ _ rpc_status_num_bounds]

section \<open>Packing writes the wire format\<close>

lemma simple_pack_request_eq:
  "simple_pack_request c b =
     and_then (append_all [int32_wire MAGIC_NUM, int32_wire (conn_type_num (conn_type c)),
         uint32_wire (length (service c) + 1 + length (method_name c)),
         service c, ''/'', method_name c, uint32_wire (length (payload c))] b)
       (\<lambda>b. Inr (True, append_extra (payload c) b))"
  by (simp add: simple_pack_request_def append_simps and_then_assoc)

lemma simple_pack_response_eq:
  "rpc_status c = Some st \<Longrightarrow>
   simple_pack_response c b =
     and_then (append_all [int32_wire MAGIC_NUM, int32_wire (conn_type_num (conn_type c)),
         int32_wire (rpc_status_num st), uint32_wire (length (payload c))] b)
       (\<lambda>b. Inr (True, append_extra (payload c) b))"
  by (simp add: simple_pack_response_def read_rpc_status_def append_simps and_then_assoc)

lemma simple_pack_request_ok:
  assumes "buf_ok b" and "extra_index b = 0" and "length (payload c) \<le> max_object"
    and "4 \<le> length (data b)" "length (service c) \<le> length (data b)"
      "length (method_name c) \<le> length (data b)"
    and "2 * length (data b) < 2 ^ 31"
    and "4 * (windex b + 17 + length (service c) + length (method_name c)) < 2 ^ 31"
  shows "\<exists>b'. simple_pack_request c b = Inr (True, b') \<and> buf_ok b' \<and>
    unread b' @ extra_left b' = unread b @
      simple_request_wire (conn_type c) (service c) (method_name c) (payload c)"
proof -
  let ?ms = "[int32_wire MAGIC_NUM, int32_wire (conn_type_num (conn_type c)),
         uint32_wire (length (service c) + 1 + length (method_name c)),
         service c, ''/'', method_name c, uint32_wire (length (payload c))]"
  have "\<forall>m \<in> set ?ms. length m \<le> length (data b)" using assms(4-6) by simp
  moreover have "4 * (windex b + length (concat ?ms)) < 2 ^ 31" using assms(8) by simp
  ultimately show ?thesis
    using pack_chunks_ok [OF assms(1-3) _ assms(7), of ?ms]
    by (auto simp: simple_pack_request_eq simple_request_wire_def)
qed

lemma simple_pack_response_ok:
  assumes "buf_ok b" and "extra_index b = 0" and "length (payload c) \<le> max_object"
    and "4 \<le> length (data b)" and "2 * length (data b) < 2 ^ 31"
    and "4 * (windex b + 16) < 2 ^ 31" and "rpc_status c = Some st"
  shows "\<exists>b'. simple_pack_response c b = Inr (True, b') \<and> buf_ok b' \<and>
    unread b' @ extra_left b' = unread b @ simple_response_wire (conn_type c) st (payload c)"
proof -
  let ?ms = "[int32_wire MAGIC_NUM, int32_wire (conn_type_num (conn_type c)),
         int32_wire (rpc_status_num st), uint32_wire (length (payload c))]"
  have "4 * (windex b + length (concat ?ms)) < 2 ^ 31" using assms(6) by simp
  moreover have "\<forall>m \<in> set ?ms. length m \<le> length (data b)" using assms(4) by simp
  ultimately show ?thesis
    using pack_chunks_ok [OF assms(1-3) _ assms(5), of ?ms]
    by (auto simp: simple_pack_response_eq [OF assms(7)] simple_response_wire_def)
qed

section \<open>Parsing reads it back\<close>

lemma simple_request_loop:
  "simple_request_step c b = Inr (None, c', b') \<Longrightarrow>
     simple_parse_request c b = simple_parse_request c' b'"
  by (subst simple_parse_request.simps) simp

lemma simple_request_return:
  "simple_request_step c b = Inr (Some st, c', b') \<Longrightarrow> simple_parse_request c b = Inr (st, c', b')"
  by (subst simple_parse_request.simps) simp

lemma simple_response_loop:
  "simple_response_step c b = Inr (None, c', b') \<Longrightarrow>
     simple_parse_response c b = simple_parse_response c' b'"
  by (subst simple_parse_response.simps) simp

lemma simple_response_return:
  "simple_response_step c b = Inr (Some st, c', b') \<Longrightarrow> simple_parse_response c b = Inr (st, c', b')"
  by (subst simple_parse_response.simps) simp

lemma simple_request_stage0:
  assumes "s_stage c = 0" and "buf_ok b" and "unread b = int32_wire MAGIC_NUM @ rest"
  shows "simple_request_step c b = Inr (None, c\<lparr>s_stage := 1\<rparr>, retrieve 4 b)"
  using magic_front [OF assms(2,3)] assms(1) by (simp add: simple_request_step_def)

lemma simple_request_stage1:
  assumes "s_stage c = 1" and "buf_ok b" and "unread b = int32_wire (conn_type_num ct) @ rest"
  shows "simple_request_step c b = Inr (None, c\<lparr>conn_type := ct, s_stage := 2\<rparr>, retrieve 4 b)"
  using conn_type_front [OF assms(2,3)] assms(1) by (simp add: simple_request_step_def)

lemma simple_request_stage2:
  assumes "s_stage c = 2" and ok: "buf_ok b"
    and u: "unread b = uint32_wire (length svc + 1 + length mth) @ svc @ ''/'' @ mth @ rest"
    and svc: "CHR ''/'' \<notin> set svc" and len: "length svc + 1 + length mth < 2 ^ 32"
  shows "simple_request_step c b = Inr (None, c\<lparr>service := svc, method_name := mth, s_stage := 3\<rparr>,
    retrieve (length svc + 1 + length mth) (retrieve 4 b))"
proof -
  let ?b = "retrieve 4 b" and ?n = "length svc + 1 + length mth"
  note f = uint32_front [OF ok u len]
  have chr: "mem_chr ?b (rindex ?b) (CHR ''/'') ?n = Inr (Some (rindex ?b + length svc))"
    using mem_unread(2) [OF f(2), of ?n] f(3) svc by simp
  have s: "mem_read ?b (rindex ?b) (length svc) = Inr svc"
    using mem_unread(1) [OF f(2), of "length svc"] f(3) by simp
  have m: "mem_read ?b (Suc (rindex ?b + length svc)) (length mth) = Inr mth"
    using mem_read_unread [OF f(2), of "Suc (length svc)" "length mth"] f(3) by simp
  have "to_size (int ?n - 1 - (int (rindex ?b + length svc) - int (rindex ?b))) = length mth"
    using len to_size_int [of "length mth"] by simp
  then show ?thesis
    using assms(1) f chr s m by (simp add: simple_request_step_def Let_def)
qed

lemma simple_request_stage3:
  assumes "s_stage c = 3" and "buf_ok b" and "unread b = uint32_wire (length pl) @ pl @ rest"
    and "length pl < 2 ^ 32"
  shows "simple_request_step c b = Inr (None, c\<lparr>payload_view := view_at (rindex (retrieve 4 b)) (length pl),
    s_stage := 4\<rparr>, retrieve (length pl) (retrieve 4 b))"
  using uint32_front [OF assms(2-4)] assms(1) by (simp add: simple_request_step_def Let_def)

lemma simple_request_stage4: "s_stage c = 4 \<Longrightarrow> simple_request_step c b = Inr (Some ParseProtocol_Success, c, b)"
  by (simp add: simple_request_step_def)

lemma simple_request_parse:
  assumes ok: "buf_ok b" and u: "unread b = simple_request_wire ct svc mth pl @ rest"
    and svc: "CHR ''/'' \<notin> set svc" and len: "length svc + 1 + length mth < 2 ^ 32" "length pl < 2 ^ 32"
    and c: "s_stage c = 0"
  shows "\<exists>c' b'. simple_parse_request c b = Inr (ParseProtocol_Success, c', b') \<and>
    conn_type c' = ct \<and> service c' = svc \<and> method_name c' = mth \<and>
    view_str b' (payload_view c') = Inr pl \<and> buf_ok b' \<and> unread b' = rest"
proof -
  define b1 where "b1 = retrieve 4 b"
  define b2 where "b2 = retrieve 4 b1"
  define b3 where "b3 = retrieve (Suc (length svc + length mth)) (retrieve 4 b2)"
  define b4 where "b4 = retrieve 4 b3"
  note wire = u [unfolded simple_request_wire_def append_assoc]
  have 1: "buf_ok b1" "unread b1 = int32_wire (conn_type_num ct) @ uint32_wire (length svc + 1 + length mth) @
      svc @ ''/'' @ mth @ uint32_wire (length pl) @ pl @ rest"
    using magic_front [OF ok wire] by (simp_all add: b1_def)
  have 2: "buf_ok b2" "unread b2 = uint32_wire (length svc + 1 + length mth) @
      svc @ ''/'' @ mth @ uint32_wire (length pl) @ pl @ rest"
    using conn_type_front [OF 1] by (simp_all add: b2_def)
  have path: "length svc + 1 + length mth = length (svc @ ''/'' @ mth)" by simp
  note u2 = uint32_front(2,3) [OF 2 len(1)]
  have "unread (retrieve 4 b2) = (svc @ ''/'' @ mth) @ uint32_wire (length pl) @ pl @ rest"
    using u2(2) by simp
  from bufq.blob_field [OF u2(1) this path]
  have 3: "buf_ok b3" "unread b3 = uint32_wire (length pl) @ pl @ rest"
    by (simp_all add: b3_def)
  have 4: "buf_ok b4" "unread b4 = pl @ rest"
    using uint32_front [OF 3 len(2)] by (simp_all add: b4_def)
  note 5 = bufq.blob_field [OF 4 refl]
  let ?c = "c\<lparr>s_stage := 1, conn_type := ct, s_stage := 2, service := svc, method_name := mth, s_stage := 3,
    payload_view := view_at (rindex b4) (length pl), s_stage := 4\<rparr>"
  have "simple_parse_request c b = Inr (ParseProtocol_Success, ?c, retrieve (length pl) b4)"
    using simple_request_loop [OF simple_request_stage0 [OF c ok wire]]
      simple_request_loop [OF simple_request_stage1 [OF _ 1, of "c\<lparr>s_stage := 1\<rparr>"]]
      simple_request_loop [OF simple_request_stage2 [OF _ 2 svc len(1), of "c\<lparr>conn_type := ct, s_stage := 2\<rparr>"]]
      simple_request_loop [OF simple_request_stage3 [OF _ 3 len(2),
        of "c\<lparr>conn_type := ct, service := svc, method_name := mth, s_stage := 3\<rparr>"]]
      simple_request_return [OF simple_request_stage4 [of ?c "retrieve (length pl) b4"]]
    by (simp flip: b1_def b2_def b3_def b4_def)
  moreover have "view_str (retrieve (length pl) b4) (view_at (rindex b4) (length pl)) = Inr pl"
    using view_front [OF 4(1), of "length pl"] 4(2) by simp
  ultimately show ?thesis using 5 by simp
qed

lemma simple_response_stage0:
  assumes "s_stage c = 0" and "buf_ok b" and "unread b = int32_wire MAGIC_NUM @ rest"
  shows "simple_response_step c b = Inr (None, c\<lparr>s_stage := 1\<rparr>, retrieve 4 b)"
  using magic_front [OF assms(2,3)] assms(1) by (simp add: simple_response_step_def)

lemma simple_response_stage1:
  assumes "s_stage c = 1" and ok: "buf_ok b"
    and u: "unread b = int32_wire (conn_type_num ct) @ int32_wire (rpc_status_num st) @ rest"
  shows "simple_response_step c b = Inr (None, c\<lparr>conn_type := ct, rpc_status := Some st, s_stage := 2\<rparr>,
    retrieve 4 (retrieve 4 b))"
proof -
  note f = conn_type_front [OF ok u]
  show ?thesis
    using f rpc_status_front [OF f(2,3)] assms(1) by (simp add: simple_response_step_def Let_def)
qed

lemma simple_response_stage2:
  assumes "s_stage c = 2" and "buf_ok b" and "unread b = uint32_wire (length pl) @ pl @ rest"
    and "length pl < 2 ^ 32"
  shows "simple_response_step c b = Inr (None, c\<lparr>payload_view := view_at (rindex (retrieve 4 b)) (length pl),
    s_stage := 3\<rparr>, retrieve (length pl) (retrieve 4 b))"
  using uint32_front [OF assms(2-4)] assms(1) by (simp add: simple_response_step_def Let_def)

lemma simple_response_stage3: "s_stage c = 3 \<Longrightarrow> simple_response_step c b = Inr (Some ParseProtocol_Success, c, b)"
  by (simp add: simple_response_step_def)

lemma simple_response_parse:
  assumes ok: "buf_ok b" and u: "unread b = simple_response_wire ct st pl @ rest"
    and len: "length pl < 2 ^ 32" and c: "s_stage c = 0"
  shows "\<exists>c' b'. simple_parse_response c b = Inr (ParseProtocol_Success, c', b') \<and>
    conn_type c' = ct \<and> rpc_status c' = Some st \<and>
    view_str b' (payload_view c') = Inr pl \<and> buf_ok b' \<and> unread b' = rest"
proof -
  define b1 where "b1 = retrieve 4 b"
  define b2 where "b2 = retrieve 4 (retrieve 4 b1)"
  define b3 where "b3 = retrieve 4 b2"
  note wire = u [unfolded simple_response_wire_def append_assoc]
  have 1: "buf_ok b1" "unread b1 = int32_wire (conn_type_num ct) @ int32_wire (rpc_status_num st) @
      uint32_wire (length pl) @ pl @ rest"
    using magic_front [OF ok wire] by (simp_all add: b1_def)
  note ct = conn_type_front [OF 1]
  have 2: "buf_ok b2" "unread b2 = uint32_wire (length pl) @ pl @ rest"
    using rpc_status_front [OF ct(2,3)] by (simp_all add: b2_def)
  have 3: "buf_ok b3" "unread b3 = pl @ rest"
    using uint32_front [OF 2 len] by (simp_all add: b3_def)
  note 4 = bufq.blob_field [OF 3 refl]
  let ?c = "c\<lparr>conn_type := ct, rpc_status := Some st,
    payload_view := view_at (rindex b3) (length pl), s_stage := 3\<rparr>"
  have "simple_parse_response c b = Inr (ParseProtocol_Success, ?c, retrieve (length pl) b3)"
    using simple_response_loop [OF simple_response_stage0 [OF c ok wire]]
      simple_response_loop [OF simple_response_stage1 [OF _ 1, of "c\<lparr>s_stage := 1\<rparr>"]]
      simple_response_loop [OF simple_response_stage2 [OF _ 2 len,
        of "c\<lparr>conn_type := ct, rpc_status := Some st, s_stage := 2\<rparr>"]]
      simple_response_return [OF simple_response_stage3 [of ?c "retrieve (length pl) b3"]]
    by (simp flip: b1_def b2_def b3_def)
  moreover have "view_str (retrieve (length pl) b3) (view_at (rindex b3) (length pl)) = Inr pl"
    using view_front [OF 3(1), of "length pl"] 3(2) by simp
  ultimately show ?thesis using 4 by simp
qed

section \<open>Incomplete and invalid input\<close>

text \<open>
  The stages that read a length compare it with the bytes that are there before the four
  bytes of the length itself are taken off. A payload that lacks up to four bytes is
  therefore accepted: the read index passes the write index, and the number of readable
  bytes wraps.
\<close>

lemma retrieve_past_end:
  assumes "buf_ok b" and "length (unread b) < n" and "n \<le> length (unread b) + max_object"
  shows "\<not> buf_ok (retrieve n b)" and "readable (retrieve n b) = 2 ^ 64 - (n - length (unread b))"
proof -
  have "rindex b + n < 2 ^ 64" using assms by (auto simp: buf_ok_def)
  then have r: "rindex (retrieve n b) = rindex b + n" by (simp add: retrieve_def sz_add_small)
  then show "\<not> buf_ok (retrieve n b)"
    using assms by (auto simp: buf_ok_def)
  show "readable (retrieve n b) = 2 ^ 64 - (n - length (unread b))"
    using r assms \<open>rindex b + n < 2 ^ 64\<close> by (auto simp: readable_def sz_sub_wrap buf_ok_def)
qed

text \<open>C36. A payload that lacks one to four bytes is accepted, and the read index then passes
  the write index.\<close>

lemma simple_payload_accepted_early:
  assumes c: "s_stage c = 3" and ok: "buf_ok b" and u: "unread b = uint32_wire n @ part"
    and n: "n < 2 ^ 32" and short: "length part < n" "n \<le> length part + 4"
  shows "\<exists>c' b'. simple_parse_request c b = Inr (ParseProtocol_Success, c', b') \<and>
    \<not> buf_ok b' \<and> readable b' = 2 ^ 64 - (n - length part)"
proof -
  note f = uint32_front [OF ok u n]
  let ?c = "c\<lparr>payload_view := view_at (rindex (retrieve 4 b)) n, s_stage := 4\<rparr>"
  have "simple_request_step c b = Inr (None, ?c, retrieve n (retrieve 4 b))"
    using f c short by (simp add: simple_request_step_def Let_def)
  moreover have "simple_request_step ?c d = Inr (Some ParseProtocol_Success, ?c, d)" for d
    by (rule simple_request_stage4) simp
  ultimately have "simple_parse_request c b = Inr (ParseProtocol_Success, ?c, retrieve n (retrieve 4 b))"
    by (simp add: simple_request_loop simple_request_return)
  moreover have "n \<le> length (unread (retrieve 4 b)) + max_object" using short f(3) by simp
  ultimately show ?thesis
    using retrieve_past_end [OF f(2), of n] short f(3) by auto
qed

lemma simple_payload_waits:
  assumes "s_stage c = 3" and ok: "buf_ok b" and u: "unread b = uint32_wire n @ part"
    and n: "n < 2 ^ 32" and short: "length part + 4 < n"
  shows "simple_parse_request c b = Inr (ParseProtocol_NoEnoughData, c, b)"
  using uint32_front [OF ok u n] assms(1) short
  by (intro simple_request_return) (simp add: simple_request_step_def)

lemma simple_bad_magic:
  assumes "s_stage c = 0" and ok: "buf_ok b" and u: "unread b = be_bytes w @ rest"
    and bad: "sint w \<noteq> MAGIC_NUM"
  shows "simple_parse_request c b = Inr (ParseProtocol_Error, c, b)"
  using bufq.u32_field [OF ok u] bufq.i32_field [OF ok u] assms(1) bad
  by (intro simple_request_return) (simp add: simple_request_step_def)

end
