(* ===== verification/Http.thy ===== *)
theory Http
  imports Contexts
begin

text \<open>
  \<^verbatim>\<open>protocols/http.cpp\<close>, class \<^verbatim>\<open>HTTPContext\<close>: request line, headers and body of a request, the
  status line of a response, and the two packers. The searches run on the buffer's
  memory; a pointer is an index into it.
\<close>

section \<open>HTTPContext\<close>

record http_ctx = rpc_context +
  h_stage :: int
  body_size :: int
  http_method :: int
  http_url :: bufview
  http_version :: bufview
  request_line :: bufview
  headers :: "string \<rightharpoonup> string"

definition MaxHeadlineSize :: nat where
  "MaxHeadlineSize = 65536"

definition MaxHeaderSize :: nat where
  "MaxHeaderSize = 65536"

definition new_http_ctx :: http_ctx where
  "new_http_ctx =
     \<lparr>conn_type = ConnType_Short, rpc_status = None, service = [], method_name = [],
      payload_view = null_view, payload = [], h_stage = 0, body_size = 0, http_method = -1,
      http_url = null_view, http_version = null_view, request_line = null_view,
      headers = Map.empty\<rparr>"

section \<open>HTTP methods\<close>

text \<open>The enumeration of \<^verbatim>\<open>protocol.proto\<close>; its generated \<^verbatim>\<open>_MIN\<close> and \<^verbatim>\<open>_MAX\<close> are the smallest and
  the largest value.\<close>

definition HTTPMethod_names :: "string list" where
  "HTTPMethod_names = [''GET'', ''POST'', ''HEAD'', ''OPTIONS'', ''PUT'', ''PATCH'', ''DELETE'',
     ''TRACE'', ''CONNECT'']"

definition HTTPMethod_MIN :: nat where
  "HTTPMethod_MIN = 0"

definition HTTPMethod_MAX :: nat where
  "HTTPMethod_MAX = 8"

definition HTTPMethod_Name :: "nat \<Rightarrow> string" where
  "HTTPMethod_Name i = (if i < length HTTPMethod_names then HTTPMethod_names ! i else [])"

definition HTTPMethod_IsValid :: "int \<Rightarrow> bool" where
  "HTTPMethod_IsValid m \<longleftrightarrow> 0 \<le> m \<and> m \<le> 8"

text \<open>The loop that compares the start of the buffer with each name, from \<^verbatim>\<open>i\<close> on.\<close>

function match_method :: "byte list \<Rightarrow> nat \<Rightarrow> nat option result" where
  "match_method mem i =
     (if i < HTTPMethod_MAX then
        and_then (strncmp_eq mem (HTTPMethod_Name i)) (\<lambda>eq.
          if eq then Inr (Some i) else match_method mem (Suc i))
      else Inr None)"
  by pat_completeness auto
termination
  by (relation "measure (\<lambda>(mem, i). HTTPMethod_MAX - i)") auto

declare match_method.simps [simp del]

section \<open>Request line\<close>

definition mem_byte :: "buffer \<Rightarrow> nat \<Rightarrow> byte result" where
  "mem_byte b p = (if in_bounds b p 1 then Inr (data b ! p) else Inl OutOfBounds)"

text \<open>The URL from offset \<open>off\<close> to index \<open>t\<close>: service and method, if there is a second slash.\<close>

definition parse_service_method :: "http_ctx \<Rightarrow> buffer \<Rightarrow> nat \<Rightarrow> nat \<Rightarrow> http_ctx result" where
  "parse_service_method c b off t =
     and_then (mem_chr b (rindex b + off + 1) (CHR ''/'') (t - rindex b - off)) (\<lambda>tmp2.
     case tmp2 of
       None \<Rightarrow> Inr c
     | Some t2 \<Rightarrow>
         and_then (mem_read b (rindex b + off + 1) (t2 - rindex b - off - 1)) (\<lambda>svc.
         and_then (mem_read b (t2 + 1) (to_size (int t - int t2 - 1))) (\<lambda>mth.
           Inr (c\<lparr>service := svc, method_name := mth\<rparr>))))"

text \<open>The version, and the end of the request line; \<open>n\<close> is the position of the line end.\<close>

definition parse_version ::
  "http_ctx \<Rightarrow> buffer \<Rightarrow> nat \<Rightarrow> int \<Rightarrow> (parse_status \<times> http_ctx \<times> buffer) result"
where
  "parse_version c b off n =
     and_then (mem_chr b (rindex b + off) (CHR '' '') (to_size (n - int off))) (\<lambda>tmp.
       if tmp \<noteq> None then Inr (ParseProtocol_Error, c, b)
       else Inr (ParseProtocol_PartSuccess,
              c\<lparr>http_version := view_at (rindex b + off) (to_size (n - int off)),
                request_line := view_at (rindex b) (to_size n)\<rparr>,
              retrieve (to_size (n + 2)) b))"

text \<open>The part after the method name; \<open>off\<close> is \<^verbatim>\<open>offset\<close>.\<close>

definition parse_url ::
  "http_ctx \<Rightarrow> buffer \<Rightarrow> nat \<Rightarrow> int \<Rightarrow> (parse_status \<times> http_ctx \<times> buffer) result"
where
  "parse_url c b off n =
     and_then (mem_chr b (rindex b + off) (CHR '' '') (to_size (n - int off))) (\<lambda>tmp.
     case tmp of
       None \<Rightarrow> Inr (ParseProtocol_Error, c, b)
     | Some t \<Rightarrow>
         if t = rindex b + off then Inr (ParseProtocol_Error, c, b)
         else and_then (mem_byte b (rindex b + off)) (\<lambda>ch.
           if ch \<noteq> CHR ''/'' then Inr (ParseProtocol_Error, c, b)
           else
             let c1 = c\<lparr>http_url := view_at (rindex b + off) (t - rindex b - off)\<rparr> in
             and_then (parse_service_method c1 b off t) (\<lambda>c2.
             parse_version c2 b (t - rindex b + 1) n)))"

definition parse_request_line ::
  "http_ctx \<Rightarrow> buffer \<Rightarrow> (parse_status \<times> http_ctx \<times> buffer) result"
where
  "parse_request_line c b =
     (let size = min (readable b) MaxHeadlineSize in
      if size = 0 then Inr (ParseProtocol_NoEnoughData, c, b)
      else and_then (find_crlf size b) (\<lambda>n.
        if n = -1 then
          Inr (if size = MaxHeadlineSize then ParseProtocol_Error else ParseProtocol_NoEnoughData, c, b)
        else and_then (match_method (drop (rindex b) (data b)) HTTPMethod_MIN) (\<lambda>m.
          let c1 = (case m of None \<Rightarrow> c | Some i \<Rightarrow> c\<lparr>http_method := int i\<rparr>);
              off = (case m of None \<Rightarrow> 0 | Some i \<Rightarrow> length (HTTPMethod_Name i))
          in if \<not> HTTPMethod_IsValid (http_method c1) then Inr (ParseProtocol_Error, c1, b)
             else and_then (mem_byte b (rindex b + off)) (\<lambda>sp.
               if sp \<noteq> CHR '' '' then Inr (ParseProtocol_Error, c1, b)
               else parse_url c1 b (off + 1) n))))"

section \<open>Status line, headers and body\<close>

definition parse_response_line ::
  "http_ctx \<Rightarrow> buffer \<Rightarrow> (parse_status \<times> http_ctx \<times> buffer) result"
where
  "parse_response_line c b =
     (let size = min (readable b) MaxHeadlineSize in
      if size = 0 then Inr (ParseProtocol_NoEnoughData, c, b)
      else and_then (find_crlf size b) (\<lambda>n.
        if n = -1 then
          Inr (if size = MaxHeadlineSize then ParseProtocol_Error else ParseProtocol_NoEnoughData, c, b)
        else Inr (ParseProtocol_PartSuccess, c\<lparr>request_line := view_at (rindex b) (to_size n)\<rparr>,
               retrieve (to_size (n + 2)) b)))"

definition trim :: "string \<Rightarrow> string" where
  "trim str =
     (let s = dropWhile (\<lambda>c. c = CHR '' '') str
      in rev (dropWhile (\<lambda>c. c = CHR '' '') (rev s)))"

definition store_header :: "string \<Rightarrow> string \<Rightarrow> http_ctx \<Rightarrow> http_ctx result" where
  "store_header key value c =
     (if key \<noteq> [] \<and> value \<noteq> [] \<and> headers c key = None then
        and_then
          (if key = ''Content-Length'' then and_then (stoi value) (\<lambda>v. Inr (c\<lparr>body_size := v\<rparr>))
           else Inr c) (\<lambda>c1.
        let c2 = (if key = ''Connection'' \<and> value = ''Keep-Alive''
                  then c1\<lparr>conn_type := ConnType_Single\<rparr> else c1)
        in Inr (c2\<lparr>headers := (headers c2)(key \<mapsto> value)\<rparr>))
      else Inr c)"

text \<open>One round of the loop of \<^verbatim>\<open>_parse_headers\<close>, then the loop.\<close>

definition header_step ::
  "http_ctx \<Rightarrow> buffer \<Rightarrow> (parse_status option \<times> http_ctx \<times> buffer) result"
where
  "header_step c b =
     (let size = min (readable b) MaxHeaderSize in
      if size = 0 then Inr (Some ParseProtocol_NoEnoughData, c, b)
      else and_then (find_crlf size b) (\<lambda>n.
        if n = -1 then
          Inr (Some (if size = MaxHeadlineSize then ParseProtocol_Error
                     else ParseProtocol_NoEnoughData), c, b)
        else if n > 0 then
          and_then (mem_chr b (rindex b) (CHR '':'') (to_size n)) (\<lambda>tmp.
          case tmp of
            None \<Rightarrow> Inr (Some ParseProtocol_Error, c, b)
          | Some p \<Rightarrow>
              if p = rindex b then Inr (Some ParseProtocol_Error, c, b)
              else
                and_then (mem_read b (rindex b) (p - rindex b)) (\<lambda>key.
                and_then (mem_read b (p + 1) (to_size (int (rindex b) - int p + n - 1))) (\<lambda>value.
                and_then (store_header (trim key) (trim value) c) (\<lambda>c'.
                  Inr (None, c', retrieve (to_size (n + 2)) b)))))
        else if n = 0 then Inr (Some ParseProtocol_PartSuccess, c, retrieve 2 b)
        else Inr (None, c, b)))"

lemma find_crlf_small:
  assumes "find_crlf len b = Inr n" and "len \<le> 65536"
  shows "n = -1 \<or> (\<exists>k. n = int k \<and> k + 2 \<le> len \<and> in_bounds b (rindex b) len)"
proof -
  from assms(1) have inb: "in_bounds b (rindex b) len"
    by (auto simp: find_crlf_def mem_read_def split: if_splits)
  then have len: "length (take len (drop (rindex b) (data b))) = len"
    by (auto simp: in_bounds_def)
  show ?thesis
  proof (cases "index_of_crlf (take len (drop (rindex b) (data b)))")
    case None
    with assms(1) inb show ?thesis by (simp add: find_crlf_def mem_read_def)
  next
    case (Some k)
    then have k: "k + 2 \<le> len" using index_of_crlf_Some_length len by metis
    with Some assms inb have "n = int k"
      by (simp add: find_crlf_def mem_read_def to_int32_small)
    with k inb show ?thesis by blast
  qed
qed

lemma header_step_progress:
  assumes "header_step c b = Inr (None, c', b')"
  shows "rindex b < rindex b' \<and> rindex b' \<le> length (data b') \<and> data b' = data b"
proof -
  let ?size = "min (readable b) MaxHeaderSize"
  have "?size \<le> 65536" by (simp add: MaxHeaderSize_def)
  from assms obtain n where n: "find_crlf ?size b = Inr n" "n \<noteq> -1"
    by (auto simp: header_step_def Let_def and_then_Inr_iff split: if_splits)
  from find_crlf_small [OF n(1) \<open>?size \<le> 65536\<close>] n(2) obtain k where
    k: "n = int k" "k + 2 \<le> ?size" "in_bounds b (rindex b) ?size" by auto
  then have "rindex b + (k + 2) \<le> length (data b)" "length (data b) \<le> max_object"
    by (auto simp: in_bounds_def)
  moreover from this have "to_size (int k + 2) = k + 2"
    using to_size_int [of "k + 2"] by (simp add: add.commute)
  ultimately have "rindex (retrieve (to_size (n + 2)) b) = rindex b + (k + 2)"
    by (simp add: k(1) retrieve_def sz_add_small)
  moreover from assms n k(1) have "b' = retrieve (to_size (n + 2)) b"
    by (auto simp: header_step_def Let_def and_then_Inr_iff split: if_splits option.splits)
  ultimately show ?thesis
    using \<open>rindex b + (k + 2) \<le> length (data b)\<close> by simp
qed

function parse_headers :: "http_ctx \<Rightarrow> buffer \<Rightarrow> (parse_status \<times> http_ctx \<times> buffer) result" where
  "parse_headers c b = and_then (header_step c b) (\<lambda>(r, c', b').
     case r of Some st \<Rightarrow> Inr (st, c', b') | None \<Rightarrow> parse_headers c' b')"
  by pat_completeness auto
termination
  by (relation "measure (\<lambda>(c, b). length (data b) - rindex b)")
     (auto dest!: header_step_progress)

declare parse_headers.simps [simp del]

definition parse_body :: "http_ctx \<Rightarrow> buffer \<Rightarrow> (parse_status \<times> http_ctx \<times> buffer) result" where
  "parse_body c b =
     (if to_int32 (int (readable b)) \<ge> body_size c then
        Inr (ParseProtocol_PartSuccess,
          c\<lparr>payload_view := view_at (rindex b) (to_size (body_size c))\<rparr>, b)
      else Inr (ParseProtocol_NoEnoughData, c, b))"

section \<open>Requests and responses\<close>

text \<open>The stage counter moves on when a part is complete; any other status is returned.\<close>

definition http_advance ::
  "parse_status \<times> http_ctx \<times> buffer \<Rightarrow> (parse_status option \<times> http_ctx \<times> buffer) result"
where
  "http_advance = (\<lambda>(res, c, b).
     if res = ParseProtocol_PartSuccess then Inr (None, c\<lparr>h_stage := h_stage c + 1\<rparr>, b)
     else Inr (Some res, c, b))"

definition http_step ::
  "(http_ctx \<Rightarrow> buffer \<Rightarrow> (parse_status \<times> http_ctx \<times> buffer) result) \<Rightarrow>
   http_ctx \<Rightarrow> buffer \<Rightarrow> (parse_status option \<times> http_ctx \<times> buffer) result"
where
  "http_step first_line c b =
     (if h_stage c = 0 then and_then (first_line c b) http_advance
      else if h_stage c = 1 then and_then (parse_headers c b) http_advance
      else if h_stage c = 2 then and_then (parse_body c b) http_advance
      else Inr (Some ParseProtocol_Success, c, b))"

lemma store_header_stage:
  "store_header k v c = Inr c' \<Longrightarrow> h_stage c' = h_stage c"
  by (auto simp: store_header_def and_then_Inr_iff Let_def split: if_splits)

lemma header_step_stage:
  "header_step c b = Inr (r, c', b') \<Longrightarrow> h_stage c' = h_stage c"
  by (auto simp: header_step_def Let_def and_then_Inr_iff store_header_stage
      split: if_splits option.splits)

lemma parse_headers_stage:
  "parse_headers c b = Inr (st, c', b') \<Longrightarrow> h_stage c' = h_stage c"
proof (induction c b rule: parse_headers.induct)
  case (1 c b)
  from "1.prems" obtain r d e where step: "header_step c b = Inr (r, d, e)"
    by (subst (asm) parse_headers.simps) (auto simp: and_then_Inr_iff)
  show ?case
  proof (cases r)
    case None
    with step "1.prems" have "parse_headers d e = Inr (st, c', b')"
      by (subst (asm) parse_headers.simps) simp
    with "1.IH" [OF step refl refl None] step show ?thesis by (simp add: header_step_stage)
  next
    case (Some s)
    with step "1.prems" show ?thesis
      by (subst (asm) parse_headers.simps) (auto simp: header_step_stage)
  qed
qed

lemma parse_url_stage:
  assumes "parse_url c b off n = Inr (st, c', b')"
  shows "h_stage c' = h_stage c"
proof -
  have sm: "h_stage d' = h_stage d" if "parse_service_method d b off t = Inr d'" for d d' t
    using that by (auto simp: parse_service_method_def and_then_Inr_iff split: option.splits)
  have pv: "h_stage d' = h_stage d" if "parse_version d b o' n = Inr (st, d', b')" for d d' o'
    using that by (auto simp: parse_version_def and_then_Inr_iff split: if_splits)
  show ?thesis
    using assms by (auto simp: parse_url_def Let_def and_then_Inr_iff dest!: pv sm
        split: if_splits option.splits)
qed

lemma parse_request_line_stage:
  "parse_request_line c b = Inr (st, c', b') \<Longrightarrow> h_stage c' = h_stage c"
  by (auto simp: parse_request_line_def Let_def and_then_Inr_iff dest!: parse_url_stage
      split: if_splits option.splits)

lemma parse_response_line_stage:
  "parse_response_line c b = Inr (st, c', b') \<Longrightarrow> h_stage c' = h_stage c"
  by (auto simp: parse_response_line_def Let_def and_then_Inr_iff split: if_splits)

lemma http_advance_None:
  "and_then m http_advance = Inr (None, c', b') \<longleftrightarrow>
     (\<exists>c. m = Inr (ParseProtocol_PartSuccess, c, b') \<and> c' = c\<lparr>h_stage := h_stage c + 1\<rparr>)"
  by (cases m) (auto simp: http_advance_def split: prod.splits if_splits)

lemma http_advance_Some:
  "and_then m http_advance = Inr (Some st, c', b') \<longleftrightarrow>
     m = Inr (st, c', b') \<and> st \<noteq> ParseProtocol_PartSuccess"
  by (cases m) (auto simp: http_advance_def split: prod.splits if_splits)

lemma parse_body_frame:
  "parse_body c b = Inr (st, c', b') \<Longrightarrow> h_stage c' = h_stage c \<and> b' = b"
  by (auto simp: parse_body_def split: if_splits)

lemma http_step_stage:
  assumes "\<And>c b st c' b'. first_line c b = Inr (st, c', b') \<Longrightarrow> h_stage c' = h_stage c"
    and "http_step first_line c b = Inr (None, c', b')"
  shows "0 \<le> h_stage c \<and> h_stage c < 3 \<and> h_stage c' = h_stage c + 1"
proof -
  consider "h_stage c = 0" | "h_stage c = 1" | "h_stage c = 2" | "h_stage c \<notin> {0, 1, 2}"
    by auto
  then show ?thesis
    using assms(2)
    by cases (auto simp: http_step_def http_advance_None dest: assms(1) parse_headers_stage parse_body_frame)
qed

lemma http_request_step_stage:
  assumes "http_step parse_request_line c b = Inr (None, c', b')"
  shows "0 \<le> h_stage c \<and> h_stage c < 3 \<and> h_stage c' = h_stage c + 1"
  using parse_request_line_stage assms by (rule http_step_stage)

function http_parse_request ::
  "http_ctx \<Rightarrow> buffer \<Rightarrow> (parse_status \<times> http_ctx \<times> buffer) result"
where
  "http_parse_request c b = and_then (http_step parse_request_line c b) (\<lambda>(r, c', b').
     case r of Some st \<Rightarrow> Inr (st, c', b') | None \<Rightarrow> http_parse_request c' b')"
  by pat_completeness auto
termination
  by (relation "measure (\<lambda>(c, b). nat (3 - h_stage c))")
     (auto dest!: http_request_step_stage)

lemma http_response_step_stage:
  assumes "http_step parse_response_line c b = Inr (None, c', b')"
  shows "0 \<le> h_stage c \<and> h_stage c < 3 \<and> h_stage c' = h_stage c + 1"
  using parse_response_line_stage assms by (rule http_step_stage)

function http_parse_response ::
  "http_ctx \<Rightarrow> buffer \<Rightarrow> (parse_status \<times> http_ctx \<times> buffer) result"
where
  "http_parse_response c b = and_then (http_step parse_response_line c b) (\<lambda>(r, c', b').
     case r of Some st \<Rightarrow> Inr (st, c', b') | None \<Rightarrow> http_parse_response c' b')"
  by pat_completeness auto
termination
  by (relation "measure (\<lambda>(c, b). nat (3 - h_stage c))")
     (auto dest!: http_response_step_stage)

declare http_parse_request.simps [simp del] http_parse_response.simps [simp del]

text \<open>\<^verbatim>\<open>pack_request\<close> and \<^verbatim>\<open>pack_response\<close>: the sequence of appends.\<close>

definition connection_line :: "conn_type \<Rightarrow> string" where
  "connection_line t =
     (if t = ConnType_Short then ''Connection: Close'' @ [CR, LF]
      else ''Connection: Keep-Alive'' @ [CR, LF])"

definition http_pack_response :: "http_ctx \<Rightarrow> buffer \<Rightarrow> (bool \<times> buffer) result" where
  "http_pack_response c wr_buf =
     and_then (append_all [''HTTP/1.1 200 OK'' @ [CR, LF], connection_line (conn_type c),
         ''Content-Type: application/data'' @ [CR, LF], ''Content-Length: '',
         to_string (length (payload c)), [CR, LF, CR, LF]] wr_buf)
       (\<lambda>b. Inr (True, append_extra (payload c) b))"

definition http_pack_request :: "http_ctx \<Rightarrow> buffer \<Rightarrow> (bool \<times> buffer) result" where
  "http_pack_request c wr_buf =
     and_then (append_all [''POST /'', service c, ''/'', method_name c, '' HTTP/1.1'' @ [CR, LF],
         connection_line (conn_type c), ''Content-Type: application/data'' @ [CR, LF],
         ''Content-Length: '', to_string (length (payload c)), [CR, LF, CR, LF]] wr_buf)
       (\<lambda>b. Inr (True, append_extra (payload c) b))"

end
