(* ===== verification/Http_Safety.thy ===== *)
theory Http_Safety
  imports Http
begin

text \<open>
  Memory safety of the HTTP parser: whatever bytes a peer sends, the parser reads inside
  the buffer, keeps the buffer's invariant and never moves the read index past the write
  index. The only faults left are the exceptions of \<^verbatim>\<open>std::stoi\<close> on a header value.
\<close>

section \<open>Searches inside the unread bytes\<close>

lemma find_crlf_unread:
  assumes "buf_ok b" and "len \<le> length (unread b)" and "len \<le> 65536"
  shows "find_crlf len b =
    Inr (case index_of_crlf (take len (unread b)) of None \<Rightarrow> -1 | Some k \<Rightarrow> int k)"
proof -
  have "k < 65536" if "index_of_crlf (take len (unread b)) = Some k" for k
    using index_of_crlf_Some_length [OF that] assms(2,3) by simp
  then show ?thesis
    using mem_unread(1) [OF assms(1,2)]
    by (auto simp: find_crlf_def to_int32_small split: option.splits)
qed

lemma to_size_diff: "b \<le> a \<Longrightarrow> a < 2 ^ 64 \<Longrightarrow> to_size (int a - int b) = a - b"
  using to_size_int [of "a - b"] by (simp add: of_nat_diff)

lemma to_size_add2: "k \<le> 65536 \<Longrightarrow> to_size (int k + 2) = k + 2"
  using to_size_int [of "k + 2"] by (simp add: add.commute)

text \<open>The line found in the first 65536 unread bytes.\<close>

lemma line_cases:
  assumes "buf_ok b" and "len = min (readable b) 65536" and "find_crlf len b = Inr n" and "n \<noteq> -1"
  obtains k where "n = int k" "k + 2 \<le> length (unread b)" "k \<le> 65534" "unread b ! k = CR"
proof -
  have len: "len \<le> length (unread b)" "len \<le> 65536"
    using assms(1,2) by (simp_all add: readable_unread)
  from find_crlf_unread [OF assms(1) this] assms(3,4) obtain k where
    k: "n = int k" "index_of_crlf (take len (unread b)) = Some k"
    by (auto split: option.splits)
  from index_of_crlf_SomeD [OF k(2)] len have "Suc k < len" "unread b ! k = CR" by auto
  with len k(1) show thesis by (intro that [of k]) auto
qed

lemma mem_byte_unread:
  assumes "buf_ok b" and "k < length (unread b)"
  shows "mem_byte b (rindex b + k) = Inr (unread b ! k)"
proof -
  have "data b ! (rindex b + k) = unread b ! k"
    using assms by (auto simp: unread_def buf_ok_def)
  then show ?thesis using assms by (auto simp: mem_byte_def in_bounds_def buf_ok_def)
qed

section \<open>Method names\<close>

lemma HTTPMethod_Name_chars: "c \<in> set (HTTPMethod_Name i) \<Longrightarrow> c \<noteq> CR \<and> c \<noteq> NUL \<and> c \<noteq> CHR '' ''"
  by (auto simp: HTTPMethod_Name_def HTTPMethod_names_def nth_Cons split: if_splits nat.splits)

lemma match_method_total:
  "CR \<in> set mem \<Longrightarrow> \<exists>m. match_method mem i = Inr m"
proof (induction mem i rule: match_method.induct)
  case (1 mem i)
  have "CR \<notin> set (HTTPMethod_Name i)" using HTTPMethod_Name_chars by blast
  from strncmp_eq_stop [OF "1.prems" this] obtain eq where
    eq: "strncmp_eq mem (HTTPMethod_Name i) = Inr eq" by blast
  with "1.IH" [OF _ eq] "1.prems" show ?case
    by (subst match_method.simps) auto
qed

lemma match_method_SomeD:
  "match_method mem i = Inr (Some j) \<Longrightarrow>
     i \<le> j \<and> j < HTTPMethod_MAX \<and> take (length (HTTPMethod_Name j)) mem = HTTPMethod_Name j"
proof (induction mem i rule: match_method.induct)
  case (1 mem i)
  have nul: "NUL \<notin> set (HTTPMethod_Name i)" using HTTPMethod_Name_chars by blast
  from "1.prems" obtain eq where i: "i < HTTPMethod_MAX" and
    eq: "strncmp_eq mem (HTTPMethod_Name i) = Inr eq"
    by (subst (asm) match_method.simps) (auto simp: and_then_Inr_iff split: if_splits)
  show ?case
  proof (cases eq)
    case True
    with "1.prems" i eq have "j = i" by (subst (asm) match_method.simps) simp
    with i eq True strncmp_eq_TrueD [OF nul] show ?thesis by simp
  next
    case False
    with "1.prems" i eq have "match_method mem (Suc i) = Inr (Some j)"
      by (subst (asm) match_method.simps) simp
    from "1.IH" [OF i eq False this] show ?thesis by simp
  qed
qed

lemma prefix_before_CR:
  assumes "take (length s) xs = s" and "CR \<notin> set s" and "xs ! k = CR" and "k < length xs"
  shows "length s \<le> k"
proof (rule ccontr)
  assume "\<not> length s \<le> k"
  then have "s ! k = CR" "k < length s" using assms by (metis nth_take not_le)+
  with assms(2) show False by (metis nth_mem)
qed

section \<open>The request line\<close>

lemma parse_service_method_total:
  assumes ok: "buf_ok b" and j: "off + 1 + j \<le> length (unread b)" "0 < j"
    and sp: "unread b ! (off + j) = CHR '' ''"
  shows "\<exists>c'. parse_service_method c b off (rindex b + off + j) = Inr c'"
proof -
  let ?tail = "take j (drop (off + 1) (unread b))"
  have chr: "mem_chr b (rindex b + off + 1) (CHR ''/'') j =
      Inr (map_option (\<lambda>i. rindex b + off + 1 + i) (index_of (CHR ''/'') ?tail))"
    using mem_chr_unread [OF ok, of "off + 1" j] j by (simp add: add.assoc)
  show ?thesis
  proof (cases "index_of (CHR ''/'') ?tail")
    case None
    with chr show ?thesis by (simp add: parse_service_method_def del: index_of_None)
  next
    case (Some i)
    from index_of_SomeD [OF this] j have i: "i < j" "unread b ! (off + 1 + i) = CHR ''/''"
      by auto
    with sp have "i + 1 \<noteq> j" by auto
    with i(1) have i': "i + 2 \<le> j" by simp
    have "rindex b + off + j < 2 ^ 64" using ok j by (auto simp: buf_ok_def)
    then have sz: "to_size (int (rindex b + off + j) - int (rindex b + off + 1 + i) - 1) = j - i - 2"
      using to_size_diff [of "rindex b + off + 2 + i" "rindex b + off + j"] i'
      by (simp add: algebra_simps)
    have "off + 1 + i \<le> length (unread b)" "off + 2 + i + (j - i - 2) \<le> length (unread b)"
      using i' j by auto
    then obtain x y where "mem_read b (rindex b + off + 1) i = Inr x"
      "mem_read b (rindex b + off + 1 + i + 1) (j - i - 2) = Inr y"
      using mem_read_unread [OF ok, of "off + 1" i] mem_read_unread [OF ok, of "off + 2 + i" "j - i - 2"]
      by (simp add: add.assoc)
    with chr Some sz show ?thesis by (simp add: parse_service_method_def)
  qed
qed

lemma parse_version_total:
  assumes ok: "buf_ok b" and k: "off \<le> k" "k + 2 \<le> length (unread b)" "k \<le> 65534"
  shows "\<exists>st c' b'. parse_version c b off (int k) = Inr (st, c', b') \<and> (b' = b \<or> b' = retrieve (k + 2) b)"
proof -
  have "to_size (int k - int off) = k - off" using k to_size_diff by simp
  then show ?thesis
    using mem_chr_unread [OF ok, of off "k - off" "CHR '' ''"] k
    by (auto simp: parse_version_def to_size_add2)
qed

lemma parse_url_total:
  assumes ok: "buf_ok b" and k: "off \<le> k" "k + 2 \<le> length (unread b)" "k \<le> 65534"
  shows "\<exists>st c' b'. parse_url c b off (int k) = Inr (st, c', b') \<and> (b' = b \<or> b' = retrieve (k + 2) b)"
proof -
  have sz: "to_size (int k - int off) = k - off" using k to_size_diff by simp
  have chr: "mem_chr b (rindex b + off) (CHR '' '') (k - off) =
      Inr (map_option (\<lambda>i. rindex b + off + i) (index_of (CHR '' '') (take (k - off) (drop off (unread b)))))"
    using mem_chr_unread [OF ok, of off "k - off"] k by simp
  show ?thesis
  proof (cases "index_of (CHR '' '') (take (k - off) (drop off (unread b)))")
    case None
    with chr sz show ?thesis by (simp add: parse_url_def del: index_of_None)
  next
    case (Some j)
    from index_of_SomeD [OF this] k have j: "off + j < k" "unread b ! (off + j) = CHR '' ''" by auto
    have byte: "mem_byte b (rindex b + off) = Inr (unread b ! off)"
      using mem_byte_unread [OF ok, of off] k by simp
    show ?thesis
    proof (cases "j = 0 \<or> unread b ! off \<noteq> CHR ''/''")
      case True
      with chr sz Some byte show ?thesis by (auto simp: parse_url_def)
    next
      case False
      then have "off + 1 + j \<le> length (unread b)" "0 < j" using j(1) k by auto
      with parse_service_method_total [OF ok this j(2)] obtain c2 where
        "parse_service_method (c\<lparr>http_url := view_at (rindex b + off) j\<rparr>) b off (rindex b + off + j) = Inr c2"
        by blast
      with False chr sz Some byte j(1) parse_version_total [OF ok, of "off + j + 1" k c2] k
      show ?thesis by (simp add: parse_url_def Let_def)
    qed
  qed
qed

lemma parse_request_line_total:
  assumes ok: "buf_ok b"
  shows "\<exists>st c' b'. parse_request_line c b = Inr (st, c', b') \<and>
    (b' = b \<or> (\<exists>k. k + 2 \<le> length (unread b) \<and> b' = retrieve (k + 2) b))"
proof -
  define len where "len = min (readable b) 65536"
  have len: "len \<le> length (unread b)" "len \<le> 65536"
    using ok by (simp_all add: len_def readable_unread)
  from find_crlf_unread [OF ok this] obtain n where n: "find_crlf len b = Inr n" by blast
  show ?thesis
  proof (cases "len = 0 \<or> n = -1")
    case True
    with n show ?thesis
      by (auto simp: parse_request_line_def Let_def MaxHeadlineSize_def simp flip: len_def)
  next
    case False
    then obtain k where k: "n = int k" "k + 2 \<le> length (unread b)" "k \<le> 65534" "unread b ! k = CR"
      using line_cases [OF ok len_def n] by blast
    let ?mem = "drop (rindex b) (data b)"
    have mem: "?mem = unread b @ drop (windex b) (data b)" using ok by (rule data_split)
    have "CR \<in> set ?mem" using k(2,4) mem by (metis UnI1 add_lessD1 less_le_trans nth_mem set_append
        less_add_same_cancel1 zero_less_numeral)
    then obtain m where m: "match_method ?mem HTTPMethod_MIN = Inr m" using match_method_total by blast
    define off where "off = (case m of None \<Rightarrow> 0 | Some i \<Rightarrow> length (HTTPMethod_Name i))"
    have "off \<le> k"
    proof (cases m)
      case (Some i)
      have "?mem ! k = CR" "k < length ?mem" using k(2,4) by (simp_all add: mem nth_append)
      with match_method_SomeD [OF m [unfolded Some]] HTTPMethod_Name_chars show ?thesis
        using Some prefix_before_CR [of "HTTPMethod_Name i" ?mem k] by (auto simp: off_def)
    qed (simp add: off_def)
    then have byte: "mem_byte b (rindex b + off) = Inr (unread b ! off)"
      using mem_byte_unread [OF ok, of off] k(2) by simp
    have off: "off + 1 \<le> k" if "unread b ! off = CHR '' ''"
      using that \<open>off \<le> k\<close> k(4) by (cases "off = k") auto
    from False n m byte show ?thesis
      using parse_url_total [OF ok off k(2,3)] k(1,2)
      by (auto simp: parse_request_line_def Let_def MaxHeadlineSize_def simp flip: len_def off_def) blast+
  qed
qed

section \<open>Headers, body and the whole message\<close>

text \<open>What a safe outcome is: a number a header cannot be converted to, or a buffer that is
  still well formed and of which some bytes have been read.\<close>

definition safe_result :: "buffer \<Rightarrow> ('r \<times> 'c \<times> buffer) result \<Rightarrow> bool" where
  "safe_result b r \<longleftrightarrow>
     (case r of
        Inl e \<Rightarrow> e = InvalidArgument \<or> e = OutOfRange
      | Inr (_, _, b') \<Rightarrow> buf_ok b' \<and> data b' = data b \<and> windex b' = windex b \<and> rindex b \<le> rindex b')"

lemma safe_same [intro]: "buf_ok b \<Longrightarrow> safe_result b (Inr (x, y, b))"
  by (simp add: safe_result_def)

lemma safe_retrieve [intro]:
  "buf_ok b \<Longrightarrow> k \<le> length (unread b) \<Longrightarrow> safe_result b (Inr (x, y, retrieve k b))"
  using retrieve_ok [of b k] by (simp add: safe_result_def)

lemma safe_result_trans:
  "safe_result b (Inr (x, c, b1)) \<Longrightarrow> safe_result b1 r \<Longrightarrow> safe_result b r"
  by (auto simp: safe_result_def split: sum.splits)

lemma safe_result_change:
  "safe_result b (Inr (x, c, b1)) \<Longrightarrow> safe_result b (Inr (x', c', b1))"
  by (simp add: safe_result_def)

lemma stoi_faults: "stoi s = Inl e \<Longrightarrow> e = InvalidArgument \<or> e = OutOfRange"
  by (auto simp: stoi_def Let_def split: if_splits)

lemma store_header_faults:
  "store_header k v c = Inl e \<Longrightarrow> e = InvalidArgument \<or> e = OutOfRange"
  by (auto simp: store_header_def and_then_def Let_def dest: stoi_faults split: if_splits sum.splits)

lemma header_step_safe:
  assumes ok: "buf_ok b"
  shows "safe_result b (header_step c b)"
proof -
  define len where "len = min (readable b) 65536"
  have len: "len \<le> length (unread b)" "len \<le> 65536"
    using ok by (simp_all add: len_def readable_unread)
  from find_crlf_unread [OF ok this] obtain n where n: "find_crlf len b = Inr n" by blast
  note defs = header_step_def Let_def MaxHeadlineSize_def MaxHeaderSize_def
  show ?thesis
  proof (cases "len = 0 \<or> n = -1")
    case True
    with n ok show ?thesis by (auto simp: defs simp flip: len_def)
  next
    case False
    then obtain k where k: "n = int k" "k + 2 \<le> length (unread b)" "k \<le> 65534"
      using line_cases [OF ok len_def n] by blast
    have sz: "to_size (int k) = k" using k(3) by (intro to_size_int) simp
    have chr: "mem_chr b (rindex b) (CHR '':'') k =
        Inr (map_option (\<lambda>i. rindex b + i) (index_of (CHR '':'') (take k (unread b))))"
      using mem_unread(2) [OF ok, of k] k(2) by simp
    show ?thesis
    proof (cases "index_of (CHR '':'') (take k (unread b))")
      case None
      with False n k sz chr ok show ?thesis
        by (auto simp: defs simp del: index_of_None simp flip: len_def)
    next
      case (Some i)
      then have i: "i < k" using index_of_Some_length by fastforce
      have "to_size (int (rindex b) - int (rindex b + i) + int k - 1) = k - i - 1"
        using to_size_diff [of "i + 1" k] i k(3) by (simp add: algebra_simps)
      moreover have "mem_read b (rindex b) i = Inr (take i (unread b))"
        using mem_unread(1) [OF ok, of i] i k(2) by simp
      moreover have "mem_read b (rindex b + i + 1) (k - i - 1) = Inr (take (k - i - 1) (drop (i + 1) (unread b)))"
        using mem_read_unread [OF ok, of "i + 1" "k - i - 1"] i k(2) by (simp add: add.assoc)
      moreover have "safe_result b (and_then (store_header x y c) (\<lambda>c'. Inr (None, c', retrieve (k + 2) b)))"
        for x y
        using safe_retrieve [OF ok k(2)] store_header_faults [of x y c]
        by (cases "store_header x y c") (auto simp: safe_result_def)
      ultimately show ?thesis
        using False n k sz chr Some ok i
        by (auto simp: defs to_size_add2 simp flip: len_def)
    qed
  qed
qed

lemma loop_safe:
  assumes step: "safe_result b (step c b)"
    and rec: "\<And>c' b'. step c b = Inr (None, c', b') \<Longrightarrow> buf_ok b' \<Longrightarrow> safe_result b' (rec c' b')"
  shows "safe_result b (and_then (step c b) (\<lambda>(r, c', b').
     case r of Some st \<Rightarrow> Inr (st, c', b') | None \<Rightarrow> rec c' b'))"
proof (cases "step c b")
  case (Inl e)
  with step show ?thesis by (simp add: safe_result_def)
next
  case (Inr x)
  obtain r c' b' where x: "x = (r, c', b')" by (cases x)
  with step Inr have b': "safe_result b (Inr (r, c', b'))" "buf_ok b'" by (simp_all add: safe_result_def)
  show ?thesis
    using b' rec [of c' b'] Inr x
    by (cases r) (auto intro: safe_result_trans safe_result_change)
qed

lemma parse_headers_safe: "buf_ok b \<Longrightarrow> safe_result b (parse_headers c b)"
proof (induction c b rule: parse_headers.induct)
  case (1 c b)
  then show ?case
    by (subst parse_headers.simps, intro loop_safe header_step_safe) auto
qed

lemma parse_body_safe: "buf_ok b \<Longrightarrow> safe_result b (parse_body c b)"
  by (auto simp: parse_body_def)

lemma parse_request_line_safe: "buf_ok b \<Longrightarrow> safe_result b (parse_request_line c b)"
  using parse_request_line_total [of b c] safe_same safe_retrieve by metis

lemma parse_response_line_safe:
  assumes ok: "buf_ok b"
  shows "safe_result b (parse_response_line c b)"
proof -
  define len where "len = min (readable b) 65536"
  have len: "len \<le> length (unread b)" "len \<le> 65536"
    using ok by (simp_all add: len_def readable_unread)
  from find_crlf_unread [OF ok this] obtain n where n: "find_crlf len b = Inr n" by blast
  show ?thesis
  proof (cases "len = 0 \<or> n = -1")
    case True
    with n ok show ?thesis
      by (auto simp: parse_response_line_def Let_def MaxHeadlineSize_def simp flip: len_def)
  next
    case False
    then obtain k where k: "n = int k" "k + 2 \<le> length (unread b)" "k \<le> 65534"
      using line_cases [OF ok len_def n] by blast
    with False n safe_retrieve [OF ok k(2)] show ?thesis
      by (simp add: parse_response_line_def Let_def MaxHeadlineSize_def to_size_add2 flip: len_def)
  qed
qed

lemma http_advance_safe:
  "safe_result b m \<Longrightarrow> safe_result b (and_then m http_advance)"
  by (auto simp: http_advance_def and_then_def safe_result_def split: sum.splits)

lemma http_step_safe:
  assumes "\<And>c. safe_result b (first_line c b)" and "buf_ok b"
  shows "safe_result b (http_step first_line c b)"
  using assms http_advance_safe [OF assms(1)] http_advance_safe [OF parse_headers_safe [OF assms(2)]]
    http_advance_safe [OF parse_body_safe [OF assms(2)]]
  by (auto simp: http_step_def)

lemma http_parse_request_safe: "buf_ok b \<Longrightarrow> safe_result b (http_parse_request c b)"
proof (induction c b rule: http_parse_request.induct)
  case (1 c b)
  have "safe_result b (http_step parse_request_line c b)"
    using "1.prems" by (intro http_step_safe parse_request_line_safe)
  then show ?case
    by (subst http_parse_request.simps, intro loop_safe) (use "1.IH" in auto)
qed

lemma http_parse_response_safe: "buf_ok b \<Longrightarrow> safe_result b (http_parse_response c b)"
proof (induction c b rule: http_parse_response.induct)
  case (1 c b)
  have "safe_result b (http_step parse_response_line c b)"
    using "1.prems" by (intro http_step_safe parse_response_line_safe)
  then show ?case
    by (subst http_parse_response.simps, intro loop_safe) (use "1.IH" in auto)
qed

end
