(* ===== verification/Http_Roundtrip.thy ===== *)
theory Http_Roundtrip
  imports Http_Safety
begin

text \<open>
  The wire format of HTTP requests and responses and the round trip: what \<^verbatim>\<open>pack_request\<close>
  and \<^verbatim>\<open>pack_response\<close> write, \<^verbatim>\<open>parse_request\<close> and \<^verbatim>\<open>parse_response\<close> read back, with any bytes
  after it left alone.
\<close>

section \<open>One line\<close>

lemma line_front:
  assumes ok: "buf_ok b" and u: "unread b = line @ CR # LF # rest" and "CR \<notin> set line"
    and k: "length line + 2 \<le> 65536"
  shows "min (readable b) 65536 \<noteq> 0"
    and "find_crlf (min (readable b) 65536) b = Inr (int (length line))"
    and "buf_ok (retrieve (length line + 2) b)"
    and "unread (retrieve (length line + 2) b) = rest"
proof -
  let ?len = "min (readable b) 65536"
  have r: "readable b = length (unread b)" using ok by (rule readable_unread)
  have len: "?len \<le> length (unread b)" "?len \<le> 65536" "length line + 2 \<le> ?len"
    using u k by (simp_all add: r)
  then show "?len \<noteq> 0" by simp
  have "index_of_crlf (unread b) = Some (length line)" using assms(3) u by simp
  from index_of_crlf_take [OF this len(3)] find_crlf_unread [OF ok len(1,2)]
  show "find_crlf ?len b = Inr (int (length line))" by simp
  have "length line + 2 \<le> length (unread b)" using u by simp
  from retrieve_ok [OF ok this] u show "buf_ok (retrieve (length line + 2) b)"
    "unread (retrieve (length line + 2) b) = rest" by simp_all
qed

lemma retrieve_add:
  assumes "buf_ok b" and "m + n \<le> length (unread b)"
  shows "retrieve n (retrieve m b) = retrieve (m + n) b"
proof -
  have "rindex b + (m + n) < 2 ^ 64" using assms by (auto simp: buf_ok_def)
  then show ?thesis by (simp add: retrieve_def sz_add_small add.assoc)
qed

section \<open>The request line\<close>

lemma match_method_found:
  assumes "i < HTTPMethod_MAX"
  shows "match_method (HTTPMethod_Name i @ CHR '' '' # xs) HTTPMethod_MIN = Inr (Some i)"
proof -
  have "i \<in> {0, 1, 2, 3, 4, 5, 6, 7}" using assms by (auto simp: HTTPMethod_MAX_def)
  then show ?thesis
    by (auto simp: match_method.simps HTTPMethod_Name_def HTTPMethod_names_def HTTPMethod_MAX_def
        HTTPMethod_MIN_def)
qed

definition plain :: "string \<Rightarrow> bool" where
  "plain s \<longleftrightarrow> CHR '' '' \<notin> set s \<and> CR \<notin> set s"

definition request_line_wire :: "nat \<Rightarrow> string \<Rightarrow> string \<Rightarrow> string \<Rightarrow> string" where
  "request_line_wire i svc mth ver =
     HTTPMethod_Name i @ '' /'' @ svc @ ''/'' @ mth @ '' '' @ ver"

lemma parse_service_method_ok:
  assumes ok: "buf_ok b" and u: "unread b = pre @ ''/'' @ svc @ ''/'' @ mth @ '' '' @ rest"
    and svc: "CHR ''/'' \<notin> set svc"
  shows "parse_service_method c b (length pre) (rindex b + length pre + (length svc + length mth + 2)) =
    Inr (c\<lparr>service := svc, method_name := mth\<rparr>)"
proof -
  let ?off = "length pre" and ?j = "length svc + length mth + 2"
  have chr: "mem_chr b (rindex b + ?off + 1) (CHR ''/'') ?j = Inr (Some (rindex b + ?off + 1 + length svc))"
    using mem_chr_unread [OF ok, of "?off + 1" ?j "CHR ''/''"] u svc by (simp add: add.assoc)
  have s: "mem_read b (rindex b + ?off + 1) (length svc) = Inr svc"
    using mem_read_unread [OF ok, of "?off + 1" "length svc"] u by (simp add: add.assoc)
  have m: "mem_read b (rindex b + ?off + 1 + length svc + 1) (length mth) = Inr mth"
    using mem_read_unread [OF ok, of "?off + 2 + length svc" "length mth"] u by (simp add: add.assoc)
  have "rindex b + ?off + ?j < 2 ^ 64" using ok length_unread [OF ok] u by (auto simp: buf_ok_def)
  then have "to_size (int (rindex b + ?off + ?j) - int (rindex b + ?off + 1 + length svc) - 1) = length mth"
    using to_size_int [of "length mth"] by simp
  with chr s m show ?thesis by (simp add: parse_service_method_def)
qed

lemma parse_url_ok:
  assumes ok: "buf_ok b"
    and u: "unread b = pre @ ''/'' @ svc @ ''/'' @ mth @ '' '' @ ver @ CR # LF # rest"
    and n: "n = length pre + length svc + length mth + length ver + 3" "n + 2 \<le> 65536"
    and sep: "CHR ''/'' \<notin> set svc" "plain svc" "plain mth" "plain ver"
  shows "\<exists>c'. parse_url c b (length pre) (int n) = Inr (ParseProtocol_PartSuccess, c', retrieve (n + 2) b) \<and>
    service c' = svc \<and> method_name c' = mth \<and> conn_type c' = conn_type c \<and> headers c' = headers c \<and>
    body_size c' = body_size c"
proof -
  let ?off = "length pre" and ?j = "length svc + length mth + 2"
  let ?url = "''/'' @ svc @ ''/'' @ mth"
  have sz: "to_size (int n - int ?off) = n - ?off" "to_size (int n - int (?off + ?j + 1)) = length ver"
    using n to_size_diff [of ?off n] to_size_diff [of "?off + ?j + 1" n] by simp_all
  have "drop ?off (unread b) = (?url @ CHR '' '' # ver) @ CR # LF # rest"
    "n - ?off = length (?url @ CHR '' '' # ver)"
    using u n(1) by simp_all
  then have "take (n - ?off) (drop ?off (unread b)) = ?url @ CHR '' '' # ver"
    by (simp only: take_length_append)
  then have "index_of (CHR '' '') (take (n - ?off) (drop ?off (unread b))) = index_of (CHR '' '') (?url @ CHR '' '' # ver)"
    by (simp only:)
  also have "\<dots> = Some (length ?url)" using sep by (intro index_of_append) (auto simp: plain_def)
  finally have chr: "mem_chr b (rindex b + ?off) (CHR '' '') (n - ?off) = Inr (Some (rindex b + ?off + ?j))"
    using mem_chr_unread [OF ok, of ?off "n - ?off"] u n(1) by simp
  have byte: "mem_byte b (rindex b + ?off) = Inr (CHR ''/'')"
    using mem_byte_unread [OF ok, of ?off] u by simp
  have "unread b = (pre @ ?url @ '' '') @ ver @ CR # LF # rest"
    "?off + ?j + 1 = length (pre @ ?url @ '' '')"
    using u by simp_all
  then have "take (length ver) (drop (?off + ?j + 1) (unread b)) = ver"
    by (simp only: take_length_append drop_length_append)
  then have ver: "mem_chr b (rindex b + (?off + ?j + 1)) (CHR '' '') (length ver) = Inr None"
    using mem_chr_unread [OF ok, of "?off + ?j + 1" "length ver" "CHR '' ''"] u sep(4)
    by (simp add: plain_def)
  have sm: "parse_service_method (c\<lparr>http_url := view_at (rindex b + ?off) ?j\<rparr>) b ?off (rindex b + ?off + ?j) =
      Inr (c\<lparr>http_url := view_at (rindex b + ?off) ?j, service := svc, method_name := mth\<rparr>)"
    using parse_service_method_ok [OF ok u sep(1)] by simp
  show ?thesis
    using sz chr byte ver sm n(2) by (simp add: parse_url_def parse_version_def Let_def to_size_add2 add.assoc)
qed

lemma parse_request_line_ok:
  assumes ok: "buf_ok b" and u: "unread b = request_line_wire i svc mth ver @ CR # LF # rest"
    and i: "i < HTTPMethod_MAX" and len: "length (request_line_wire i svc mth ver) + 2 \<le> 65536"
    and sep: "CHR ''/'' \<notin> set svc" "plain svc" "plain mth" "plain ver"
  shows "\<exists>c' b'. parse_request_line c b = Inr (ParseProtocol_PartSuccess, c', b') \<and>
    service c' = svc \<and> method_name c' = mth \<and> conn_type c' = conn_type c \<and> headers c' = headers c \<and>
    body_size c' = body_size c \<and> buf_ok b' \<and> unread b' = rest"
proof -
  let ?name = "HTTPMethod_Name i" and ?n = "length (request_line_wire i svc mth ver)"
  have name: "CR \<notin> set ?name" using HTTPMethod_Name_chars by blast
  with sep have cr: "CR \<notin> set (request_line_wire i svc mth ver)"
    by (auto simp: request_line_wire_def plain_def)
  note line = line_front [OF ok u cr len]
  have "drop (rindex b) (data b) = ?name @ CHR '' '' # drop (Suc (length ?name)) (drop (rindex b) (data b))"
    using data_split [OF ok] u by (simp add: request_line_wire_def)
  then have m: "match_method (drop (rindex b) (data b)) HTTPMethod_MIN = Inr (Some i)"
    using match_method_found [OF i] by metis
  have byte: "mem_byte b (rindex b + length ?name) = Inr (CHR '' '')"
    using mem_byte_unread [OF ok, of "length ?name"] u by (simp add: request_line_wire_def nth_append)
  have "unread b = (?name @ '' '') @ ''/'' @ svc @ ''/'' @ mth @ '' '' @ ver @ CR # LF # rest"
    using u by (simp add: request_line_wire_def)
  moreover have "?n = length (?name @ '' '') + length svc + length mth + length ver + 3"
    by (simp add: request_line_wire_def)
  moreover have "HTTPMethod_IsValid (int i)" using i by (simp add: HTTPMethod_IsValid_def HTTPMethod_MAX_def)
  ultimately show ?thesis
    using parse_url_ok [OF ok _ _ len sep, of "?name @ '' ''" rest "c\<lparr>http_method := int i\<rparr>"] line m byte
    by (fastforce simp: parse_request_line_def Let_def MaxHeadlineSize_def)
qed

section \<open>Headers\<close>

lemma trim_plain: "CHR '' '' \<notin> set s \<Longrightarrow> trim s = s" "CHR '' '' \<notin> set s \<Longrightarrow> trim (CHR '' '' # s) = s"
proof -
  assume s: "CHR '' '' \<notin> set s"
  have "dropWhile (\<lambda>c. c = CHR '' '') xs = xs" if "CHR '' '' \<notin> set xs" for xs
    using that by (cases xs) auto
  with s have "dropWhile (\<lambda>c. c = CHR '' '') s = s" "dropWhile (\<lambda>c. c = CHR '' '') (rev s) = rev s"
    by simp_all
  then show "trim s = s" "trim (CHR '' '' # s) = s" by (simp_all add: trim_def)
qed

lemma header_step_line:
  assumes ok: "buf_ok b" and u: "unread b = key @ CHR '':'' # CHR '' '' # v @ CR # LF # rest"
    and key: "key \<noteq> []" "CHR '':'' \<notin> set key" "plain key" and v: "plain v"
    and len: "length key + length v + 4 \<le> 65536"
  shows "header_step c b = and_then (store_header key v c)
      (\<lambda>c'. Inr (None, c', retrieve (length key + length v + 4) b))"
    and "buf_ok (retrieve (length key + length v + 4) b)"
    and "unread (retrieve (length key + length v + 4) b) = rest"
proof -
  let ?line = "key @ CHR '':'' # CHR '' '' # v" and ?k = "length key + length v + 2"
  have "unread b = ?line @ CR # LF # rest" "CR \<notin> set ?line" "length ?line + 2 \<le> 65536"
    using u key v len by (simp_all add: plain_def)
  note line = line_front [OF ok this]
  have len_eq: "length ?line + 2 = length key + length v + 4" by simp
  from line(3,4) [unfolded len_eq] show "buf_ok (retrieve (length key + length v + 4) b)"
    "unread (retrieve (length key + length v + 4) b) = rest" .
  have "take ?k (unread b) = ?line" using u take_length_append [of ?line "CR # LF # rest"] by simp
  then have chr: "mem_chr b (rindex b) (CHR '':'') ?k = Inr (Some (rindex b + length key))"
    using mem_unread(2) [OF ok, of ?k "CHR '':''"] key(2) u by simp
  have k: "mem_read b (rindex b) (length key) = Inr key"
    using mem_unread(1) [OF ok, of "length key"] u by simp
  have val: "mem_read b (rindex b + length key + 1) (length v + 1) = Inr (CHR '' '' # v)"
    using mem_read_unread [OF ok, of "length key + 1" "length v + 1"] u by (simp add: add.assoc)
  have sz: "to_size (int ?k) = ?k" "to_size (int (length v + 1)) = length v + 1"
    "to_size (int ?k + 2) = length key + length v + 4"
    using len to_size_int [of ?k] to_size_int [of "length v + 1"]
      to_size_int [of "length key + length v + 4"] by (simp_all add: add.commute)
  have "int (rindex b) - int (rindex b + length key) + int ?k - 1 = int (length v + 1)" by simp
  then show "header_step c b = and_then (store_header key v c)
      (\<lambda>c'. Inr (None, c', retrieve (length key + length v + 4) b))"
    using line(1,2) key v chr k val sz
    by (simp add: header_step_def Let_def MaxHeadlineSize_def MaxHeaderSize_def trim_plain plain_def)
      (auto simp: min_def)
qed

lemma parse_headers_line:
  assumes ok: "buf_ok b" and u: "unread b = key @ CHR '':'' # CHR '' '' # v @ CR # LF # rest"
    and key: "key \<noteq> []" "CHR '':'' \<notin> set key" "plain key" and v: "plain v"
    and len: "length key + length v + 4 \<le> 65536"
    and store: "store_header key v c = Inr c'"
  shows "parse_headers c b = parse_headers c' (retrieve (length key + length v + 4) b)"
    and "buf_ok (retrieve (length key + length v + 4) b)"
    and "unread (retrieve (length key + length v + 4) b) = rest"
proof -
  note line = header_step_line [OF ok u key v len]
  show "parse_headers c b = parse_headers c' (retrieve (length key + length v + 4) b)"
    using line(1) [of c] store by (subst parse_headers.simps) simp
  show "buf_ok (retrieve (length key + length v + 4) b)"
    "unread (retrieve (length key + length v + 4) b) = rest" by (rule line)+
qed

lemma parse_headers_end:
  assumes ok: "buf_ok b" and u: "unread b = CR # LF # rest"
  shows "parse_headers c b = Inr (ParseProtocol_PartSuccess, c, retrieve 2 b)"
    and "buf_ok (retrieve 2 b)" and "unread (retrieve 2 b) = rest"
proof -
  have "unread b = [] @ CR # LF # rest" using u by simp
  note line = line_front [OF ok this, simplified]
  from line(3,4) show "buf_ok (retrieve 2 b)" "unread (retrieve 2 b) = rest" by (simp_all add: numeral_2_eq_2)
  have "header_step c b = Inr (Some ParseProtocol_PartSuccess, c, retrieve 2 b)"
    using line(1,2) by (simp add: header_step_def Let_def MaxHeadlineSize_def MaxHeaderSize_def)
  then show "parse_headers c b = Inr (ParseProtocol_PartSuccess, c, retrieve 2 b)"
    by (subst parse_headers.simps) simp
qed

section \<open>The wire format\<close>

definition connection_value :: "conn_type \<Rightarrow> string" where
  "connection_value t = (if t = ConnType_Short then ''Close'' else ''Keep-Alive'')"

definition http_head_wire :: "conn_type \<Rightarrow> nat \<Rightarrow> byte list" where
  "http_head_wire t n =
     ''Connection: '' @ connection_value t @ [CR, LF] @ ''Content-Type: application/data'' @ [CR, LF] @
     ''Content-Length: '' @ to_string n @ [CR, LF, CR, LF]"

definition http_request_wire :: "conn_type \<Rightarrow> string \<Rightarrow> string \<Rightarrow> byte list \<Rightarrow> byte list" where
  "http_request_wire t svc mth pl =
     ''POST /'' @ svc @ ''/'' @ mth @ '' HTTP/1.1'' @ [CR, LF] @ http_head_wire t (length pl) @ pl"

definition http_response_wire :: "conn_type \<Rightarrow> byte list \<Rightarrow> byte list" where
  "http_response_wire t pl =
     ''HTTP/1.1 200 OK'' @ [CR, LF] @ http_head_wire t (length pl) @ pl"

text \<open>A pooled connection is written as keep-alive and read as a single one.\<close>

definition conn_type_read :: "conn_type \<Rightarrow> conn_type \<Rightarrow> conn_type" where
  "conn_type_read before t = (if t = ConnType_Short then before else ConnType_Single)"

lemma to_string_plain: "plain (to_string n)"
  using to_string_digits [of n] not_digit_chars by (auto simp: plain_def)

lemma parse_headers_ok:
  assumes ok: "buf_ok b" and u: "unread b = http_head_wire t n @ rest" and n: "n < 2 ^ 31"
    and c: "headers c = Map.empty"
  shows "\<exists>c' b'. parse_headers c b = Inr (ParseProtocol_PartSuccess, c', b') \<and>
    body_size c' = int n \<and> conn_type c' = conn_type_read (conn_type c) t \<and>
    service c' = service c \<and> method_name c' = method_name c \<and> buf_ok b' \<and> unread b' = rest"
proof -
  define c1 where "c1 = c\<lparr>conn_type := conn_type_read (conn_type c) t,
    headers := [''Connection'' \<mapsto> connection_value t]\<rparr>"
  define c2 where "c2 = c1\<lparr>headers := [''Connection'' \<mapsto> connection_value t, ''Content-Type'' \<mapsto> ''application/data'']\<rparr>"
  define c3 where "c3 = c2\<lparr>body_size := int n, headers := (headers c2)(''Content-Length'' \<mapsto> to_string n)\<rparr>"
  have s1: "store_header ''Connection'' (connection_value t) c = Inr c1"
    using c by (simp add: store_header_def connection_value_def conn_type_read_def c1_def Let_def)
  have s2: "store_header ''Content-Type'' ''application/data'' c1 = Inr c2"
    by (simp add: store_header_def c1_def c2_def Let_def)
  have s3: "store_header ''Content-Length'' (to_string n) c2 = Inr c3"
    using stoi_to_string [OF n] by (simp add: store_header_def c1_def c2_def c3_def Let_def)
  have digits: "length (to_string n) \<le> 10" using n by (intro length_to_string) auto
  have v1: "plain (connection_value t)" "length (connection_value t) \<le> 10"
    by (simp_all add: plain_def connection_value_def)
  have u1: "unread b = ''Connection'' @ CHR '':'' # CHR '' '' # connection_value t @ CR # LF #
      (''Content-Type'' @ CHR '':'' # CHR '' '' # ''application/data'' @ CR # LF #
      (''Content-Length'' @ CHR '':'' # CHR '' '' # to_string n @ CR # LF # (CR # LF # rest)))"
    using u by (simp add: http_head_wire_def)
  have k: "plain ''Connection''" "plain ''Content-Type''" "plain ''Content-Length''" "plain ''application/data''"
    by (simp_all add: plain_def)
  have ne: "''Connection'' \<noteq> []" "''Content-Type'' \<noteq> []" "''Content-Length'' \<noteq> []" by simp_all
  have col: "CHR '':'' \<notin> set ''Connection''" "CHR '':'' \<notin> set ''Content-Type''"
    "CHR '':'' \<notin> set ''Content-Length''" by simp_all
  have b1: "length ''Connection'' + length (connection_value t) + 4 \<le> 65536" using v1(2) by simp
  note l1 = parse_headers_line [OF ok u1 ne(1) col(1) k(1) v1(1) b1 s1]
  have b2: "length ''Content-Type'' + length ''application/data'' + 4 \<le> 65536" by simp
  note l2 = parse_headers_line [OF l1(2,3) ne(2) col(2) k(2,4) b2 s2]
  have b3: "length ''Content-Length'' + length (to_string n) + 4 \<le> 65536" using digits by simp
  note l3 = parse_headers_line [OF l2(2,3) ne(3) col(3) k(3) to_string_plain b3 s3]
  show ?thesis
    using l1(1) l2(1) l3(1) parse_headers_end(1) [OF l3(2,3), of c3]
      parse_headers_end(2,3) [OF l3(2,3)]
    by (simp add: c1_def c2_def c3_def)
qed

section \<open>Body and whole messages\<close>

lemma parse_body_ok:
  assumes ok: "buf_ok b" and u: "unread b = pl @ rest" and "body_size c = int (length pl)"
    and small: "length pl + length rest < 2 ^ 31"
  shows "parse_body c b = Inr (ParseProtocol_PartSuccess, c\<lparr>payload_view := view_at (rindex b) (length pl)\<rparr>, b)"
    and "view_str b (view_at (rindex b) (length pl)) = Inr pl"
proof -
  have "readable b = length pl + length rest" using ok u by (simp add: readable_unread)
  moreover from this small have "to_int32 (int (readable b)) = int (readable b)"
    by (intro to_int32_small) auto
  moreover have "to_size (int (length pl)) = length pl" using small by (intro to_size_int) simp
  ultimately show "parse_body c b =
      Inr (ParseProtocol_PartSuccess, c\<lparr>payload_view := view_at (rindex b) (length pl)\<rparr>, b)"
    using assms(3) by (simp add: parse_body_def)
  show "view_str b (view_at (rindex b) (length pl)) = Inr pl"
    using view_front [OF ok, of "length pl"] u by simp
qed

lemma http_request_loop:
  "http_step parse_request_line c b = Inr (None, c', b') \<Longrightarrow>
     http_parse_request c b = http_parse_request c' b'"
  by (subst http_parse_request.simps) simp

lemma http_response_loop:
  "http_step parse_response_line c b = Inr (None, c', b') \<Longrightarrow>
     http_parse_response c b = http_parse_response c' b'"
  by (subst http_parse_response.simps) simp

lemma http_done:
  "h_stage c = 3 \<Longrightarrow> http_parse_request c b = Inr (ParseProtocol_Success, c, b)"
  "h_stage c = 3 \<Longrightarrow> http_parse_response c b = Inr (ParseProtocol_Success, c, b)"
  by (subst http_parse_request.simps http_parse_response.simps, simp add: http_step_def)+

text \<open>From the second stage on, requests and responses are the same.\<close>

lemma http_rest_ok:
  assumes ok: "buf_ok b" and u: "unread b = http_head_wire t (length pl) @ pl @ rest"
    and small: "length pl + length rest < 2 ^ 31" and c: "h_stage c = 1" "headers c = Map.empty"
  shows "\<exists>c' b'. http_parse_request c b = Inr (ParseProtocol_Success, c', b') \<and>
    http_parse_response c b = Inr (ParseProtocol_Success, c', b') \<and>
    conn_type c' = conn_type_read (conn_type c) t \<and> service c' = service c \<and>
    method_name c' = method_name c \<and> view_str b' (payload_view c') = Inr pl \<and> buf_ok b' \<and>
    unread b' = pl @ rest"
proof -
  have "length pl < 2 ^ 31" using small by simp
  from parse_headers_ok [OF ok u this c(2)] obtain c1 b1 where
    h: "parse_headers c b = Inr (ParseProtocol_PartSuccess, c1, b1)" "body_size c1 = int (length pl)"
      "conn_type c1 = conn_type_read (conn_type c) t" "service c1 = service c"
      "method_name c1 = method_name c" "buf_ok b1" "unread b1 = pl @ rest"
    by blast
  let ?c2 = "c1\<lparr>h_stage := 2\<rparr>"
  let ?c3 = "?c2\<lparr>payload_view := view_at (rindex b1) (length pl), h_stage := 3\<rparr>"
  have stage: "h_stage c1 = 1" using parse_headers_stage [OF h(1)] c(1) by simp
  have 1: "http_step f c b = Inr (None, ?c2, b1)" for f
    using c(1) h(1) stage by (simp add: http_step_def http_advance_def)
  have "body_size ?c2 = int (length pl)" using h(2) by simp
  note body = parse_body_ok [OF h(6,7) this small]
  have 2: "http_step f ?c2 b1 = Inr (None, ?c3, b1)" for f
    using body(1) by (simp add: http_step_def http_advance_def)
  have "http_parse_request c b = Inr (ParseProtocol_Success, ?c3, b1)"
    "http_parse_response c b = Inr (ParseProtocol_Success, ?c3, b1)"
    by (simp_all add: http_request_loop [OF 1] http_request_loop [OF 2] http_response_loop [OF 1]
        http_response_loop [OF 2] http_done)
  then show ?thesis using h body(2) by simp
qed

lemma http_request_parse:
  assumes ok: "buf_ok b" and u: "unread b = http_request_wire t svc mth pl @ rest"
    and sep: "CHR ''/'' \<notin> set svc" "plain svc" "plain mth"
    and len: "length svc + length mth + 18 \<le> 65536" "length pl + length rest < 2 ^ 31"
  shows "\<exists>c' b'. http_parse_request new_http_ctx b = Inr (ParseProtocol_Success, c', b') \<and>
    conn_type c' = conn_type_read ConnType_Short t \<and> service c' = svc \<and> method_name c' = mth \<and>
    view_str b' (payload_view c') = Inr pl \<and> buf_ok b' \<and> unread b' = pl @ rest"
proof -
  let ?head = "http_head_wire t (length pl) @ pl @ rest"
  have name: "HTTPMethod_Name (Suc 0) = ''POST''" "(1 :: nat) < HTTPMethod_MAX"
    by (simp_all add: HTTPMethod_Name_def HTTPMethod_names_def HTTPMethod_MAX_def)
  have u': "unread b = request_line_wire 1 svc mth ''HTTP/1.1'' @ CR # LF # ?head"
    using u by (simp add: http_request_wire_def request_line_wire_def name(1))
  have l: "length (request_line_wire 1 svc mth ''HTTP/1.1'') + 2 \<le> 65536"
    using len(1) by (simp add: request_line_wire_def name(1))
  have ver: "plain ''HTTP/1.1''" by (simp add: plain_def)
  from parse_request_line_ok [OF ok u' name(2) l sep ver, of new_http_ctx] obtain c1 b1 where
    r: "parse_request_line new_http_ctx b = Inr (ParseProtocol_PartSuccess, c1, b1)" "service c1 = svc"
      "method_name c1 = mth" "conn_type c1 = ConnType_Short" "headers c1 = Map.empty" "buf_ok b1"
      "unread b1 = ?head"
    by (auto simp: new_http_ctx_def)
  have "h_stage c1 = 0" using parse_request_line_stage [OF r(1)] by (simp add: new_http_ctx_def)
  with r(1) have "http_step parse_request_line new_http_ctx b = Inr (None, c1\<lparr>h_stage := 1\<rparr>, b1)"
    by (simp add: http_step_def http_advance_def new_http_ctx_def)
  note loop = http_request_loop [OF this]
  have "h_stage (c1\<lparr>h_stage := 1\<rparr>) = 1" "headers (c1\<lparr>h_stage := 1\<rparr>) = Map.empty" using r(5) by simp_all
  from http_rest_ok [OF r(6,7) len(2) this] r(2-4) loop show ?thesis by auto
qed

lemma http_response_parse:
  assumes ok: "buf_ok b" and u: "unread b = http_response_wire t pl @ rest"
    and len: "length pl + length rest < 2 ^ 31" and c: "h_stage c = 0" "headers c = Map.empty"
  shows "\<exists>c' b'. http_parse_response c b = Inr (ParseProtocol_Success, c', b') \<and>
    conn_type c' = conn_type_read (conn_type c) t \<and>
    view_str b' (payload_view c') = Inr pl \<and> buf_ok b' \<and> unread b' = pl @ rest"
proof -
  let ?c1 = "c\<lparr>request_line := view_at (rindex b) 15, h_stage := 1\<rparr>"
  have u': "unread b = ''HTTP/1.1 200 OK'' @ CR # LF # (http_head_wire t (length pl) @ pl @ rest)"
    using u by (simp add: http_response_wire_def)
  have cr: "CR \<notin> set ''HTTP/1.1 200 OK''" "length ''HTTP/1.1 200 OK'' + 2 \<le> 65536" by simp_all
  note line = line_front [OF ok u' cr]
  have "to_size 15 = 15" "to_size 17 = 17" by (simp_all add: to_size_def)
  with line(1,2) c have "http_step parse_response_line c b = Inr (None, ?c1, retrieve 17 b)"
    by (simp add: http_step_def http_advance_def parse_response_line_def Let_def MaxHeadlineSize_def)
  note loop = http_response_loop [OF this]
  have "length ''HTTP/1.1 200 OK'' + 2 = 17" by simp
  note rest = line(3,4) [unfolded this]
  have "h_stage ?c1 = 1" "headers ?c1 = Map.empty" using c by simp_all
  from http_rest_ok [OF rest len this] loop show ?thesis by auto
qed

section \<open>Packing\<close>

lemma http_pack_chunks:
  "connection_line t = ''Connection: '' @ connection_value t @ [CR, LF]"
  by (simp add: connection_line_def connection_value_def)

lemma http_pack_request_ok:
  assumes "buf_ok b" and "extra_index b = 0" and len: "length (payload c) < 2 ^ 31"
    and cap: "32 \<le> length (data b)" "length (service c) \<le> length (data b)"
      "length (method_name c) \<le> length (data b)"
    and "2 * length (data b) < 2 ^ 31"
    and "4 * (windex b + 121 + length (service c) + length (method_name c)) < 2 ^ 31"
  shows "\<exists>b'. http_pack_request c b = Inr (True, b') \<and> buf_ok b' \<and>
    unread b' @ extra_left b' =
      unread b @ http_request_wire (conn_type c) (service c) (method_name c) (payload c)"
proof -
  let ?n = "to_string (length (payload c))"
  let ?ms = "[''POST /'', service c, ''/'', method_name c, '' HTTP/1.1'' @ [CR, LF],
         connection_line (conn_type c), ''Content-Type: application/data'' @ [CR, LF],
         ''Content-Length: '', ?n, [CR, LF, CR, LF]]"
  have n: "length ?n \<le> 10" using len by (intro length_to_string) auto
  have line: "length (connection_line (conn_type c)) \<le> 24" by (simp add: connection_line_def)
  have "\<forall>m \<in> set ?ms. length m \<le> length (data b)" using n line cap by simp
  moreover have "4 * (windex b + length (concat ?ms)) < 2 ^ 31" using assms(8) n line by simp
  moreover have "length (payload c) \<le> max_object" using len by simp
  ultimately show ?thesis
    using pack_chunks_ok [OF assms(1,2) _ _ assms(7), of "payload c" ?ms]
    by (auto simp: http_pack_request_def http_request_wire_def http_head_wire_def http_pack_chunks)
qed

lemma http_pack_response_ok:
  assumes "buf_ok b" and "extra_index b = 0" and len: "length (payload c) < 2 ^ 31"
    and cap: "32 \<le> length (data b)" and "2 * length (data b) < 2 ^ 31"
    and "4 * (windex b + 121) < 2 ^ 31"
  shows "\<exists>b'. http_pack_response c b = Inr (True, b') \<and> buf_ok b' \<and>
    unread b' @ extra_left b' = unread b @ http_response_wire (conn_type c) (payload c)"
proof -
  let ?n = "to_string (length (payload c))"
  let ?ms = "[''HTTP/1.1 200 OK'' @ [CR, LF], connection_line (conn_type c),
         ''Content-Type: application/data'' @ [CR, LF], ''Content-Length: '', ?n, [CR, LF, CR, LF]]"
  have n: "length ?n \<le> 10" using len by (intro length_to_string) auto
  have line: "length (connection_line (conn_type c)) \<le> 24" by (simp add: connection_line_def)
  have "\<forall>m \<in> set ?ms. length m \<le> length (data b)" using n line cap by simp
  moreover have "4 * (windex b + length (concat ?ms)) < 2 ^ 31" using assms(6) n line by simp
  moreover have "length (payload c) \<le> max_object" using len by simp
  ultimately show ?thesis
    using pack_chunks_ok [OF assms(1,2) _ _ assms(5), of "payload c" ?ms]
    by (auto simp: http_pack_response_def http_response_wire_def http_head_wire_def http_pack_chunks)
qed

end
