(* ===== verification/Protocols.thy ===== *)
theory Protocols
  imports Simple Http_Safety Http_Roundtrip
begin

text \<open>
  \<^verbatim>\<open>protocols/protocol.h\<close>: the classes \<^verbatim>\<open>Context\<close> and \<^verbatim>\<open>Protocol\<close> with the virtual functions the two
  protocols override, \<^verbatim>\<open>SimpleProtocol::parse_request\<close>, \<^verbatim>\<open>HTTPProtocol::parse_request\<close>, and the
  loop of \<^verbatim>\<open>PbServer::data_read_callback\<close> that looks for the protocol of a connection. What the
  loop relies on is the locale \<open>protocol_family\<close>, interpreted on the two protocols.
\<close>

section \<open>Contexts of either protocol\<close>

text \<open>A \<^verbatim>\<open>Context*\<close> that is not null points to an object of one of the two classes; a null one
  is \<open>None\<close>. The setters of \<^verbatim>\<open>Context\<close> act on the common part.\<close>

datatype any_ctx = SimpleCtx simple_ctx | HttpCtx http_ctx

fun base_of :: "any_ctx \<Rightarrow> rpc_context" where
  "base_of (SimpleCtx c) = rpc_context.truncate c"
| "base_of (HttpCtx c) = rpc_context.truncate c"

fun on_base :: "(rpc_context \<Rightarrow> rpc_context) \<Rightarrow> any_ctx \<Rightarrow> any_ctx" where
  "on_base f (SimpleCtx c) =
     SimpleCtx (rpc_context.extend (f (rpc_context.truncate c)) (rpc_context.more c))"
| "on_base f (HttpCtx c) =
     HttpCtx (rpc_context.extend (f (rpc_context.truncate c)) (rpc_context.more c))"

lemma base_of_on_base [simp]: "base_of (on_base f c) = f (base_of c)"
  by (cases c) (simp_all add: rpc_context.defs)

definition lift_ctx :: "('c \<Rightarrow> any_ctx) \<Rightarrow> 'r \<times> 'c \<times> buffer \<Rightarrow> ('r \<times> any_ctx \<times> buffer) result" where
  "lift_ctx mk = (\<lambda>(r, c, b). Inr (r, mk c, b))"

fun ctx_parse_request :: "any_ctx \<Rightarrow> buffer \<Rightarrow> (parse_status \<times> any_ctx \<times> buffer) result" where
  "ctx_parse_request (SimpleCtx c) b = and_then (simple_parse_request c b) (lift_ctx SimpleCtx)"
| "ctx_parse_request (HttpCtx c) b = and_then (http_parse_request c b) (lift_ctx HttpCtx)"

fun ctx_parse_response :: "any_ctx \<Rightarrow> buffer \<Rightarrow> (parse_status \<times> any_ctx \<times> buffer) result" where
  "ctx_parse_response (SimpleCtx c) b = and_then (simple_parse_response c b) (lift_ctx SimpleCtx)"
| "ctx_parse_response (HttpCtx c) b = and_then (http_parse_response c b) (lift_ctx HttpCtx)"

fun ctx_pack_request :: "any_ctx \<Rightarrow> buffer \<Rightarrow> (bool \<times> buffer) result" where
  "ctx_pack_request (SimpleCtx c) b = simple_pack_request c b"
| "ctx_pack_request (HttpCtx c) b = http_pack_request c b"

fun ctx_pack_response :: "any_ctx \<Rightarrow> buffer \<Rightarrow> (bool \<times> buffer) result" where
  "ctx_pack_response (SimpleCtx c) b = simple_pack_response c b"
| "ctx_pack_response (HttpCtx c) b = http_pack_response c b"

section \<open>The two protocols\<close>

datatype protocol = SimpleProtocol | HTTPProtocol

fun proto_name :: "protocol \<Rightarrow> string" where
  "proto_name SimpleProtocol = ''simple_proto''"
| "proto_name HTTPProtocol = ''HTTP''"

fun new_context :: "protocol \<Rightarrow> any_ctx" where
  "new_context SimpleProtocol = SimpleCtx new_simple_ctx"
| "new_context HTTPProtocol = HttpCtx new_http_ctx"

definition HTTPMethodMaxLen :: nat where
  "HTTPMethodMaxLen = 7"

text \<open>
  \<^verbatim>\<open>parse_request(Buffer&, Context** ctxx)\<close>: the argument is \<open>None\<close> when \<^verbatim>\<open>ctxx\<close> is null, and the
  second component of the result is \<^verbatim>\<open>*ctxx\<close> afterwards.
\<close>

definition with_ctx :: "any_ctx \<Rightarrow> buffer \<Rightarrow> (parse_status \<times> any_ctx option \<times> buffer) result" where
  "with_ctx c b = and_then (ctx_parse_request c b) (\<lambda>(st, c', b'). Inr (st, Some c', b'))"

definition simple_protocol_parse ::
  "any_ctx option option \<Rightarrow> buffer \<Rightarrow> (parse_status \<times> any_ctx option \<times> buffer) result"
where
  "simple_protocol_parse ctxx rd_buf =
     (case ctxx of
        None \<Rightarrow> Inr (ParseProtocol_Error, None, rd_buf)
      | Some None \<Rightarrow>
          (if readable rd_buf < 4 then Inr (ParseProtocol_NoEnoughData, None, rd_buf)
           else and_then (peek_int32 rd_buf) (\<lambda>magic_num.
             if magic_num \<noteq> MAGIC_NUM then Inr (ParseProtocol_TryAnotherProtocol, None, rd_buf)
             else with_ctx (SimpleCtx new_simple_ctx) rd_buf))
      | Some (Some (SimpleCtx c)) \<Rightarrow> with_ctx (SimpleCtx c) rd_buf
      | Some (Some (HttpCtx c)) \<Rightarrow> Inr (ParseProtocol_Error, Some (HttpCtx c), rd_buf))"

definition http_protocol_parse ::
  "any_ctx option option \<Rightarrow> buffer \<Rightarrow> (parse_status \<times> any_ctx option \<times> buffer) result"
where
  "http_protocol_parse ctxx rd_buf =
     (case ctxx of
        None \<Rightarrow> Inr (ParseProtocol_Error, None, rd_buf)
      | Some None \<Rightarrow>
          (if readable rd_buf < HTTPMethodMaxLen then Inr (ParseProtocol_NoEnoughData, None, rd_buf)
           else and_then (match_method (drop (rindex rd_buf) (data rd_buf)) HTTPMethod_MIN) (\<lambda>m.
             if m = None then Inr (ParseProtocol_TryAnotherProtocol, None, rd_buf)
             else with_ctx (HttpCtx new_http_ctx) rd_buf))
      | Some (Some (HttpCtx c)) \<Rightarrow> with_ctx (HttpCtx c) rd_buf
      | Some (Some (SimpleCtx c)) \<Rightarrow> Inr (ParseProtocol_Error, Some (SimpleCtx c), rd_buf))"

fun protocol_parse ::
  "protocol \<Rightarrow> any_ctx option option \<Rightarrow> buffer \<Rightarrow> (parse_status \<times> any_ctx option \<times> buffer) result"
where
  "protocol_parse SimpleProtocol = simple_protocol_parse"
| "protocol_parse HTTPProtocol = http_protocol_parse"

section \<open>Looking for the protocol\<close>

text \<open>
  The loop over \<^verbatim>\<open>conn->proto_idx\<close>. The result is the index, the last status (\<open>None\<close> when no
  protocol was asked), the context and the buffer.
\<close>

function dispatch ::
  "('p \<Rightarrow> any_ctx option option \<Rightarrow> buffer \<Rightarrow> (parse_status \<times> any_ctx option \<times> buffer) result) \<Rightarrow>
   'p list \<Rightarrow> nat \<Rightarrow> any_ctx option \<Rightarrow> buffer \<Rightarrow>
   (nat \<times> parse_status option \<times> any_ctx option \<times> buffer) result"
where
  "dispatch parse protocols proto_idx ctx rbuf =
     (if proto_idx < length protocols then
        and_then (parse (protocols ! proto_idx) (Some ctx) rbuf) (\<lambda>(res, ctx', rbuf').
          if res = ParseProtocol_TryAnotherProtocol
          then dispatch parse protocols (proto_idx + 1) ctx' rbuf'
          else Inr (proto_idx, Some res, ctx', rbuf'))
      else Inr (proto_idx, None, ctx, rbuf))"
  by pat_completeness auto
termination
  by (relation "measure (\<lambda>(_, protocols, i, _). length protocols - i)") auto

declare dispatch.simps [simp del]

text \<open>The contract of a protocol with the loop.\<close>

locale protocol_family =
  fixes parse :: "'p \<Rightarrow> any_ctx option option \<Rightarrow> buffer \<Rightarrow>
      (parse_status \<times> any_ctx option \<times> buffer) result"
    and need :: "'p \<Rightarrow> nat"
    and claims :: "'p \<Rightarrow> byte list \<Rightarrow> bool"
    and fresh :: "'p \<Rightarrow> any_ctx"
    and owner :: "any_ctx \<Rightarrow> 'p"
  assumes short: "buf_ok b \<Longrightarrow> length (unread b) < need p \<Longrightarrow>
      parse p (Some None) b = Inr (ParseProtocol_NoEnoughData, None, b)"
    and decline: "buf_ok b \<Longrightarrow> need p \<le> length (unread b) \<Longrightarrow> \<not> claims p (unread b) \<Longrightarrow>
      parse p (Some None) b = Inr (ParseProtocol_TryAnotherProtocol, None, b)"
    and accept: "buf_ok b \<Longrightarrow> need p \<le> length (unread b) \<Longrightarrow> claims p (unread b) \<Longrightarrow>
      parse p (Some None) b = parse p (Some (Some (fresh p))) b"
    and fresh: "owner (fresh p) = p"
    and foreign: "owner c \<noteq> p \<Longrightarrow> parse p (Some (Some c)) b = Inr (ParseProtocol_Error, Some c, b)"
    and kept: "owner c = p \<Longrightarrow> parse p (Some (Some c)) b = Inr (st, c', b') \<Longrightarrow>
      st \<noteq> ParseProtocol_TryAnotherProtocol \<and> (\<exists>d. c' = Some d \<and> owner d = p)"
begin

text \<open>Once a connection has a context its protocol is settled.\<close>

lemma settled:
  assumes "i < length ps" and "owner c = ps ! i"
  shows "dispatch parse ps i (Some c) b =
    and_then (parse (ps ! i) (Some (Some c)) b) (\<lambda>(st, c', b'). Inr (i, Some st, c', b'))"
  using assms kept [OF assms(2), of b]
  by (cases "parse (ps ! i) (Some (Some c)) b") (auto simp: dispatch.simps split: prod.splits)

lemma skip_declined:
  assumes "buf_ok b" and "i \<le> j" and "j \<le> length ps"
    and "\<forall>k. i \<le> k \<and> k < j \<longrightarrow> need (ps ! k) \<le> length (unread b) \<and> \<not> claims (ps ! k) (unread b)"
  shows "dispatch parse ps i None b = dispatch parse ps j None b"
  using assms(2-)
proof (induction "j - i" arbitrary: i)
  case (Suc n)
  have i: "i < j" "i < length ps" using Suc.hyps(2) Suc.prems(2) by auto
  with Suc.prems(3) have "parse (ps ! i) (Some None) b = Inr (ParseProtocol_TryAnotherProtocol, None, b)"
    by (intro decline [OF assms(1)]) auto
  with i have "dispatch parse ps i None b = dispatch parse ps (Suc i) None b"
    by (subst dispatch.simps) simp
  also have "\<dots> = dispatch parse ps j None b"
    using Suc.hyps(2) Suc.prems i by (intro Suc.hyps(1)) auto
  finally show ?case .
qed auto

text \<open>The first protocol that claims the bytes gets the connection, whatever protocols that
  decline them come before it.\<close>

lemma finds:
  assumes ok: "buf_ok b" and j: "i \<le> j" "j < length ps"
    and before: "\<forall>k. i \<le> k \<and> k < j \<longrightarrow> need (ps ! k) \<le> length (unread b) \<and> \<not> claims (ps ! k) (unread b)"
    and "need (ps ! j) \<le> length (unread b)" and "claims (ps ! j) (unread b)"
  shows "dispatch parse ps i None b =
    and_then (parse (ps ! j) (Some (Some (fresh (ps ! j)))) b) (\<lambda>(st, c', b'). Inr (j, Some st, c', b'))"
proof -
  have "dispatch parse ps i None b = dispatch parse ps j None b"
    using before j by (intro skip_declined [OF ok]) auto
  also have "\<dots> = dispatch parse ps j (Some (fresh (ps ! j))) b"
    using accept [OF ok assms(5,6)] j by (simp add: dispatch.simps)
  finally show ?thesis using settled [OF j(2) fresh] by simp
qed

lemma waits:
  assumes ok: "buf_ok b" and j: "j < length ps"
    and before: "\<forall>k < j. need (ps ! k) \<le> length (unread b) \<and> \<not> claims (ps ! k) (unread b)"
    and "length (unread b) < need (ps ! j)"
  shows "dispatch parse ps 0 None b = Inr (j, Some ParseProtocol_NoEnoughData, None, b)"
proof -
  have "dispatch parse ps 0 None b = dispatch parse ps j None b"
    using before j by (intro skip_declined [OF ok]) auto
  then show ?thesis using short [OF ok assms(4)] j by (simp add: dispatch.simps)
qed

lemma none_claims:
  assumes ok: "buf_ok b"
    and "\<forall>p \<in> set ps. need p \<le> length (unread b) \<and> \<not> claims p (unread b)"
  shows "dispatch parse ps 0 None b = Inr (length ps, None, None, b)"
proof -
  have "dispatch parse ps 0 None b = dispatch parse ps (length ps) None b"
    using assms by (intro skip_declined [OF ok]) auto
  then show ?thesis by (simp add: dispatch.simps)
qed

end

section \<open>The two protocols meet the contract\<close>

fun proto_need :: "protocol \<Rightarrow> nat" where
  "proto_need SimpleProtocol = 4"
| "proto_need HTTPProtocol = 7"

fun proto_claims :: "protocol \<Rightarrow> byte list \<Rightarrow> bool" where
  "proto_claims SimpleProtocol u \<longleftrightarrow> sint (be_word (take 4 u)) = MAGIC_NUM"
| "proto_claims HTTPProtocol u \<longleftrightarrow>
     (\<exists>i \<in> set [HTTPMethod_MIN..<HTTPMethod_MAX]. take (length (HTTPMethod_Name i)) u = HTTPMethod_Name i)"

fun proto_owner :: "any_ctx \<Rightarrow> protocol" where
  "proto_owner (SimpleCtx c) = SimpleProtocol"
| "proto_owner (HttpCtx c) = HTTPProtocol"

lemma strncmp_eq_take:
  "NUL \<notin> set s \<Longrightarrow> length s \<le> length xs \<Longrightarrow> strncmp_eq xs s = Inr (take (length s) xs = s)"
  by (induction xs s rule: strncmp_eq.induct) auto

lemma HTTPMethod_Name_short: "i < HTTPMethod_MAX \<Longrightarrow> length (HTTPMethod_Name i) \<le> 7"
proof -
  assume "i < HTTPMethod_MAX"
  then have "i \<in> {0, 1, 2, 3, 4, 5, 6, 7}" by (auto simp: HTTPMethod_MAX_def)
  then show ?thesis by (auto simp: HTTPMethod_Name_def HTTPMethod_names_def)
qed

lemma match_method_decides:
  assumes "7 \<le> length xs"
  shows "\<exists>r. match_method xs i = Inr r \<and>
    (r = None \<longleftrightarrow> (\<forall>j. i \<le> j \<and> j < HTTPMethod_MAX \<longrightarrow> take (length (HTTPMethod_Name j)) xs \<noteq> HTTPMethod_Name j))"
  using assms
proof (induction xs i rule: match_method.induct)
  case (1 mem i)
  show ?case
  proof (cases "i < HTTPMethod_MAX")
    case True
    have "NUL \<notin> set (HTTPMethod_Name i)" using HTTPMethod_Name_chars by blast
    then have eq: "strncmp_eq mem (HTTPMethod_Name i) =
        Inr (take (length (HTTPMethod_Name i)) mem = HTTPMethod_Name i)"
      using HTTPMethod_Name_short [OF True] "1.prems" by (intro strncmp_eq_take) auto
    show ?thesis
    proof (cases "take (length (HTTPMethod_Name i)) mem = HTTPMethod_Name i")
      case hit: True
      then show ?thesis using eq True by (subst match_method.simps) (auto intro: exI [of _ "Some i"])
    next
      case False
      let ?miss = "\<lambda>j. take (length (HTTPMethod_Name j)) mem \<noteq> HTTPMethod_Name j"
      have "(\<forall>j. i \<le> j \<and> j < HTTPMethod_MAX \<longrightarrow> ?miss j) \<longleftrightarrow> (\<forall>j. Suc i \<le> j \<and> j < HTTPMethod_MAX \<longrightarrow> ?miss j)"
        using False by (metis Suc_leD Suc_leI le_neq_implies_less)
      moreover have "match_method mem i = match_method mem (Suc i)"
        using eq True False by (subst match_method.simps) simp
      ultimately show ?thesis using "1.IH" [OF True eq False "1.prems"] by simp
    qed
  next
    case False
    then show ?thesis by (subst match_method.simps) auto
  qed
qed

lemma http_claims_match:
  assumes "buf_ok b" and "7 \<le> length (unread b)"
  shows "\<exists>r. match_method (drop (rindex b) (data b)) HTTPMethod_MIN = Inr r \<and>
    (r \<noteq> None \<longleftrightarrow> proto_claims HTTPProtocol (unread b))"
proof -
  let ?xs = "drop (rindex b) (data b)"
  have same: "take (length (HTTPMethod_Name j)) ?xs = take (length (HTTPMethod_Name j)) (unread b)"
    if "j < HTTPMethod_MAX" for j
    using HTTPMethod_Name_short [OF that] assms data_split [OF assms(1)] by simp
  have "7 \<le> length ?xs" using assms data_split [OF assms(1)] by simp
  from match_method_decides [OF this, of HTTPMethod_MIN] same show ?thesis
    by (auto simp: HTTPMethod_MIN_def)
qed

lemma simple_never_declines:
  "simple_parse_request c b = Inr (st, c', b') \<Longrightarrow> st \<noteq> ParseProtocol_TryAnotherProtocol"
proof (induction c b rule: simple_parse_request.induct)
  case (1 c b)
  have step: "st \<noteq> ParseProtocol_TryAnotherProtocol"
    if "simple_request_step c b = Inr (Some st, d, e)" for st d e
    using that by (auto simp: simple_request_step_def and_then_Inr_iff Let_def
        split: if_splits option.splits)
  from "1.prems" obtain r d e where s: "simple_request_step c b = Inr (r, d, e)"
    by (subst (asm) simple_parse_request.simps) (auto simp: and_then_Inr_iff)
  show ?case
  proof (cases r)
    case None
    from s None have "simple_parse_request c b = simple_parse_request d e" by (simp add: simple_request_loop)
    with "1.IH" [OF s refl refl None] "1.prems" show ?thesis by simp
  next
    case (Some st')
    with s step "1.prems" show ?thesis by (simp add: simple_request_return)
  qed
qed

lemma parse_headers_never_declines:
  "parse_headers c b = Inr (st, c', b') \<Longrightarrow> st \<noteq> ParseProtocol_TryAnotherProtocol"
proof (induction c b rule: parse_headers.induct)
  case (1 c b)
  from "1.prems" obtain r d e where s: "header_step c b = Inr (r, d, e)"
    by (subst (asm) parse_headers.simps) (auto simp: and_then_Inr_iff)
  show ?case
  proof (cases r)
    case None
    from s None "1.prems" have "parse_headers d e = Inr (st, c', b')"
      by (subst (asm) parse_headers.simps) simp
    then show ?thesis using "1.IH" [OF s refl refl None] by simp
  next
    case (Some st')
    with s "1.prems" show ?thesis
      by (subst (asm) parse_headers.simps)
         (auto simp: header_step_def Let_def and_then_Inr_iff split: if_splits option.splits)
  qed
qed

lemma http_step_never_declines:
  assumes "http_step parse_request_line c b = Inr (Some st, c', b')"
  shows "st \<noteq> ParseProtocol_TryAnotherProtocol"
proof -
  have "st \<noteq> ParseProtocol_TryAnotherProtocol" if "parse_request_line c b = Inr (st, c', b')"
    using that by (auto simp: parse_request_line_def parse_url_def parse_version_def Let_def
        and_then_Inr_iff split: if_splits option.splits)
  moreover have "st \<noteq> ParseProtocol_TryAnotherProtocol" if "parse_body c b = Inr (st, c', b')"
    using that by (auto simp: parse_body_def split: if_splits)
  ultimately show ?thesis
    using assms by (auto simp: http_step_def http_advance_Some dest: parse_headers_never_declines
        split: if_splits)
qed

lemma http_never_declines:
  "http_parse_request c b = Inr (st, c', b') \<Longrightarrow> st \<noteq> ParseProtocol_TryAnotherProtocol"
proof (induction c b rule: http_parse_request.induct)
  case (1 c b)
  from "1.prems" obtain r d e where s: "http_step parse_request_line c b = Inr (r, d, e)"
    by (subst (asm) http_parse_request.simps) (auto simp: and_then_Inr_iff)
  show ?case
  proof (cases r)
    case None
    from s None have "http_parse_request c b = http_parse_request d e"
      by (simp add: http_request_loop)
    with "1.IH" [OF s refl refl None] "1.prems" show ?thesis by simp
  next
    case (Some st')
    with s "1.prems" have "st = st'" by (subst (asm) http_parse_request.simps) simp
    with s Some show ?thesis by (simp add: http_step_never_declines)
  qed
qed

lemmas protocol_parse_defs = simple_protocol_parse_def http_protocol_parse_def with_ctx_def lift_ctx_def

interpretation family:
  protocol_family protocol_parse proto_need proto_claims new_context proto_owner
proof (unfold_locales, goal_cases)
  case (1 b p)
  then show ?case
    by (cases p) (auto simp: protocol_parse_defs readable_unread HTTPMethodMaxLen_def)
next
  case (2 b p)
  then show ?case
    using http_claims_match [of b]
    by (cases p) (auto simp: protocol_parse_defs readable_unread HTTPMethodMaxLen_def bufq.peek_i)
next
  case (3 b p)
  then show ?case
    using http_claims_match [of b]
    by (cases p) (auto simp: protocol_parse_defs readable_unread HTTPMethodMaxLen_def bufq.peek_i)
next
  case (4 p)
  show ?case by (cases p) simp_all
next
  case (5 c p b)
  then show ?case by (cases p; cases c) (auto simp: protocol_parse_defs)
next
  case (6 c p b st c' b')
  then show ?case
    by (cases c) (auto simp: protocol_parse_defs and_then_Inr_iff
        dest: simple_never_declines http_never_declines)
qed

section \<open>Messages of either protocol\<close>

fun request_wire :: "protocol \<Rightarrow> conn_type \<Rightarrow> string \<Rightarrow> string \<Rightarrow> byte list \<Rightarrow> byte list" where
  "request_wire SimpleProtocol = simple_request_wire"
| "request_wire HTTPProtocol = http_request_wire"

fun response_wire :: "protocol \<Rightarrow> conn_type \<Rightarrow> rpc_status \<Rightarrow> byte list \<Rightarrow> byte list" where
  "response_wire SimpleProtocol ct st pl = simple_response_wire ct st pl"
| "response_wire HTTPProtocol ct st pl = http_response_wire ct pl"

text \<open>The connection type the other side sees: HTTP has no word for a pooled connection.\<close>

fun seen_type :: "protocol \<Rightarrow> conn_type \<Rightarrow> conn_type \<Rightarrow> conn_type" where
  "seen_type SimpleProtocol before ct = ct"
| "seen_type HTTPProtocol before ct = conn_type_read before ct"

fun path_ok :: "protocol \<Rightarrow> string \<Rightarrow> string \<Rightarrow> bool" where
  "path_ok SimpleProtocol svc mth \<longleftrightarrow> CHR ''/'' \<notin> set svc"
| "path_ok HTTPProtocol svc mth \<longleftrightarrow> CHR ''/'' \<notin> set svc \<and> plain svc \<and> plain mth"

definition message_fits :: "string \<Rightarrow> string \<Rightarrow> byte list \<Rightarrow> bool" where
  "message_fits svc mth pl \<longleftrightarrow> length svc + length mth + 18 \<le> 65536 \<and> length pl < 2 ^ 31"

text \<open>A write buffer that has been cleared and is neither tiny nor huge.\<close>

definition pack_room :: "buffer \<Rightarrow> string \<Rightarrow> string \<Rightarrow> bool" where
  "pack_room b svc mth \<longleftrightarrow> buf_ok b \<and> windex b = 0 \<and> rindex b = 0 \<and> extra_index b = 0 \<and>
     32 \<le> length (data b) \<and> length svc \<le> length (data b) \<and> length mth \<le> length (data b) \<and>
     2 * length (data b) < 2 ^ 31"

lemma pack_room_unread: "pack_room b svc mth \<Longrightarrow> unread b = []"
  by (simp add: pack_room_def unread_def)

lemma owner_on_base [simp]: "proto_owner (on_base f c) = proto_owner c"
  by (cases c) simp_all

lemma ctx_pack_request_ok:
  assumes "pack_room b (service (base_of c)) (method_name (base_of c))"
    and "message_fits (service (base_of c)) (method_name (base_of c)) (payload (base_of c))"
  shows "\<exists>b'. ctx_pack_request c b = Inr (True, b') \<and> buf_ok b' \<and>
    unread b' @ extra_left b' = request_wire (proto_owner c) (conn_type (base_of c))
      (service (base_of c)) (method_name (base_of c)) (payload (base_of c))"
proof (cases c)
  case (SimpleCtx x)
  with assms have r: "pack_room b (service x) (method_name x)"
    "message_fits (service x) (method_name x) (payload x)" by (simp_all add: rpc_context.defs)
  then have "\<exists>b'. simple_pack_request x b = Inr (True, b') \<and> buf_ok b' \<and>
    unread b' @ extra_left b' = unread b @
      simple_request_wire (conn_type x) (service x) (method_name x) (payload x)"
    by (intro simple_pack_request_ok) (auto simp: pack_room_def message_fits_def)
  then show ?thesis using SimpleCtx pack_room_unread [OF r(1)] by (simp add: rpc_context.defs)
next
  case (HttpCtx x)
  with assms have r: "pack_room b (service x) (method_name x)"
    "message_fits (service x) (method_name x) (payload x)" by (simp_all add: rpc_context.defs)
  then have "\<exists>b'. http_pack_request x b = Inr (True, b') \<and> buf_ok b' \<and>
    unread b' @ extra_left b' = unread b @
      http_request_wire (conn_type x) (service x) (method_name x) (payload x)"
    by (intro http_pack_request_ok) (auto simp: pack_room_def message_fits_def)
  then show ?thesis using HttpCtx pack_room_unread [OF r(1)] by (simp add: rpc_context.defs)
qed

lemma ctx_pack_response_ok:
  assumes "pack_room b [] []" and "length (payload (base_of c)) < 2 ^ 31"
    and "rpc_status (base_of c) = Some st"
  shows "\<exists>b'. ctx_pack_response c b = Inr (True, b') \<and> buf_ok b' \<and>
    unread b' @ extra_left b' =
      response_wire (proto_owner c) (conn_type (base_of c)) st (payload (base_of c))"
proof (cases c)
  case (SimpleCtx x)
  with assms have "\<exists>b'. simple_pack_response x b = Inr (True, b') \<and> buf_ok b' \<and>
    unread b' @ extra_left b' = unread b @ simple_response_wire (conn_type x) st (payload x)"
    by (intro simple_pack_response_ok) (auto simp: pack_room_def rpc_context.defs)
  then show ?thesis using SimpleCtx pack_room_unread [OF assms(1)] by (simp add: rpc_context.defs)
next
  case (HttpCtx x)
  with assms have "\<exists>b'. http_pack_response x b = Inr (True, b') \<and> buf_ok b' \<and>
    unread b' @ extra_left b' = unread b @ http_response_wire (conn_type x) (payload x)"
    by (intro http_pack_response_ok) (auto simp: pack_room_def rpc_context.defs)
  then show ?thesis using HttpCtx pack_room_unread [OF assms(1)] by (simp add: rpc_context.defs)
qed

text \<open>Packing a response leaves a buffer that, cleared, has room for the next one.\<close>

lemma ctx_pack_response_room:
  assumes r: "ctx_pack_response c b = Inr (ret, b')" and room: "pack_room b [] []"
    and pl: "length (payload (base_of c)) < 2 ^ 31"
  shows "pack_room (clear b') [] []"
proof -
  have "\<exists>ms b1. append_all ms b = Inr b1 \<and> b' = append_extra (payload (base_of c)) b1 \<and> length (concat ms) \<le> 121"
  proof (cases c)
    case (SimpleCtx x)
    then obtain st where "rpc_status x = Some st"
      using r by (cases "rpc_status x") (auto simp: simple_pack_response_def read_rpc_status_def and_then_Inr_iff)
    with SimpleCtx r show ?thesis
      by (intro exI [of _ "[int32_wire MAGIC_NUM, int32_wire (conn_type_num (conn_type x)),
         int32_wire (rpc_status_num st), uint32_wire (length (payload x))]"])
        (auto simp: simple_pack_response_eq and_then_Inr_iff rpc_context.defs)
  next
    case (HttpCtx x)
    have "length (to_string (length (payload x))) \<le> 10"
      using pl HttpCtx by (intro length_to_string) (auto simp: rpc_context.defs)
    moreover have "length (connection_line (conn_type x)) \<le> 24" by (simp add: connection_line_def)
    ultimately show ?thesis using HttpCtx r
      by (intro exI [of _ "[''HTTP/1.1 200 OK'' @ [CR, LF], connection_line (conn_type x),
         ''Content-Type: application/data'' @ [CR, LF], ''Content-Length: '',
         to_string (length (payload x)), [CR, LF, CR, LF]]"])
        (auto simp: http_pack_response_def and_then_Inr_iff rpc_context.defs)
  qed
  then obtain ms b1 where b1: "append_all ms b = Inr b1" "b' = append_extra (payload (base_of c)) b1"
    "length (concat ms) \<le> 121" by blast
  have "buf_ok b1 \<and> length (data b) \<le> length (data b1) \<and> length (data b1) \<le> max (length (data b)) 242 \<and>
      extra_index b1 = extra_index b \<and> extra_data b1 = extra_data b"
    by (rule append_all_bound [OF b1(1)]) (use room b1(3) in \<open>auto simp: pack_room_def\<close>)
  then show ?thesis using room pl b1(2) by (auto simp: pack_room_def clear_def append_extra_def buf_ok_def)
qed

text \<open>The same for a request.\<close>

lemma ctx_pack_request_room:
  assumes r: "ctx_pack_request c b = Inr (ret, b')"
    and room: "pack_room b (service (base_of c)) (method_name (base_of c))"
    and fits: "message_fits (service (base_of c)) (method_name (base_of c)) (payload (base_of c))"
  shows "pack_room (clear b') [] [] \<and> length (data b) \<le> length (data b')"
proof -
  have "\<exists>ms b1. append_all ms b = Inr b1 \<and> b' = append_extra (payload (base_of c)) b1 \<and>
      length (concat ms) \<le> 65536 + 200"
  proof (cases c)
    case (SimpleCtx x)
    with r fits show ?thesis
      by (intro exI [of _ "[int32_wire MAGIC_NUM, int32_wire (conn_type_num (conn_type x)),
         uint32_wire (length (service x) + 1 + length (method_name x)), service x, ''/'', method_name x,
         uint32_wire (length (payload x))]"])
        (auto simp: simple_pack_request_eq and_then_Inr_iff rpc_context.defs message_fits_def)
  next
    case (HttpCtx x)
    have "length (to_string (length (payload x))) \<le> 10"
      using fits HttpCtx by (intro length_to_string) (auto simp: rpc_context.defs message_fits_def)
    moreover have "length (connection_line (conn_type x)) \<le> 24" by (simp add: connection_line_def)
    ultimately show ?thesis using HttpCtx r fits
      by (intro exI [of _ "[''POST /'', service x, ''/'', method_name x, '' HTTP/1.1'' @ [CR, LF],
         connection_line (conn_type x), ''Content-Type: application/data'' @ [CR, LF],
         ''Content-Length: '', to_string (length (payload x)), [CR, LF, CR, LF]]"])
        (auto simp: http_pack_request_def and_then_Inr_iff rpc_context.defs message_fits_def)
  qed
  then obtain ms b1 where b1: "append_all ms b = Inr b1" "b' = append_extra (payload (base_of c)) b1"
    "length (concat ms) \<le> 65536 + 200" by blast
  have "buf_ok b1 \<and> length (data b) \<le> length (data b1) \<and> length (data b1) \<le> max (length (data b)) 131472 \<and>
      extra_index b1 = extra_index b \<and> extra_data b1 = extra_data b"
    by (rule append_all_bound [OF b1(1)]) (use room b1(3) in \<open>auto simp: pack_room_def\<close>)
  then show ?thesis using room fits b1(2)
    by (auto simp: pack_room_def clear_def append_extra_def buf_ok_def message_fits_def)
qed

lemma wire_claims:
  "proto_claims q (request_wire p ct svc mth pl) \<longleftrightarrow> q = p"
  "proto_need q \<le> length (request_wire p ct svc mth pl)"
proof -
  have magic: "sint (be_word (int32_wire MAGIC_NUM)) = MAGIC_NUM"
    using sint_small [OF MAGIC_NUM_range] by (simp add: int32_wire_def)
  have four: "take 4 (int32_wire n @ ys) = int32_wire n" for n and ys :: "byte list"
    using take_length_append [of "int32_wire n" ys] by simp
  have post: "sint (be_word (''POST'')) \<noteq> MAGIC_NUM"
    by (simp add: be_word_def MAGIC_NUM_def)
  have "int32_wire MAGIC_NUM = [CHR 0x19, CHR 0x95, CHR 0x10, CHR 0x28]"
    by (simp add: int32_wire_def be_bytes_def MAGIC_NUM_def char_of_def bit_iff_odd)
  then have other: "take (length (HTTPMethod_Name i)) (int32_wire MAGIC_NUM @ ys) \<noteq> HTTPMethod_Name i"
    if "i < HTTPMethod_MAX" for i ys
  proof -
    have "i \<in> {0, 1, 2, 3, 4, 5, 6, 7}" using that by (auto simp: HTTPMethod_MAX_def)
    then show ?thesis using \<open>int32_wire MAGIC_NUM = _\<close>
      by (auto simp: HTTPMethod_Name_def HTTPMethod_names_def)
  qed
  have "take (length (HTTPMethod_Name 1)) (''POST'' @ ys) = HTTPMethod_Name 1" for ys
    by (simp add: HTTPMethod_Name_def HTTPMethod_names_def)
  moreover have "(1::nat) \<in> set [HTTPMethod_MIN..<HTTPMethod_MAX]"
    by (simp add: HTTPMethod_MIN_def HTTPMethod_MAX_def)
  moreover have "http_request_wire ct svc mth pl = ''POST'' @ drop 4 (http_request_wire ct svc mth pl)"
    by (simp add: http_request_wire_def)
  ultimately have "proto_claims HTTPProtocol (http_request_wire ct svc mth pl)"
    unfolding proto_claims.simps by metis
  moreover have "\<not> proto_claims HTTPProtocol (simple_request_wire ct svc mth pl)"
    using other by (simp add: simple_request_wire_def del: take_append)
  moreover have "proto_claims SimpleProtocol (simple_request_wire ct svc mth pl)"
    using magic by (simp add: simple_request_wire_def four del: take_append)
  moreover have "\<not> proto_claims SimpleProtocol (http_request_wire ct svc mth pl)"
    using post by (simp add: http_request_wire_def)
  ultimately show "proto_claims q (request_wire p ct svc mth pl) \<longleftrightarrow> q = p"
    by (cases p; cases q) (simp_all del: proto_claims.simps)
  show "proto_need q \<le> length (request_wire p ct svc mth pl)"
    by (cases p; cases q) (simp_all add: simple_request_wire_def http_request_wire_def)
qed

text \<open>A request packed for one protocol is recognised by its bytes among the registered
  protocols, in any order of registration, and parsed to what was packed.\<close>

lemma simple_request_frame: "simple_parse_request c b = Inr (st, c', b') \<Longrightarrow> data b' = data b"
proof (induction c b rule: simple_parse_request.induct)
  case (1 c b)
  have step: "data e = data b" if "simple_request_step c b = Inr (r, d, e)" for r d e
    using that by (auto simp: simple_request_step_def and_then_Inr_iff Let_def split: if_splits option.splits)
  from "1.prems" obtain r d e where s: "simple_request_step c b = Inr (r, d, e)"
    by (subst (asm) simple_parse_request.simps) (auto simp: and_then_Inr_iff)
  show ?case
    using "1.prems" s step [OF s] "1.IH" [OF s refl refl]
    by (subst (asm) simple_parse_request.simps) (auto split: option.splits)
qed

lemma request_dispatched:
  assumes ok: "buf_ok b" and u: "unread b = request_wire p ct svc mth pl"
    and j: "i \<le> j" "j < length ps" "ps ! j = p" "\<forall>k. i \<le> k \<and> k < j \<longrightarrow> ps ! k \<noteq> p"
    and path: "path_ok p svc mth" and fits: "message_fits svc mth pl"
  shows "\<exists>c b'. dispatch protocol_parse ps i None b =
      Inr (j, Some ParseProtocol_Success, Some c, b') \<and> proto_owner c = p \<and> buf_ok b' \<and>
    conn_type (base_of c) = seen_type p ConnType_Short ct \<and>
    service (base_of c) = svc \<and> method_name (base_of c) = mth \<and>
    view_str b' (payload_view (base_of c)) = Inr pl \<and> data b' = data b"
proof -
  have d: "dispatch protocol_parse ps i None b =
    and_then (protocol_parse p (Some (Some (new_context p))) b) (\<lambda>(st, c', b'). Inr (j, Some st, c', b'))"
    using family.finds [OF ok j(1,2)] wire_claims [of _ p ct svc mth pl] u j(3,4) by simp
  show ?thesis
  proof (cases p)
    case SimpleProtocol
    then have "unread b = simple_request_wire ct svc mth pl @ []" using u by simp
    from simple_request_parse [OF ok this, of new_simple_ctx] path fits SimpleProtocol
    obtain x e where "simple_parse_request new_simple_ctx b = Inr (ParseProtocol_Success, x, e)"
      "conn_type x = ct \<and> service x = svc \<and> method_name x = mth \<and>
       view_str e (payload_view x) = Inr pl \<and> buf_ok e"
      by (auto simp: message_fits_def new_simple_ctx_def)
    with d SimpleProtocol simple_request_frame [OF this(1)] show ?thesis
      by (simp add: protocol_parse_defs rpc_context.defs)
  next
    case HTTPProtocol
    then have "unread b = http_request_wire ct svc mth pl @ []" using u by simp
    from http_request_parse [OF ok this] path fits HTTPProtocol
    obtain x e where "http_parse_request new_http_ctx b = Inr (ParseProtocol_Success, x, e)"
      "conn_type x = conn_type_read ConnType_Short ct \<and> service x = svc \<and> method_name x = mth \<and>
       view_str e (payload_view x) = Inr pl \<and> buf_ok e"
      by (auto simp: message_fits_def)
    with d HTTPProtocol http_parse_request_safe [OF ok, of new_http_ctx] show ?thesis
      by (simp add: protocol_parse_defs rpc_context.defs safe_result_def)
  qed
qed

text \<open>A response is parsed by the context of the call, whatever the caller has set in it.\<close>

fun unparsed :: "any_ctx \<Rightarrow> bool" where
  "unparsed (SimpleCtx c) \<longleftrightarrow> s_stage c = 0"
| "unparsed (HttpCtx c) \<longleftrightarrow> h_stage c = 0 \<and> headers c = Map.empty"

lemma unparsed_new [simp]: "unparsed (new_context p)"
  by (cases p) (simp_all add: new_simple_ctx_def new_http_ctx_def)

lemma extend_truncate:
  fixes x :: simple_ctx and y :: http_ctx
  shows "s_stage (rpc_context.extend u (rpc_context.more x)) = s_stage x"
    and "h_stage (rpc_context.extend u (rpc_context.more y)) = h_stage y"
    and "headers (rpc_context.extend u (rpc_context.more y)) = headers y"
  by (cases x; cases y; simp add: rpc_context.defs)+

lemma unparsed_on_base [simp]: "unparsed (on_base f c) = unparsed c"
  by (cases c) (simp_all add: extend_truncate)

lemma simple_response_frame: "simple_parse_response c b = Inr (st, c', b') \<Longrightarrow> data b' = data b"
proof (induction c b rule: simple_parse_response.induct)
  case (1 c b)
  have step: "data e = data b" if "simple_response_step c b = Inr (r, d, e)" for r d e
    using that by (auto simp: simple_response_step_def and_then_Inr_iff Let_def split: if_splits option.splits)
  from "1.prems" obtain r d e where s: "simple_response_step c b = Inr (r, d, e)"
    by (subst (asm) simple_parse_response.simps) (auto simp: and_then_Inr_iff)
  show ?case
    using "1.prems" s step [OF s] "1.IH" [OF s refl refl]
    by (subst (asm) simple_parse_response.simps) (auto split: option.splits)
qed

lemma response_parsed:
  assumes ok: "buf_ok b" and u: "unread b = response_wire (proto_owner c) ct st pl"
    and len: "length pl < 2 ^ 31" and c: "unparsed c"
  shows "\<exists>c' b'. ctx_parse_response c b = Inr (ParseProtocol_Success, c', b') \<and> buf_ok b' \<and>
    proto_owner c' = proto_owner c \<and>
    conn_type (base_of c') = seen_type (proto_owner c) (conn_type (base_of c)) ct \<and>
    view_str b' (payload_view (base_of c')) = Inr pl \<and> data b' = data b"
proof (cases c)
  case (SimpleCtx x)
  then have "unread b = simple_response_wire ct st pl @ []" using u by simp
  from simple_response_parse [OF ok this, of x] c len SimpleCtx
  obtain y e where "simple_parse_response x b = Inr (ParseProtocol_Success, y, e)"
    "conn_type y = ct \<and> view_str e (payload_view y) = Inr pl \<and> buf_ok e" by auto
  with simple_response_frame [OF this(1)] show ?thesis using SimpleCtx by (simp add: lift_ctx_def rpc_context.defs)
next
  case (HttpCtx x)
  then have "unread b = http_response_wire ct pl @ []" using u by simp
  from http_response_parse [OF ok this _, of x] c len HttpCtx
  obtain y e where "http_parse_response x b = Inr (ParseProtocol_Success, y, e)"
    "conn_type y = conn_type_read (conn_type x) ct \<and> view_str e (payload_view y) = Inr pl \<and> buf_ok e"
    by auto
  with http_parse_response_safe [OF ok, of x] show ?thesis using HttpCtx
    by (simp add: lift_ctx_def rpc_context.defs safe_result_def)
qed

end
