(* ===== verification/Connections.thy ===== *)
theory Connections
  imports Event_Loops Protocols
begin

text \<open>
  \<^verbatim>\<open>net/tcpconnection.h\<close>, \<^verbatim>\<open>net/tcpconnection.cpp\<close>: a connection is a channel with two buffers, the
  context of the call being received, and four callbacks. A callback is called last in
  \<^verbatim>\<open>handle_events\<close>, so the function returns the one to call.
\<close>

section \<open>TCPConnection\<close>

record 'cb tcp_connection = channel +
  proto_idx :: nat
  conn_ts :: timestamp
  timer_id :: int
  connected :: bool
  ctx :: "any_ctx option"
  client_conn_cb :: "'cb option"
  data_read_cb :: "'cb option"
  write_complete_cb :: "'cb option"
  close_cb :: "'cb option"
  rbuf :: buffer
  wbuf :: buffer

definition new_tcp_connection ::
  "int \<Rightarrow> nat option \<Rightarrow> bool \<Rightarrow> timestamp \<Rightarrow> 'cb tcp_connection"
where
  "new_tcp_connection conn e is_connected now =
     \<lparr>fd = conn, event = 0, sevent = 0, el = e, proto_idx = 0, conn_ts = now, timer_id = 0,
      connected = is_connected, ctx = None, client_conn_cb = None, data_read_cb = None,
      write_complete_cb = None, close_cb = None, rbuf = new_buffer InitialBufferSize,
      wbuf = new_buffer InitialBufferSize\<rparr>"

definition set_data_read_callback :: "'cb \<Rightarrow> 'cb tcp_connection \<Rightarrow> 'cb tcp_connection" where
  "set_data_read_callback cb c = c\<lparr>data_read_cb := Some cb\<rparr>"

definition set_write_complete_callback :: "'cb \<Rightarrow> 'cb tcp_connection \<Rightarrow> 'cb tcp_connection" where
  "set_write_complete_callback cb c = c\<lparr>write_complete_cb := Some cb\<rparr>"

definition set_close_callback :: "'cb \<Rightarrow> 'cb tcp_connection \<Rightarrow> 'cb tcp_connection" where
  "set_close_callback cb c = c\<lparr>close_cb := Some cb\<rparr>"

definition set_client_conn_callback :: "'cb \<Rightarrow> 'cb tcp_connection \<Rightarrow> 'cb tcp_connection" where
  "set_client_conn_callback cb c = c\<lparr>client_conn_cb := Some cb\<rparr>"

lemmas setter_defs = set_data_read_callback_def set_write_complete_callback_def set_close_callback_def
  set_client_conn_callback_def

text \<open>\<^verbatim>\<open>handle_events\<close>: the connection, the bytes handed to the kernel, and the callback to call.\<close>

definition tcp_handle_events ::
  "32 word \<Rightarrow> read_answer \<Rightarrow> write_answer \<Rightarrow> write_answer \<Rightarrow> 'cb tcp_connection \<Rightarrow>
   ('cb tcp_connection \<times> byte list \<times> 'cb option) result"
where
  "tcp_handle_events events ra wa1 wa2 c =
     (if events AND EPOLLIN \<noteq> 0 then
        and_then (read_fd ra (rbuf c)) (\<lambda>(n, b).
          let c1 = c\<lparr>rbuf := b\<rparr> in
          if n = 0 then Inr (c1, [], close_cb c1) else Inr (c1, [], data_read_cb c1))
      else if events AND EPOLLOUT \<noteq> 0 then
        if connected c then
          and_then (write_fd wa1 wa2 (wbuf c)) (\<lambda>(n, b, out).
            let c1 = c\<lparr>wbuf := b\<rparr> in
            if readable b = 0 then Inr (c1, out, write_complete_cb c1) else Inr (c1, out, None))
        else Inr (c, [], client_conn_cb c)
      else Inr (c, [], None))"

text \<open>\<^verbatim>\<open>timer_id.fetch_add(1)\<close> on an atomic \<^verbatim>\<open>int\<close>, which wraps.\<close>

definition bump_timer :: "'cb tcp_connection \<Rightarrow> 'cb tcp_connection" where
  "bump_timer c = c\<lparr>timer_id := to_int32 (timer_id c + 1)\<rparr>"

text \<open>The part of a connection that \<^verbatim>\<open>handle_events\<close> does not touch.\<close>

definition same_but_buffers :: "'cb tcp_connection \<Rightarrow> 'cb tcp_connection \<Rightarrow> bool" where
  "same_but_buffers c d \<longleftrightarrow> d = c\<lparr>rbuf := rbuf d, wbuf := wbuf d\<rparr>"

lemma tcp_handle_events_frame:
  assumes "tcp_handle_events events ra wa1 wa2 c = Inr (d, out, cb)"
  shows "same_but_buffers c d"
proof -
  have "\<exists>x y. d = c\<lparr>rbuf := x, wbuf := y\<rparr>"
  proof (cases "events AND EPOLLIN \<noteq> 0")
    case True
    with assms obtain x where "d = c\<lparr>rbuf := x\<rparr>"
      by (auto simp: tcp_handle_events_def and_then_Inr_iff Let_def split: if_splits)
    then have "d = c\<lparr>rbuf := x, wbuf := wbuf c\<rparr>" by simp
    then show ?thesis by blast
  next
    case False
    with assms consider "d = c" | y where "d = c\<lparr>wbuf := y\<rparr>"
      by (auto simp: tcp_handle_events_def and_then_Inr_iff Let_def split: if_splits)
    then show ?thesis
    proof cases
      case 1
      then have "d = c\<lparr>rbuf := rbuf c, wbuf := wbuf c\<rparr>" by simp
      then show ?thesis by blast
    next
      case (2 y)
      then have "d = c\<lparr>rbuf := rbuf c, wbuf := y\<rparr>" by simp
      then show ?thesis by blast
    qed
  qed
  then show ?thesis by (auto simp: same_but_buffers_def)
qed

lemma same_but_buffersD:
  assumes "same_but_buffers c d"
  shows "fd d = fd c" "event d = event c" "sevent d = sevent c" "el d = el c"
    "proto_idx d = proto_idx c" "conn_ts d = conn_ts c" "timer_id d = timer_id c"
    "connected d = connected c" "ctx d = ctx c" "data_read_cb d = data_read_cb c"
    "write_complete_cb d = write_complete_cb c" "close_cb d = close_cb c"
    "client_conn_cb d = client_conn_cb c"
  by (subst assms [unfolded same_but_buffers_def], simp)+

text \<open>Data that arrives is put behind the unread bytes, then parsed; the end of the stream
  closes the connection.\<close>

lemma handle_events_data:
  assumes "events AND EPOLLIN \<noteq> 0" and "buf_ok (rbuf c)" and "2 * length (data (rbuf c)) \<le> max_object"
    and "0 < length (data (rbuf c))" and "bs \<noteq> []"
  shows "\<exists>b n. tcp_handle_events events (Pending bs) wa1 wa2 c = Inr (c\<lparr>rbuf := b\<rparr>, [], data_read_cb c) \<and>
    buf_ok b \<and> 0 < n \<and> unread b = unread (rbuf c) @ take n bs"
  using read_fd_ok [of "rbuf c" bs] assms
  by (auto simp: tcp_handle_events_def)

text \<open>
  When the kernel takes all of \<^verbatim>\<open>_wbuf\<close>'s own bytes, the write-complete callback is called, however
  much of the extra data is left.
\<close>

lemma handle_events_writable:
  assumes "events AND EPOLLIN = 0" and "events AND EPOLLOUT \<noteq> 0" and "connected c"
    and "buf_ok (wbuf c)" and "readable (wbuf c) \<le> k"
  shows "\<exists>b out. tcp_handle_events events ra (Room k) (Room j) c =
      Inr (c\<lparr>wbuf := b\<rparr>, out, write_complete_cb c) \<and>
    buf_ok b \<and> out @ extra_left b = unread (wbuf c) @ extra_left (wbuf c) \<and>
    length (extra_left b) = length (extra_left (wbuf c)) - j"
proof -
  from write_fd_ok [OF assms(4,5), of j] obtain n b out where w:
    "write_fd (Room k) (Room j) (wbuf c) = Inr (int n, b, out)" "buf_ok b"
    "out @ extra_left b = unread (wbuf c) @ extra_left (wbuf c)" "unread b = []"
    "length (extra_left b) = length (extra_left (wbuf c)) - j" by blast
  then have "readable b = 0" by (simp add: readable_unread)
  with w(1) assms(1-3) have "tcp_handle_events events ra (Room k) (Room j) c =
      Inr (c\<lparr>wbuf := b\<rparr>, out, write_complete_cb c)"
    by (simp add: tcp_handle_events_def)
  with w show ?thesis by blast
qed

text \<open>A connection that is not interested in the event ignores it.\<close>

lemma handle_events_other:
  assumes "events AND EPOLLIN = 0" and "events AND EPOLLOUT = 0"
  shows "tcp_handle_events events ra wa1 wa2 c = Inr (c, [], None)"
  using assms by (simp add: tcp_handle_events_def)

end
