(* ===== verification/Servers.thy ===== *)
theory Servers
  imports Prelude "HOL-Library.Multiset"
begin

text \<open>
  \<^verbatim>\<open>net/tcpserver.h\<close>, \<^verbatim>\<open>net/tcpserver.cpp\<close>: the pool of event loops of a server, its threads, and
  the choice of the loop of a new connection. Loop 0 is \<^verbatim>\<open>_el\<close>, loop \<open>k + 1\<close> is \<^verbatim>\<open>_sub_els[k]\<close>.
\<close>

section \<open>TCPServer\<close>

text \<open>\<open>sub_els\<close> is the number of loops in the array, \<open>None\<close> when \<^verbatim>\<open>_sub_els\<close> is null; of a thread
  the model keeps whether it is joinable.\<close>

record tcp_server =
  thread_num :: int
  main_joinable :: bool
  next_el :: int
  sub_els :: "nat option"
  sub_threads :: "bool list"

definition MaxThreadNum :: int where
  "MaxThreadNum = 144"

definition new_tcp_server :: tcp_server where
  "new_tcp_server = \<lparr>thread_num = 0, main_joinable = False, next_el = -1, sub_els = None,
     sub_threads = []\<rparr>"

definition set_thread_num :: "int \<Rightarrow> 's tcp_server_scheme \<Rightarrow> 's tcp_server_scheme" where
  "set_thread_num n s =
     (let s1 = s\<lparr>thread_num := n\<rparr>;
          s2 = (if thread_num s1 > MaxThreadNum then s1\<lparr>thread_num := MaxThreadNum\<rparr> else s1)
      in if thread_num s2 < 0 then s2\<lparr>thread_num := 0\<rparr> else s2)"

text \<open>\<^verbatim>\<open>start\<close>. Assigning to a \<^verbatim>\<open>std::thread\<close> that is joinable calls \<^verbatim>\<open>std::terminate\<close>.\<close>

definition start_server :: "'s tcp_server_scheme \<Rightarrow> 's tcp_server_scheme result" where
  "start_server s =
     (let s1 = (if thread_num s > 0 then
          s\<lparr>sub_els := Some (nat (thread_num s)),
            sub_threads := sub_threads s @ replicate (nat (thread_num s)) True, next_el := 0\<rparr>
        else s)
      in if main_joinable s1 then Inl Aborted else Inr (s1\<lparr>main_joinable := True\<rparr>))"

text \<open>
  The loop of \<^verbatim>\<open>stop\<close> from \<open>i\<close> on: \<^verbatim>\<open>_sub_els[i].stop()\<close>, then \<^verbatim>\<open>_sub_reactor_threads[i].join()\<close>,
  which throws when the thread is not joinable. The result is the numbers of the loops that
  were stopped, in order. A \<^verbatim>\<open>join\<close> is taken to return.
\<close>

function stop_subs :: "nat \<Rightarrow> int \<Rightarrow> nat \<Rightarrow> bool list \<Rightarrow> (nat list \<times> bool list) result" where
  "stop_subs els_len n i threads =
     (if int i < n then
        if i < els_len \<and> i < length threads then
          if threads ! i then
            and_then (stop_subs els_len n (i + 1) (threads[i := False])) (\<lambda>(stopped, threads').
              Inr (Suc i # stopped, threads'))
          else Inl Aborted
        else Inl OutOfBounds
      else Inr ([], threads))"
  by pat_completeness auto
termination
  by (relation "measure (\<lambda>(_, n, i, _). nat (n - int i))") auto

declare stop_subs.simps [simp del]

definition stop_server :: "'s tcp_server_scheme \<Rightarrow> (nat list \<times> 's tcp_server_scheme) result" where
  "stop_server s =
     and_then
       (case sub_els s of
          None \<Rightarrow> Inr ([], s)
        | Some k \<Rightarrow> and_then (stop_subs k (thread_num s) 0 (sub_threads s)) (\<lambda>(stopped, ths).
            Inr (stopped, s\<lparr>sub_threads := ths, sub_els := None\<rparr>)))
       (\<lambda>(stopped, s1). Inr (stopped @ [0], s1\<lparr>main_joinable := False\<rparr>))"

text \<open>\<^verbatim>\<open>_get_next_el\<close>: \<^verbatim>\<open>%\<close> by zero is undefined, as is an index past the array.\<close>

definition get_next_el :: "'s tcp_server_scheme \<Rightarrow> (nat \<times> 's tcp_server_scheme) result" where
  "get_next_el s =
     (if next_el s = -1 then Inr (0, s)
      else if thread_num s = 0 then Inl DivideByZero
      else
        let n = c_mod (to_int32 (next_el s + 1)) (thread_num s) in
        case sub_els s of
          None \<Rightarrow> Inl NullDeref
        | Some k \<Rightarrow> if 0 \<le> n \<and> nat n < k then Inr (Suc (nat n), s\<lparr>next_el := n\<rparr>) else Inl OutOfBounds)"

section \<open>A pool that has been started\<close>

definition pool_ok :: "'s tcp_server_scheme \<Rightarrow> bool" where
  "pool_ok s \<longleftrightarrow> 0 \<le> thread_num s \<and> thread_num s \<le> MaxThreadNum \<and>
     (if thread_num s = 0 then next_el s = -1
      else 0 \<le> next_el s \<and> next_el s < thread_num s \<and> sub_els s = Some (nat (thread_num s)))"

lemma set_thread_num_range: "0 \<le> thread_num (set_thread_num n s) \<and> thread_num (set_thread_num n s) \<le> 144"
  by (simp add: set_thread_num_def Let_def MaxThreadNum_def)

lemma set_thread_num_exact: "0 \<le> n \<Longrightarrow> n \<le> 144 \<Longrightarrow> thread_num (set_thread_num n s) = n"
  by (simp add: set_thread_num_def Let_def MaxThreadNum_def)

lemma start_pool_ok:
  assumes "0 \<le> thread_num s" and "thread_num s \<le> MaxThreadNum" and "next_el s = -1"
    and "start_server s = Inr s'"
  shows "pool_ok s'"
  using assms by (auto simp: start_server_def pool_ok_def Let_def split: if_splits)

lemma get_next_el_step:
  assumes "pool_ok s" and "0 < thread_num s"
  shows "get_next_el s = Inr (Suc (nat ((next_el s + 1) mod thread_num s)),
    s\<lparr>next_el := (next_el s + 1) mod thread_num s\<rparr>)"
proof -
  have r: "0 \<le> next_el s" "next_el s < thread_num s" "thread_num s \<le> 144"
    "sub_els s = Some (nat (thread_num s))"
    using assms by (auto simp: pool_ok_def MaxThreadNum_def)
  then have "to_int32 (next_el s + 1) = next_el s + 1" by (intro to_int32_small) auto
  with r assms(2) show ?thesis
    by (simp add: get_next_el_def Let_def c_mod_nonneg nat_less_iff)
qed

text \<open>The choice of a loop never fails and keeps the pool in order; the loop exists.\<close>

lemma get_next_el_ok:
  assumes "pool_ok s"
  shows "\<exists>i s'. get_next_el s = Inr (i, s') \<and> pool_ok s' \<and> int i \<le> thread_num s \<and>
    s' = s\<lparr>next_el := next_el s'\<rparr> \<and> (i = 0 \<longleftrightarrow> thread_num s = 0)"
proof (cases "thread_num s = 0")
  case True
  with assms show ?thesis by (simp add: pool_ok_def get_next_el_def)
next
  case False
  with assms have pos: "0 < thread_num s" by (simp add: pool_ok_def)
  let ?n = "(next_el s + 1) mod thread_num s"
  have n: "0 \<le> ?n" "?n < thread_num s" using pos by simp_all
  have "pool_ok (s\<lparr>next_el := ?n\<rparr>)" using assms n pos by (simp add: pool_ok_def)
  moreover have "int (Suc (nat ?n)) \<le> thread_num s" using n by simp
  ultimately show ?thesis using get_next_el_step [OF assms pos] False by auto
qed

section \<open>Round robin\<close>

text \<open>The loops of a sequence of new connections.\<close>

fun assign_loops :: "nat \<Rightarrow> 's tcp_server_scheme \<Rightarrow> (nat list \<times> 's tcp_server_scheme) result" where
  "assign_loops 0 s = Inr ([], s)"
| "assign_loops (Suc m) s = and_then (get_next_el s) (\<lambda>(i, s1).
     and_then (assign_loops m s1) (\<lambda>(is, s2). Inr (i # is, s2)))"

lemma assign_loops_eq:
  assumes "pool_ok s" and "0 < thread_num s"
  shows "\<exists>s'. assign_loops m s =
    Inr (map (\<lambda>j. Suc (nat ((next_el s + 1 + int j) mod thread_num s))) [0..<m], s')"
  using assms
proof (induction m arbitrary: s)
  case (Suc m)
  let ?n = "(next_el s + 1) mod thread_num s"
  let ?s = "s\<lparr>next_el := ?n\<rparr>"
  note step = get_next_el_step [OF Suc.prems]
  have "pool_ok ?s" "0 < thread_num ?s" using Suc.prems by (auto simp: pool_ok_def)
  from Suc.IH [OF this] obtain s' where "assign_loops m ?s =
    Inr (map (\<lambda>j. Suc (nat ((?n + 1 + int j) mod thread_num s))) [0..<m], s')" by auto
  moreover have "(?n + 1 + int j) mod thread_num s = (next_el s + 1 + int (Suc j)) mod thread_num s" for j
    by (metis (no_types, opaque_lifting) add.assoc mod_add_left_eq of_nat_Suc)
  ultimately show ?case using step by (simp add: map_upt_Suc del: upt_Suc)
qed simp

text \<open>As many connections as there are loops: each loop gets one.\<close>

lemma shifted_residues:
  assumes "0 < (n :: nat)"
  shows "distinct (map (\<lambda>j. (a + j) mod n) [0..<n]) \<and> set (map (\<lambda>j. (a + j) mod n) [0..<n]) = {0..<n}"
proof -
  have "inj_on (\<lambda>j. (a + j) mod n) {0..<n}"
  proof (rule inj_onI)
    fix x y assume xy: "x \<in> {0..<n}" "y \<in> {0..<n}" "(a + x) mod n = (a + y) mod n"
    have "n dvd u - v" if "v \<le> u" "(a + u) mod n = (a + v) mod n" for u v
      using that mod_eq_dvd_iff_nat [of "a + v" "a + u" n] by simp
    with xy have "n dvd x - y" "n dvd y - x"
      by (cases "x \<le> y"; force)+
    with xy show "x = y" by (auto dest!: dvd_imp_le)
  qed
  moreover from this have "(\<lambda>j. (a + j) mod n) ` {0..<n} = {0..<n}"
    by (intro endo_inj_surj) (use assms in auto)
  ultimately show ?thesis by (simp add: distinct_map)
qed

text \<open>After \<open>thread_num\<close> connections every loop has got exactly one.\<close>

text \<open>A full turn of the choice of loops gives each sub reactor exactly one
  connection.\<close>

lemma assign_loops_fair:
  assumes "pool_ok s" and "0 < thread_num s" and m: "m = nat (thread_num s)"
  shows "\<exists>is s'. assign_loops m s = Inr (is, s') \<and> mset is = mset [1..<Suc m]"
proof -
  define a where "a = nat (next_el s + 1)"
  have "(next_el s + 1 + int j) mod thread_num s = int ((a + j) mod m)" for j
    using assms by (auto simp: a_def m pool_ok_def zmod_int)
  then have eq: "map (\<lambda>j. Suc (nat ((next_el s + 1 + int j) mod thread_num s))) [0..<m] =
      map Suc (map (\<lambda>j. (a + j) mod m) [0..<m])"
    by simp
  have "0 < m" using assms by simp
  note r = shifted_residues [OF this, of a]
  have "mset (map (\<lambda>j. (a + j) mod m) [0..<m]) = mset [0..<m]"
    by (rule set_eq_iff_mset_eq_distinct [THEN iffD1]) (use r in auto)
  then have "mset (map Suc (map (\<lambda>j. (a + j) mod m) [0..<m])) = mset (map Suc [0..<m])"
    unfolding mset_map by simp
  then have "mset (map Suc (map (\<lambda>j. (a + j) mod m) [0..<m])) = mset [1..<Suc m]"
    by (simp only: map_Suc_upt One_nat_def)
  moreover from assign_loops_eq [OF assms(1,2), of m] obtain s' where
    "assign_loops m s = Inr (map Suc (map (\<lambda>j. (a + j) mod m) [0..<m]), s')"
    unfolding eq by blast
  ultimately show ?thesis by blast
qed

section \<open>Starting and stopping\<close>

lemma stop_subs_ok:
  assumes "i + k = m" and "m \<le> els_len" and "m \<le> length ths" and "\<forall>j. i \<le> j \<and> j < m \<longrightarrow> ths ! j"
  shows "\<exists>ths'. stop_subs els_len (int m) i ths = Inr (map Suc [i..<m], ths') \<and> length ths' = length ths \<and>
    (\<forall>j < length ths. ths' ! j \<longleftrightarrow> ths ! j \<and> \<not> (i \<le> j \<and> j < m))"
  using assms
proof (induction k arbitrary: i ths)
  case 0
  then show ?case by (subst stop_subs.simps) auto
next
  case (Suc k)
  let ?ths = "ths[i := False]"
  have "\<exists>ths'. stop_subs els_len (int m) (Suc i) ?ths = Inr (map Suc [Suc i..<m], ths') \<and>
    length ths' = length ?ths \<and>
    (\<forall>j < length ?ths. ths' ! j \<longleftrightarrow> ?ths ! j \<and> \<not> (Suc i \<le> j \<and> j < m))"
    using Suc.prems by (intro Suc.IH) auto
  then obtain ths' where t: "stop_subs els_len (int m) (Suc i) ?ths = Inr (map Suc [Suc i..<m], ths')"
    "length ths' = length ths" "\<forall>j < length ths. ths' ! j \<longleftrightarrow> ?ths ! j \<and> \<not> (Suc i \<le> j \<and> j < m)"
    by auto
  have "stop_subs els_len (int m) i ths = Inr (map Suc [i..<m], ths')"
    using Suc.prems t(1) by (subst stop_subs.simps) (simp add: upt_conv_Cons)
  moreover have "\<forall>j < length ths. ths' ! j \<longleftrightarrow> ths ! j \<and> \<not> (i \<le> j \<and> j < m)"
    using t(3) Suc.prems by (auto simp: nth_list_update split: if_splits)
  ultimately show ?case using t(2) by blast
qed

text \<open>A server that is started once is stopped: the sub loops in order, then the main loop.\<close>

lemma start_stop:
  assumes n: "0 \<le> n" "n \<le> 144" and s: "s = set_thread_num n new_tcp_server"
  shows "\<exists>s1 s2. start_server s = Inr s1 \<and> pool_ok s1 \<and>
    stop_server s1 = Inr (map Suc [0..<nat n] @ [0], s2) \<and>
    sub_els s2 = None \<and> (\<forall>j \<in> set (sub_threads s2). \<not> j) \<and> \<not> main_joinable s2 \<and>
    length (sub_threads s2) = nat n \<and> thread_num s2 = n \<and> next_el s2 = (if n = 0 then -1 else 0)"
proof -
  have t: "thread_num s = n" unfolding s using n by (rule set_thread_num_exact)
  have rest: "main_joinable s = False" "next_el s = -1" "sub_els s = None" "sub_threads s = []"
    by (simp_all add: s set_thread_num_def new_tcp_server_def Let_def)
  show ?thesis
  proof (cases "n = 0")
    case True
    with t rest show ?thesis
      by (simp add: start_server_def stop_server_def Let_def pool_ok_def MaxThreadNum_def)
  next
    case False
    let ?ths = "replicate (nat n) True"
    have "\<exists>ths'. stop_subs (nat n) (int (nat n)) 0 ?ths = Inr (map Suc [0..<nat n], ths') \<and>
      length ths' = length ?ths \<and> (\<forall>j < length ?ths. ths' ! j \<longleftrightarrow> ?ths ! j \<and> \<not> (0 \<le> j \<and> j < nat n))"
      by (rule stop_subs_ok [where k = "nat n"]) auto
    then obtain ths' where th: "stop_subs (nat n) n 0 ?ths = Inr (map Suc [0..<nat n], ths')"
      "length ths' = nat n" "\<forall>j < nat n. \<not> ths' ! j"
      using n by auto
    have "\<forall>j \<in> set ths'. \<not> j" using th(2,3) by (metis in_set_conv_nth)
    then show ?thesis
      using th(1,2) t rest n False
      by (simp add: start_server_def stop_server_def Let_def pool_ok_def MaxThreadNum_def)
  qed
qed

text \<open>
  After \<^verbatim>\<open>stop\<close> the index still points into the array that is gone, and the threads that were
  joined stay in the vector: a new connection dereferences null, and a second \<^verbatim>\<open>start\<close> cannot be
  stopped.
\<close>

lemma next_el_after_stop:
  assumes "0 < n" "n \<le> 144" and "start_server (set_thread_num n new_tcp_server) = Inr s1"
    and "stop_server s1 = Inr (stopped, s2)"
  shows "get_next_el s2 = Inl NullDeref"
proof -
  from start_stop [of n] assms have "sub_els s2 = None" "thread_num s2 = n" "next_el s2 = 0"
    by auto
  then show ?thesis using assms(1) by (simp add: get_next_el_def Let_def)
qed


end
