(* ===== verification/Pb_Server.thy ===== *)
theory Pb_Server
  imports Connections Servers
begin

text \<open>
  \<^verbatim>\<open>net/pb_server.h\<close>, \<^verbatim>\<open>net/pb_server.cpp\<close>, \<^verbatim>\<open>net/acceptor.cpp\<close>: the RPC server. Its callbacks act on a
  world of event loops, connection objects on the heap and the kernel's descriptors. An
  object that is deleted is no longer in the heap, and every access to it after that is the
  fault \<open>UseAfterFree\<close>.
\<close>

section \<open>State\<close>

datatype server_cb = DataReadCb | WriteCompleteCb | CloseCb

type_synonym conn = "server_cb tcp_connection"

text \<open>The function objects the server gives to its loops: \<^verbatim>\<open>EventLoop::update_channel\<close> and
  \<^verbatim>\<open>PbServer::timeout_callback\<close> with the arguments they are bound to.\<close>

datatype task =
    UpdateChannel nat nat
  | TimeoutCallback nat nat timestamp int bool

text \<open>A service is the number of its object, its methods map names to the numbers of their
  descriptors.\<close>

type_synonym service_entry = "nat \<times> (string \<rightharpoonup> nat)"

record pb_server = tcp_server +
  read_timeout_ms :: int
  write_timeout_ms :: int
  protocols :: "protocol list"
  name2protocols :: "string \<rightharpoonup> protocol"
  services :: "string \<rightharpoonup> service_entry"

record world = pb_server +
  loops :: "nat \<Rightarrow> task event_loop"
  conns :: "nat \<rightharpoonup> conn"
  deferred :: "nat list"
  open_fds :: "int set"
  close_calls :: "int list"
  sent :: "int \<Rightarrow> byte list"

text \<open>
  The application, which is not under \<^verbatim>\<open>src/\<close>: for a service, a method and the bytes of a
  request, \<^verbatim>\<open>ParseFromString\<close> fails, or \<^verbatim>\<open>CallMethod\<close> runs \<^verbatim>\<open>done\<close> before it returns, with the
  bytes the response serialises to (\<open>None\<close> when \<^verbatim>\<open>SerializeToString\<close> fails), or it keeps \<^verbatim>\<open>done\<close>
  and runs it later.
\<close>

datatype app_reply = ParseFails | Replies "byte list option" | Defers

type_synonym app = "nat \<Rightarrow> nat \<Rightarrow> byte list \<Rightarrow> app_reply"

section \<open>Registering protocols and services\<close>

definition add_protocol :: "protocol \<Rightarrow> 's pb_server_scheme \<Rightarrow> bool \<times> 's pb_server_scheme" where
  "add_protocol proto s =
     (if name2protocols s (proto_name proto) \<noteq> None then (False, s)
      else (True, s\<lparr>name2protocols := (name2protocols s)(proto_name proto \<mapsto> proto),
                    protocols := protocols s @ [proto]\<rparr>))"

text \<open>The loop over the methods of a service descriptor.\<close>

fun add_methods :: "(string \<times> nat) list \<Rightarrow> (string \<rightharpoonup> nat) \<Rightarrow> bool \<times> (string \<rightharpoonup> nat)" where
  "add_methods [] ms = (True, ms)"
| "add_methods ((name, md) # rest) ms =
     (if ms name \<noteq> None then (False, ms) else add_methods rest (ms(name \<mapsto> md)))"

definition add_service ::
  "nat \<Rightarrow> string \<Rightarrow> (string \<times> nat) list \<Rightarrow> 's pb_server_scheme \<Rightarrow> bool \<times> 's pb_server_scheme"
where
  "add_service svc name mds s =
     (if services s name \<noteq> None then (False, s)
      else let (ok, ms) = add_methods mds Map.empty
           in (ok, s\<lparr>services := (services s)(name \<mapsto> (svc, ms))\<rparr>))"

definition find_service_method :: "string \<Rightarrow> string \<Rightarrow> 's pb_server_scheme \<Rightarrow> (nat \<times> nat) option" where
  "find_service_method service_name mname s =
     (case services s service_name of
        None \<Rightarrow> None
      | Some (svc, ms) \<Rightarrow> (case ms mname of None \<Rightarrow> None | Some md \<Rightarrow> Some (svc, md)))"

section \<open>The heap and the kernel\<close>

definition get_conn :: "nat \<Rightarrow> world \<Rightarrow> conn result" where
  "get_conn p w = (case conns w p of None \<Rightarrow> Inl UseAfterFree | Some c \<Rightarrow> Inr c)"

definition put_conn :: "nat \<Rightarrow> conn \<Rightarrow> world \<Rightarrow> world" where
  "put_conn p c w = w\<lparr>conns := (conns w)(p \<mapsto> c)\<rparr>"

definition free_conn :: "nat \<Rightarrow> world \<Rightarrow> world" where
  "free_conn p w = w\<lparr>conns := (conns w)(p := None)\<rparr>"

definition on_loop :: "nat \<Rightarrow> (task event_loop \<Rightarrow> task event_loop) \<Rightarrow> world \<Rightarrow> world" where
  "on_loop i f w = w\<lparr>loops := (loops w)(i := f (loops w i))\<rparr>"

definition send_bytes :: "int \<Rightarrow> byte list \<Rightarrow> world \<Rightarrow> world" where
  "send_bytes f bs w = w\<lparr>sent := (sent w)(f := sent w f @ bs)\<rparr>"

text \<open>\<^verbatim>\<open>::close\<close>: the call is recorded; an open descriptor is closed and leaves every interest list,
  another is the error \<^verbatim>\<open>EBADF\<close>, which the code ignores.\<close>

definition sys_close :: "int \<Rightarrow> world \<Rightarrow> world" where
  "sys_close f w = w\<lparr>open_fds := open_fds w - {f}, close_calls := close_calls w @ [f],
     loops := (\<lambda>i. (loops w i)\<lparr>interests := (interests (loops w i))(f := None)\<rparr>)\<rparr>"

text \<open>\<^verbatim>\<open>conn->el()->update_channel(conn)\<close> and \<^verbatim>\<open>EventLoop::update_channel\<close> on loop \<open>i\<close>.\<close>

definition loop_of :: "conn \<Rightarrow> nat result" where
  "loop_of c = (case el c of None \<Rightarrow> Inl NullDeref | Some i \<Rightarrow> Inr i)"

definition update_on_loop :: "nat \<Rightarrow> nat \<Rightarrow> world \<Rightarrow> world result" where
  "update_on_loop i p w =
     and_then (get_conn p w) (\<lambda>c.
     and_then (update_channel (ConnPtr p) c (interests (loops w i))) (\<lambda>(c', k).
       Inr (put_conn p c' (on_loop i (\<lambda>l. l\<lparr>interests := k\<rparr>) w))))"

definition set_event :: "nat \<Rightarrow> 32 word \<Rightarrow> world \<Rightarrow> world result" where
  "set_event p ev w = and_then (get_conn p w) (\<lambda>c. Inr (put_conn p (c\<lparr>event := ev\<rparr>) w))"

definition update_conn :: "nat \<Rightarrow> world \<Rightarrow> world result" where
  "update_conn p w =
     and_then (get_conn p w) (\<lambda>c. and_then (loop_of c) (\<lambda>i. update_on_loop i p w))"

text \<open>The destructor of a channel closes its descriptor.\<close>

definition delete_conn :: "nat \<Rightarrow> world \<Rightarrow> world result" where
  "delete_conn p w =
     and_then (get_conn p w) (\<lambda>c.
       Inr (free_conn p (if fd c \<noteq> -1 then sys_close (fd c) w else w)))"

section \<open>Callbacks\<close>

definition close_callback :: "nat \<Rightarrow> world \<Rightarrow> world result" where
  "close_callback p w =
     and_then (set_event p 0 w) (\<lambda>w.
     and_then (update_conn p w) (\<lambda>w.
     and_then (get_conn p w) (\<lambda>c.
     let w1 = sys_close (fd c) w in
     and_then (loop_of c) (\<lambda>i.
       delete_conn p (on_loop i (remove_channel p (conn_ts c)) w1)))))"

text \<open>\<^verbatim>\<open>TCPConnection::close\<close> calls the close callback; an empty \<^verbatim>\<open>std::function\<close> throws.\<close>

definition conn_close :: "nat \<Rightarrow> world \<Rightarrow> world result" where
  "conn_close p w = and_then (get_conn p w) (\<lambda>c.
     case close_cb c of None \<Rightarrow> Inl Aborted | Some _ \<Rightarrow> close_callback p w)"

text \<open>Starting a read or a write timer.\<close>

definition start_timer :: "nat \<Rightarrow> timestamp \<Rightarrow> int \<Rightarrow> bool \<Rightarrow> world \<Rightarrow> world result" where
  "start_timer p now ms is_read w =
     and_then (get_conn p w) (\<lambda>c0.
     let c = bump_timer c0 in
     and_then (loop_of c) (\<lambda>i.
       Inr (on_loop i (run_after now ms (TimeoutCallback i p (conn_ts c) (timer_id c) is_read))
         (put_conn p c w))))"

text \<open>\<^verbatim>\<open>response_callback\<close>: its second half asks the loop to wait for the socket to be writable, by
  a function, because the callback may run in another thread.\<close>

definition arm_write :: "timestamp \<Rightarrow> nat \<Rightarrow> world \<Rightarrow> world result" where
  "arm_write now p w =
     and_then (set_event p EPOLLOUT w) (\<lambda>w1.
     and_then (get_conn p w1) (\<lambda>c.
     and_then (loop_of c) (\<lambda>i.
     let w2 = on_loop i (add_func (UpdateChannel i p)) w1 in
     if write_timeout_ms w2 > 0
     then start_timer p now (write_timeout_ms w2) False w2 else Inr w2)))"

definition response_callback :: "timestamp \<Rightarrow> nat \<Rightarrow> byte list option \<Rightarrow> world \<Rightarrow> world result" where
  "response_callback now p serialised w =
     (case serialised of
        None \<Rightarrow> Inl Aborted
      | Some resp_str \<Rightarrow>
          and_then (get_conn p w) (\<lambda>c.
          case ctx c of
            None \<Rightarrow> Inl NullDeref
          | Some x \<Rightarrow>
              let x' = on_base (\<lambda>b. b\<lparr>rpc_status := Some RpcStatus_OK, payload := resp_str\<rparr>) x in
              and_then (ctx_pack_response x' (wbuf c)) (\<lambda>(ret, b).
              let w1 = put_conn p (c\<lparr>ctx := Some x', wbuf := b\<rparr>) w in
              and_then (if \<not> ret then close_callback p w1 else Inr w1) (arm_write now p))))"

definition request_callback :: "app \<Rightarrow> timestamp \<Rightarrow> nat \<Rightarrow> world \<Rightarrow> world result" where
  "request_callback app now p w =
     and_then (get_conn p w) (\<lambda>c.
     case ctx c of
       None \<Rightarrow> Inl NullDeref
     | Some x \<Rightarrow>
         and_then (view_str (rbuf c) (payload_view (base_of x))) (\<lambda>pb_data.
         case find_service_method (service (base_of x)) (method_name (base_of x)) w of
           None \<Rightarrow> close_callback p w
         | Some (svc, md) \<Rightarrow>
             (case app svc md pb_data of
                ParseFails \<Rightarrow> close_callback p w
              | Replies r \<Rightarrow> response_callback now p r w
              | Defers \<Rightarrow> Inr (w\<lparr>deferred := deferred w @ [p]\<rparr>))))"

definition data_read_callback :: "app \<Rightarrow> timestamp \<Rightarrow> nat \<Rightarrow> world \<Rightarrow> world result" where
  "data_read_callback app now p w =
     and_then (get_conn p w) (\<lambda>c.
     and_then (dispatch protocol_parse (protocols w) (proto_idx c) (ctx c) (rbuf c))
       (\<lambda>(i, res, x, b).
        let w1 = put_conn p (c\<lparr>proto_idx := i, ctx := x, rbuf := b\<rparr>) w in
        if i \<ge> length (protocols w) then conn_close p w1
        else if res = Some ParseProtocol_Error then conn_close p w1
        else if res = Some ParseProtocol_NoEnoughData then Inr w1
        else request_callback app now p w1))"

definition write_complete_callback :: "timestamp \<Rightarrow> nat \<Rightarrow> world \<Rightarrow> world result" where
  "write_complete_callback now p w =
     and_then (get_conn p w) (\<lambda>c.
     case ctx c of
       None \<Rightarrow> Inl NullDeref
     | Some x \<Rightarrow>
         let tmp = conn_type (base_of x);
             w1 = put_conn p (c\<lparr>ctx := None, rbuf := clear (rbuf c), wbuf := clear (wbuf c)\<rparr>) w
         in if tmp = ConnType_Short then close_callback p w1
            else
              and_then (set_event p EPOLLIN w1) (\<lambda>w2.
              and_then (update_conn p w2) (\<lambda>w3.
              if read_timeout_ms w3 > 0
              then start_timer p now (read_timeout_ms w3) True w3 else Inr w3)))"

definition timeout_callback ::
  "nat \<Rightarrow> nat \<Rightarrow> timestamp \<Rightarrow> int \<Rightarrow> bool \<Rightarrow> world \<Rightarrow> world result"
where
  "timeout_callback i p t tid is_read w =
     (if has_channel p t (loops w i) then
        and_then (get_conn p w) (\<lambda>c.
          if timer_id c = tid then close_callback p w else Inr w)
      else Inr w)"

text \<open>
  \<^verbatim>\<open>new_connection_callback\<close>: \<open>a\<close> is the address \<^verbatim>\<open>new\<close> returns, \<open>nb\<close> whether \<^verbatim>\<open>fcntl\<close> succeeds.
\<close>

definition new_connection_callback ::
  "timestamp \<Rightarrow> nat \<Rightarrow> bool \<Rightarrow> int \<Rightarrow> world \<Rightarrow> world result"
where
  "new_connection_callback now a nb conn w =
     and_then (get_next_el w) (\<lambda>(i, w1).
     let w2 = put_conn a (new_tcp_connection conn (Some i) True now) w1;
         w3 = on_loop i (add_channel a now) w2 in
     if \<not> nb then Inl Aborted
     else
       and_then (set_event a EPOLLIN w3) (\<lambda>w4.
       and_then (update_conn a w4) (\<lambda>w5.
       and_then (if read_timeout_ms w5 > 0
                 then start_timer a now (read_timeout_ms w5) True w5 else Inr w5) (\<lambda>w6.
       and_then (get_conn a w6) (\<lambda>c.
         Inr (put_conn a (c\<lparr>data_read_cb := Some DataReadCb, close_cb := Some CloseCb,
           write_complete_cb := Some WriteCompleteCb\<rparr>) w6))))))"

section \<open>Events and functions\<close>

datatype accept_answer = Accepted int | AcceptErr errno

definition run_callback :: "app \<Rightarrow> timestamp \<Rightarrow> nat \<Rightarrow> server_cb option \<Rightarrow> world \<Rightarrow> world result" where
  "run_callback app now p cb w =
     (case cb of
        None \<Rightarrow> Inr w
      | Some DataReadCb \<Rightarrow> data_read_callback app now p w
      | Some WriteCompleteCb \<Rightarrow> write_complete_callback now p w
      | Some CloseCb \<Rightarrow> close_callback p w)"

definition conn_handle_events ::
  "app \<Rightarrow> timestamp \<Rightarrow> nat \<Rightarrow> 32 word \<Rightarrow> read_answer \<Rightarrow> write_answer \<Rightarrow> write_answer \<Rightarrow> world \<Rightarrow> world result"
where
  "conn_handle_events app now p events ra wa1 wa2 w =
     and_then (get_conn p w) (\<lambda>c.
     and_then (tcp_handle_events events ra wa1 wa2 c) (\<lambda>(c', out, cb).
       run_callback app now p cb (put_conn p c' (send_bytes (fd c) out w))))"

text \<open>\<^verbatim>\<open>Acceptor::handle_events\<close> and \<^verbatim>\<open>handler_new_connection\<close>.\<close>

definition acceptor_handle_events ::
  "timestamp \<Rightarrow> 32 word \<Rightarrow> accept_answer \<Rightarrow> nat \<Rightarrow> bool \<Rightarrow> world \<Rightarrow> world result"
where
  "acceptor_handle_events now events answer a nb w =
     (if events AND EPOLLIN \<noteq> 0 then
        case answer of
          AcceptErr e \<Rightarrow> if transient e \<or> e = ECONNABORTED then Inr w else Inl Aborted
        | Accepted conn \<Rightarrow>
            new_connection_callback now a nb conn (w\<lparr>open_fds := insert conn (open_fds w)\<rparr>)
      else Inr w)"

text \<open>An event with the kernel's answers to the system calls its handler makes.\<close>

datatype io_event =
    ConnIO nat "32 word" read_answer write_answer write_answer
  | AcceptIO "32 word" accept_answer nat bool
  | WakeIO "32 word"

fun handle_io :: "app \<Rightarrow> nat \<Rightarrow> timestamp \<Rightarrow> io_event \<Rightarrow> world \<Rightarrow> world result" where
  "handle_io app i now (ConnIO p events ra wa1 wa2) w = conn_handle_events app now p events ra wa1 wa2 w"
| "handle_io app i now (AcceptIO events answer a nb) w = acceptor_handle_events now events answer a nb w"
| "handle_io app i now (WakeIO events) w = Inr (on_loop i (wakeuper_handle_events events) w)"

fun exec_task :: "task \<Rightarrow> world \<Rightarrow> world result" where
  "exec_task (UpdateChannel i p) w = update_on_loop i p w"
| "exec_task (TimeoutCallback i p t tid is_read) w = timeout_callback i p t tid is_read w"

text \<open>One round of loop \<open>i\<close>.\<close>

definition server_round ::
  "app \<Rightarrow> nat \<Rightarrow> io_event poll_answer \<Rightarrow> timestamp \<Rightarrow> world \<Rightarrow> world result"
where
  "server_round app i answer now =
     loop_body (\<lambda>w. loops w i) (\<lambda>l. on_loop i (\<lambda>_. l)) (handle_io app i now) exec_task answer now"

text \<open>The application runs a \<^verbatim>\<open>done\<close> it kept.\<close>

definition run_deferred :: "timestamp \<Rightarrow> nat \<Rightarrow> byte list option \<Rightarrow> world \<Rightarrow> world result" where
  "run_deferred now p r w =
     response_callback now p r (w\<lparr>deferred := remove1 p (deferred w)\<rparr>)"

end
