(* ===== verification/Lifetime.thy ===== *)
theory Lifetime
  imports Connections
begin

text \<open>
  Faults of memory lifetime (a freed object, a null pointer, an indeterminate value, a division
  by zero) against those of data (an index out of bounds, an exception, an abort). None of the
  operations on buffers and none of the parsers can cause the former, whatever the bytes: the
  lemmas here are what the server's safety proof uses of them.
\<close>

definition lifetime_fault :: "fault \<Rightarrow> bool" where
  "lifetime_fault e \<longleftrightarrow> e = UseAfterFree \<or> e = NullDeref \<or> e = Uninitialised \<or> e = DivideByZero"

text \<open>Either a fault of data, or a result with the property.\<close>

definition safe :: "('a \<Rightarrow> bool) \<Rightarrow> 'a result \<Rightarrow> bool" where
  "safe Q r \<longleftrightarrow> (case r of Inl e \<Rightarrow> \<not> lifetime_fault e | Inr x \<Rightarrow> Q x)"

abbreviation no_lifetime_fault :: "'a result \<Rightarrow> bool" where
  "no_lifetime_fault \<equiv> safe (\<lambda>_. True)"

named_theorems lifetime

lemma safe_simps [simp]:
  "safe Q (Inr x) \<longleftrightarrow> Q x"
  "safe Q (Inl OutOfBounds)" "safe Q (Inl Aborted)" "safe Q (Inl InvalidArgument)"
  "safe Q (Inl OutOfRange)" "safe Q (Inl LengthError)"
  by (simp_all add: safe_def lifetime_fault_def)

lemma safe_InrD: "safe Q r \<Longrightarrow> r = Inr x \<Longrightarrow> Q x"
  by (simp add: safe_def)

lemma safe_mono: "safe P r \<Longrightarrow> (\<And>x. r = Inr x \<Longrightarrow> P x \<Longrightarrow> Q x) \<Longrightarrow> safe Q r"
  by (cases r) (auto simp: safe_def)

lemma safe_and_then:
  "no_lifetime_fault m \<Longrightarrow> (\<And>x. m = Inr x \<Longrightarrow> safe Q (k x)) \<Longrightarrow> safe Q (and_then m k)"
  by (cases m) (auto simp: safe_def)

lemma safe_bind: "safe P m \<Longrightarrow> (\<And>x. m = Inr x \<Longrightarrow> P x \<Longrightarrow> safe Q (k x)) \<Longrightarrow> safe Q (and_then m k)"
  by (cases m) (auto simp: safe_def)

lemma safe_if: "(b \<Longrightarrow> safe Q x) \<Longrightarrow> (\<not> b \<Longrightarrow> safe Q y) \<Longrightarrow> safe Q (if b then x else y)"
  by simp

lemma safe_case_option:
  "(m = None \<Longrightarrow> safe Q x) \<Longrightarrow> (\<And>y. m = Some y \<Longrightarrow> safe Q (f y)) \<Longrightarrow>
     safe Q (case m of None \<Rightarrow> x | Some y \<Rightarrow> f y)"
  by (cases m) auto

lemma safe_case_prod: "(\<And>a b. p = (a, b) \<Longrightarrow> safe Q (f a b)) \<Longrightarrow> safe Q (case p of (a, b) \<Rightarrow> f a b)"
  by (cases p) auto

lemmas safe_intros = safe_and_then safe_if safe_case_option safe_case_prod

section \<open>Buffers\<close>

lemma safe_memory [lifetime]:
  "no_lifetime_fault (mem_read b p n)" "no_lifetime_fault (mem_chr b p c n)"
  "no_lifetime_fault (peek_int32 b)" "no_lifetime_fault (peek_uint32 b)"
  "no_lifetime_fault (find_crlf n b)" "no_lifetime_fault (mem_byte b p)"
  "no_lifetime_fault (view_str b v)" "no_lifetime_fault (resize_double b)"
  by (auto simp: mem_read_def mem_chr_def peek_int32_def peek_uint32_def find_crlf_def mem_byte_def
      view_str_def resize_double_def split: option.splits)

lemma safe_append_mem [lifetime]: "no_lifetime_fault (append_mem m b)"
  by (auto simp: append_mem_def Let_def resize_double_def)

lemma safe_append_all [lifetime]: "no_lifetime_fault (append_all ms b)"
  by (induction ms arbitrary: b) (auto intro!: safe_and_then lifetime)

lemma safe_append_num [lifetime]:
  "no_lifetime_fault (append_int32 n b)" "no_lifetime_fault (append_uint32 k b)"
  by (simp_all add: append_int32_def append_uint32_def safe_append_mem)

lemma safe_write_extra: "no_lifetime_fault (write_extra a x)"
  by (cases x) (auto simp: write_extra_def Let_def split: write_answer.splits)

lemma safe_write_fd [lifetime]: "no_lifetime_fault (write_fd a1 a2 b)"
  by (auto simp: write_fd_def Let_def split: write_answer.splits
      intro!: safe_write_extra safe_and_then safe_memory)

lemma safe_read_fd [lifetime]: "no_lifetime_fault (read_fd a b)"
  by (auto simp: read_fd_def Let_def split: read_answer.splits intro!: safe_and_then safe_memory)

section \<open>Parsers\<close>

lemma safe_strncmp_eq [lifetime]: "no_lifetime_fault (strncmp_eq xs s)"
  by (induction xs s rule: strncmp_eq.induct) auto

lemma safe_match_method [lifetime]: "no_lifetime_fault (match_method xs i)"
proof (induction xs i rule: match_method.induct)
  case (1 mem i)
  then show ?case
    by (subst match_method.simps) (auto intro!: safe_and_then lifetime)
qed

lemma safe_stoi [lifetime]: "no_lifetime_fault (stoi s)"
  by (auto simp: stoi_def Let_def)

lemma safe_store_header [lifetime]: "no_lifetime_fault (store_header k v c)"
  by (auto simp: store_header_def Let_def intro!: safe_and_then lifetime)

lemma safe_header_step [lifetime]: "no_lifetime_fault (header_step c b)"
  by (auto simp: header_step_def Let_def intro!: safe_intros lifetime split: option.splits)

lemma safe_parse_headers [lifetime]: "no_lifetime_fault (parse_headers c b)"
proof (induction c b rule: parse_headers.induct)
  case (1 c b)
  then show ?case
    by (subst parse_headers.simps) (auto intro!: safe_intros lifetime)
qed

lemma safe_request_line [lifetime]: "no_lifetime_fault (parse_request_line c b)"
  by (auto simp: parse_request_line_def parse_url_def parse_service_method_def parse_version_def Let_def
      intro!: safe_intros lifetime split: option.splits)

lemma safe_response_line [lifetime]: "no_lifetime_fault (parse_response_line c b)"
  by (auto simp: parse_response_line_def Let_def intro!: safe_intros lifetime)

lemma safe_parse_body [lifetime]: "no_lifetime_fault (parse_body c b)"
  by (simp add: parse_body_def)

lemma safe_http_step:
  "no_lifetime_fault (line c b) \<Longrightarrow> no_lifetime_fault (http_step line c b)"
  by (auto simp: http_step_def http_advance_def intro!: safe_intros lifetime)

lemma safe_http_parse_request [lifetime]: "no_lifetime_fault (http_parse_request c b)"
proof (induction c b rule: http_parse_request.induct)
  case (1 c b)
  then show ?case
    by (subst http_parse_request.simps) (auto intro!: safe_intros safe_http_step lifetime)
qed

lemma safe_http_parse_response [lifetime]: "no_lifetime_fault (http_parse_response c b)"
proof (induction c b rule: http_parse_response.induct)
  case (1 c b)
  then show ?case
    by (subst http_parse_response.simps) (auto intro!: safe_intros safe_http_step lifetime)
qed

lemma safe_simple_step [lifetime]:
  "no_lifetime_fault (simple_request_step c b)" "no_lifetime_fault (simple_response_step c b)"
  by (auto simp: simple_request_step_def simple_response_step_def Let_def
      intro!: safe_intros lifetime split: option.splits)

lemma safe_simple_parse_request [lifetime]: "no_lifetime_fault (simple_parse_request c b)"
proof (induction c b rule: simple_parse_request.induct)
  case (1 c b)
  then show ?case
    by (subst simple_parse_request.simps) (auto intro!: safe_intros lifetime)
qed

lemma safe_simple_parse_response [lifetime]: "no_lifetime_fault (simple_parse_response c b)"
proof (induction c b rule: simple_parse_response.induct)
  case (1 c b)
  then show ?case
    by (subst simple_parse_response.simps) (auto intro!: safe_intros lifetime)
qed

lemma safe_ctx_parse [lifetime]:
  "no_lifetime_fault (ctx_parse_request x b)" "no_lifetime_fault (ctx_parse_response x b)"
  by (cases x; auto simp: lift_ctx_def intro!: safe_intros lifetime)+

lemma safe_protocol_parse [lifetime]: "no_lifetime_fault (protocol_parse p x b)"
  by (cases p) (auto simp: protocol_parse_defs intro!: safe_intros lifetime
      split: option.splits any_ctx.splits)

section \<open>What the server needs of the loop over the protocols\<close>

lemma with_ctx_Some: "with_ctx x b = Inr (st, y, b') \<Longrightarrow> y \<noteq> None"
  by (auto simp: with_ctx_def and_then_Inr_iff)

lemma protocol_parse_ctx:
  assumes "protocol_parse p (Some x) b = Inr (st, y, b')"
    and "st \<noteq> ParseProtocol_Error" "st \<noteq> ParseProtocol_NoEnoughData" "st \<noteq> ParseProtocol_TryAnotherProtocol"
  shows "y \<noteq> None"
proof (cases p)
  case SimpleProtocol
  with assms show ?thesis
    by (auto simp: simple_protocol_parse_def and_then_Inr_iff dest: with_ctx_Some
        split: option.splits any_ctx.splits if_splits)
next
  case HTTPProtocol
  with assms show ?thesis
    by (auto simp: http_protocol_parse_def and_then_Inr_iff dest: with_ctx_Some
        split: option.splits any_ctx.splits if_splits)
qed

lemma dispatch_safe:
  "safe (\<lambda>(j, res, y, b'). j < length ps \<longrightarrow> res \<noteq> Some ParseProtocol_Error \<longrightarrow>
     res \<noteq> Some ParseProtocol_NoEnoughData \<longrightarrow> y \<noteq> None) (dispatch protocol_parse ps i x b)"
proof (induction protocol_parse ps i x b rule: dispatch.induct)
  case (1 ps i x b)
  show ?case
  proof (cases "i < length ps")
    case True
    show ?thesis
    proof (subst dispatch.simps, simp only: True if_True, rule safe_and_then)
      fix r assume r: "protocol_parse (ps ! i) (Some x) b = Inr r"
      obtain st y b' where s: "r = (st, y, b')" by (cases r)
      show "safe (\<lambda>(j, res, y, b'). j < length ps \<longrightarrow> res \<noteq> Some ParseProtocol_Error \<longrightarrow>
          res \<noteq> Some ParseProtocol_NoEnoughData \<longrightarrow> y \<noteq> None)
        (case r of (res, ctx', rbuf') \<Rightarrow> if res = ParseProtocol_TryAnotherProtocol
          then dispatch protocol_parse ps (i + 1) ctx' rbuf' else Inr (i, Some res, ctx', rbuf'))"
        using "1.hyps" [OF True r s [symmetric] refl] protocol_parse_ctx [OF r [unfolded s]] s by auto
    qed (rule lifetime)
  next
    case False
    then show ?thesis by (subst dispatch.simps) simp
  qed
qed

text \<open>A response whose status is set can be packed, and packing always reports success.\<close>

lemma pack_response_safe:
  assumes "rpc_status (base_of x) \<noteq> None"
  shows "safe fst (ctx_pack_response x b)"
  using assms
  by (cases x) (auto simp: simple_pack_response_def http_pack_response_def read_rpc_status_def
      rpc_context.defs intro!: safe_and_then lifetime)

end
