(* ===== verification/Server_Safety.thy ===== *)
theory Server_Safety
  imports Pb_Server Lifetime
begin

text \<open>
  The invariant of the RPC server and its preservation by every callback: what the loops,
  the heap and the kernel know of a connection agree, and an object is reached only while
  it is there.
\<close>

section \<open>The invariant\<close>

text \<open>A connection as its loop and the kernel see it.\<close>

definition conn_known :: "world \<Rightarrow> nat \<Rightarrow> conn \<Rightarrow> bool" where
  "conn_known w p c \<longleftrightarrow>
     (\<exists>i. el c = Some i \<and> channels (loops w i) p = Some (conn_ts c) \<and>
       registered (ConnPtr p) c (interests (loops w i))) \<and>
     fd c \<in> open_fds w \<and> fd c \<noteq> -1"

text \<open>The state of the connection itself: reading a request, or writing the response of its
  context. The registration follows one round behind.\<close>

definition conn_state :: "conn \<Rightarrow> bool" where
  "conn_state c \<longleftrightarrow> data_read_cb c = Some DataReadCb \<and> write_complete_cb c = Some WriteCompleteCb \<and>
     close_cb c = Some CloseCb \<and> connected c \<and>
     (event c = EPOLLIN \<or> event c = EPOLLOUT \<and> ctx c \<noteq> None) \<and>
     (sevent c = EPOLLIN \<or> sevent c = EPOLLOUT \<and> event c = EPOLLOUT)"

fun timeout_of :: "nat \<Rightarrow> task \<Rightarrow> bool" where
  "timeout_of i (TimeoutCallback j p t tid r) \<longleftrightarrow> j = i"
| "timeout_of i (UpdateChannel j p) \<longleftrightarrow> False"

text \<open>The loops, the heap and the kernel agree: a connection is registered with its loop and in
  the interest list of its loop as its \<^verbatim>\<open>_sevent\<close> says, nothing else is, and the timers of a
  loop are timeouts of its own.\<close>

definition world_reg :: "world \<Rightarrow> bool" where
  "world_reg w \<longleftrightarrow> pool_ok w \<and> (\<forall>p c. conns w p = Some c \<longrightarrow> conn_known w p c) \<and>
     (\<forall>i p t. channels (loops w i) p = Some t \<longrightarrow>
        (\<exists>c. conns w p = Some c \<and> el c = Some i \<and> conn_ts c = t)) \<and>
     (\<forall>p q c d. conns w p = Some c \<longrightarrow> conns w q = Some d \<longrightarrow> fd c = fd d \<longrightarrow> p = q) \<and>
     (\<forall>i f. f \<notin> open_fds w \<longrightarrow> interests (loops w i) f = None) \<and>
     (\<forall>i f ev p. interests (loops w i) f = Some (ev, ConnPtr p) \<longrightarrow>
        (\<exists>c. conns w p = Some c \<and> fd c = f \<and> el c = Some i)) \<and>
     (\<forall>i t. t \<in># timers_of (timers (loops w i)) \<longrightarrow> timeout_of i (snd t))"

definition world_inv :: "world \<Rightarrow> bool" where
  "world_inv w \<longleftrightarrow> world_reg w \<and> (\<forall>p c. conns w p = Some c \<longrightarrow> conn_state c)"

lemma world_regD:
  assumes "world_reg w" and "conns w p = Some c"
  obtains i where "el c = Some i" "channels (loops w i) p = Some (conn_ts c)"
    "registered (ConnPtr p) c (interests (loops w i))" "fd c \<in> open_fds w" "fd c \<noteq> -1"
proof -
  have "conn_known w p c" using assms by (simp add: world_reg_def)
  then show thesis using that by (auto simp: conn_known_def)
qed

lemma world_regI:
  assumes "pool_ok w" and "\<And>p c. conns w p = Some c \<Longrightarrow> conn_known w p c"
    and "\<And>i p t. channels (loops w i) p = Some t \<Longrightarrow>
      \<exists>c. conns w p = Some c \<and> el c = Some i \<and> conn_ts c = t"
    and "\<And>p q c d. conns w p = Some c \<Longrightarrow> conns w q = Some d \<Longrightarrow> fd c = fd d \<Longrightarrow> p = q"
    and "\<And>i f. f \<notin> open_fds w \<Longrightarrow> interests (loops w i) f = None"
    and "\<And>i f ev p. interests (loops w i) f = Some (ev, ConnPtr p) \<Longrightarrow>
      \<exists>c. conns w p = Some c \<and> fd c = f \<and> el c = Some i"
    and "\<And>i t. t \<in># timers_of (timers (loops w i)) \<Longrightarrow> timeout_of i (snd t)"
  shows "world_reg w"
  unfolding world_reg_def using assms by blast

lemma world_reg_channel:
  "world_reg w \<Longrightarrow> channels (loops w i) p = Some t \<Longrightarrow>
     \<exists>c. conns w p = Some c \<and> el c = Some i \<and> conn_ts c = t"
  by (simp add: world_reg_def)

lemma world_reg_fd:
  "world_reg w \<Longrightarrow> conns w p = Some c \<Longrightarrow> conns w q = Some d \<Longrightarrow> q \<noteq> p \<Longrightarrow> fd d \<noteq> fd c"
  by (auto simp: world_reg_def)

lemma world_reg_interest:
  "world_reg w \<Longrightarrow> interests (loops w i) f = Some (ev, ConnPtr p) \<Longrightarrow>
     \<exists>c. conns w p = Some c \<and> fd c = f \<and> el c = Some i"
  unfolding world_reg_def by blast

lemma world_reg_timer:
  "world_reg w \<Longrightarrow> t \<in># timers_of (timers (loops w i)) \<Longrightarrow> timeout_of i (snd t)"
  unfolding world_reg_def by blast

lemma world_reg_closed: "world_reg w \<Longrightarrow> f \<notin> open_fds w \<Longrightarrow> interests (loops w i) f = None"
  by (simp add: world_reg_def)

section \<open>The primitive operations\<close>

lemma get_conn_simps [simp]: "conns w p = Some c \<Longrightarrow> get_conn p w = Inr c"
  by (simp add: get_conn_def)

lemma put_conn_frame [simp]:
  "conns (put_conn p c w) = (conns w)(p \<mapsto> c)" "loops (put_conn p c w) = loops w"
  "open_fds (put_conn p c w) = open_fds w" "deferred (put_conn p c w) = deferred w"
  "protocols (put_conn p c w) = protocols w" "services (put_conn p c w) = services w"
  "close_calls (put_conn p c w) = close_calls w"
  "read_timeout_ms (put_conn p c w) = read_timeout_ms w"
  "write_timeout_ms (put_conn p c w) = write_timeout_ms w"
  "pool_ok (put_conn p c w) = pool_ok w"
  by (simp_all add: put_conn_def pool_ok_def)

lemma on_loop_frame [simp]:
  "conns (on_loop i f w) = conns w" "loops (on_loop i f w) = (loops w)(i := f (loops w i))"
  "open_fds (on_loop i f w) = open_fds w" "deferred (on_loop i f w) = deferred w"
  "protocols (on_loop i f w) = protocols w" "services (on_loop i f w) = services w"
  "close_calls (on_loop i f w) = close_calls w"
  "read_timeout_ms (on_loop i f w) = read_timeout_ms w"
  "write_timeout_ms (on_loop i f w) = write_timeout_ms w"
  "pool_ok (on_loop i f w) = pool_ok w"
  by (simp_all add: on_loop_def pool_ok_def)

lemma send_bytes_frame [simp]:
  "conns (send_bytes f bs w) = conns w" "loops (send_bytes f bs w) = loops w"
  "open_fds (send_bytes f bs w) = open_fds w" "deferred (send_bytes f bs w) = deferred w"
  "protocols (send_bytes f bs w) = protocols w" "services (send_bytes f bs w) = services w"
  "close_calls (send_bytes f bs w) = close_calls w" "pool_ok (send_bytes f bs w) = pool_ok w"
  by (simp_all add: send_bytes_def pool_ok_def)

lemma sys_close_frame [simp]:
  "conns (sys_close f w) = conns w" "open_fds (sys_close f w) = open_fds w - {f}"
  "close_calls (sys_close f w) = close_calls w @ [f]" "deferred (sys_close f w) = deferred w"
  "funcs (loops (sys_close f w) i) = funcs (loops w i)"
  "timers (loops (sys_close f w) i) = timers (loops w i)"
  "channels (loops (sys_close f w) i) = channels (loops w i)"
  "interests (loops (sys_close f w) i) = (interests (loops w i))(f := None)"
  "pool_ok (sys_close f w) = pool_ok w"
  by (simp_all add: sys_close_def pool_ok_def)

lemma free_conn_frame [simp]:
  "conns (free_conn p w) = (conns w)(p := None)" "loops (free_conn p w) = loops w"
  "open_fds (free_conn p w) = open_fds w" "close_calls (free_conn p w) = close_calls w"
  "deferred (free_conn p w) = deferred w" "pool_ok (free_conn p w) = pool_ok w"
  by (simp_all add: free_conn_def pool_ok_def)

text \<open>Registrations do not depend on the rest of a connection, nor on the queues of a loop.\<close>

definition same_reg :: "conn \<Rightarrow> conn \<Rightarrow> bool" where
  "same_reg c d \<longleftrightarrow> fd d = fd c \<and> sevent d = sevent c \<and> el d = el c \<and> conn_ts d = conn_ts c"

lemma world_reg_put:
  assumes "world_reg w" and "conns w p = Some c" and "same_reg c d"
  shows "world_reg (put_conn p d w)"
proof (rule world_regI)
  have old: "\<exists>e. conns w q = Some e \<and> same_reg e d'" if "conns (put_conn p d w) q = Some d'" for q d'
    using that assms(2,3) by (cases "q = p") (auto simp: same_reg_def)
  show "pool_ok (put_conn p d w)" using assms(1) by (simp add: world_reg_def)
  fix q d'
  assume d': "conns (put_conn p d w) q = Some d'"
  from old [OF this] obtain e where e: "conns w q = Some e" "same_reg e d'" by blast
  from world_regD [OF assms(1) e(1)] obtain i where "el e = Some i"
    "channels (loops w i) q = Some (conn_ts e)" "registered (ConnPtr q) e (interests (loops w i))"
    "fd e \<in> open_fds w" "fd e \<noteq> -1" .
  then show "conn_known (put_conn p d w) q d'"
    using e(2) by (simp add: conn_known_def same_reg_def registered_def)
  fix r e'
  assume e': "conns (put_conn p d w) r = Some e'" "fd d' = fd e'"
  from old [OF this(1)] obtain h where h: "conns w r = Some h" "same_reg h e'" by blast
  then have "fd h = fd e" using e'(2) e(2) by (simp add: same_reg_def)
  then show "q = r" using world_reg_fd [OF assms(1) e(1) h(1)] by auto
next
  fix i q t
  assume "channels (loops (put_conn p d w) i) q = Some t"
  with world_reg_channel [OF assms(1), of i q t] obtain e where
    "conns w q = Some e" "el e = Some i" "conn_ts e = t" by auto
  with assms(2,3) show "\<exists>c. conns (put_conn p d w) q = Some c \<and> el c = Some i \<and> conn_ts c = t"
    by (cases "q = p") (auto simp: same_reg_def)
next
  fix i f ev q
  assume "interests (loops (put_conn p d w) i) f = Some (ev, ConnPtr q)"
  with world_reg_interest [OF assms(1), of i f ev q] obtain e where
    "conns w q = Some e" "fd e = f" "el e = Some i" by auto
  with assms(2,3) show "\<exists>c. conns (put_conn p d w) q = Some c \<and> fd c = f \<and> el c = Some i"
    by (cases "q = p") (auto simp: same_reg_def)
qed (use assms(1) world_reg_timer in \<open>simp_all add: world_reg_closed\<close>)

definition same_registry :: "world \<Rightarrow> world \<Rightarrow> bool" where
  "same_registry w w' \<longleftrightarrow> conns w' = conns w \<and> open_fds w' = open_fds w \<and> (pool_ok w \<longrightarrow> pool_ok w') \<and>
     (\<forall>i. channels (loops w' i) = channels (loops w i) \<and> interests (loops w' i) = interests (loops w i) \<and>
        (\<forall>t \<in># timers_of (timers (loops w' i)). t \<in># timers_of (timers (loops w i)) \<or> timeout_of i (snd t)))"

lemma world_reg_same: "world_reg w \<Longrightarrow> same_registry w w' \<Longrightarrow> world_reg w'"
proof (rule world_regI)
  assume w: "world_reg w" and s: "same_registry w w'"
  then have fr: "conns w' = conns w" "open_fds w' = open_fds w"
    "channels (loops w' i) = channels (loops w i)" "interests (loops w' i) = interests (loops w i)" for i
    by (simp_all add: same_registry_def)
  show "pool_ok w'" using w s by (simp add: world_reg_def same_registry_def)
  show "conn_known w' p c" if "conns w' p = Some c" for p c
    using that w by (simp add: fr world_reg_def conn_known_def)
  show "timeout_of i (snd t)" if "t \<in># timers_of (timers (loops w' i))" for i t
    using that s world_reg_timer [OF w, of t i] unfolding same_registry_def by blast
  show "\<exists>c. conns w' p = Some c \<and> el c = Some i \<and> conn_ts c = t"
    if "channels (loops w' i) p = Some t" for i p t
    using that world_reg_channel [OF w] by (simp add: fr)
  show "p = q" if "conns w' p = Some c" "conns w' q = Some d" "fd c = fd d" for p q c d
    using that world_reg_fd [OF w, of p c q d] by (auto simp: fr)
  show "interests (loops w' i) f = None" if "f \<notin> open_fds w'" for i f
    using that world_reg_closed [OF w] by (simp add: fr)
  show "\<exists>c. conns w' p = Some c \<and> fd c = f \<and> el c = Some i"
    if "interests (loops w' i) f = Some (ev, ConnPtr p)" for i f ev p
    using that world_reg_interest [OF w] by (simp add: fr)
qed

text \<open>The functions waiting in the loops.\<close>

definition same_funcs :: "world \<Rightarrow> world \<Rightarrow> bool" where
  "same_funcs w w' \<longleftrightarrow> (\<forall>i. funcs (loops w' i) = funcs (loops w i))"

lemma same_funcs_trans: "same_funcs w w1 \<Longrightarrow> same_funcs w1 w2 \<Longrightarrow> same_funcs w w2"
  by (simp add: same_funcs_def)

lemma set_event_ok:
  assumes "world_reg w" and "conns w p = Some c"
  shows "set_event p ev w = Inr (put_conn p (c\<lparr>event := ev\<rparr>) w)"
    and "world_reg (put_conn p (c\<lparr>event := ev\<rparr>) w)"
  using assms world_reg_put [OF assms, of "c\<lparr>event := ev\<rparr>"]
  by (simp_all add: set_event_def same_reg_def)

lemma update_on_loop_ok:
  assumes w: "world_reg w" and c: "conns w p = Some c" "el c = Some i"
  defines "w' \<equiv> put_conn p (c\<lparr>sevent := event c\<rparr>) (on_loop i
    (\<lambda>l. l\<lparr>interests := (interests (loops w i))(fd c := registration (ConnPtr p) (event c))\<rparr>) w)"
  shows "update_on_loop i p w = Inr w'" and "update_conn p w = Inr w'" and "world_reg w'"
    and "same_funcs w w'"
proof -
  from world_regD [OF w c(1)] c(2) have reg: "channels (loops w i) p = Some (conn_ts c)"
    "registered (ConnPtr p) c (interests (loops w i))" "fd c \<in> open_fds w" "fd c \<noteq> -1" by auto
  show "update_on_loop i p w = Inr w'"
    using c(1) update_channel_ok [OF reg(2)] by (simp add: update_on_loop_def w'_def)
  then show "update_conn p w = Inr w'" using c by (simp add: update_conn_def loop_of_def)
  show "same_funcs w w'" by (simp add: same_funcs_def w'_def)
  have "conn_known w' q d" if "conns w' q = Some d" for q d
  proof (cases "q = p")
    case True
    then have d: "d = c\<lparr>sevent := event c\<rparr>" using that by (simp add: w'_def)
    show ?thesis
      unfolding conn_known_def using reg c by (auto simp: True d w'_def registered_def)
  next
    case False
    then have d: "conns w q = Some d" using that by (simp add: w'_def)
    from world_regD [OF w this] obtain j where "el d = Some j"
      "channels (loops w j) q = Some (conn_ts d)" "registered (ConnPtr q) d (interests (loops w j))"
      "fd d \<in> open_fds w" "fd d \<noteq> -1" by blast
    moreover have "fd d \<noteq> fd c" using world_reg_fd [OF w c(1) d False] .
    ultimately show ?thesis by (auto simp: conn_known_def w'_def registered_def)
  qed
  moreover have "\<exists>d. conns w' q = Some d \<and> el d = Some j \<and> conn_ts d = t"
    if "channels (loops w' j) q = Some t" for j q t
  proof -
    have "channels (loops w j) q = Some t" using that by (simp add: w'_def split: if_splits)
    from world_reg_channel [OF w this] c(1) show ?thesis by (auto simp: w'_def)
  qed
  moreover have "q = r" if "conns w' q = Some d" "conns w' r = Some e" "fd d = fd e" for q r d e
  proof -
    have "\<exists>d0. conns w x = Some d0 \<and> fd d0 = fd d'" if "conns w' x = Some d'" for x d'
      using that c(1) by (cases "x = p") (auto simp: w'_def)
    with that show ?thesis using world_reg_fd [OF w] by metis
  qed
  moreover have "interests (loops w' j) f = None" if "f \<notin> open_fds w'" for j f
    using that world_reg_closed [OF w] reg(3) by (auto simp: w'_def)
  moreover have "\<exists>d. conns w' q = Some d \<and> fd d = f \<and> el d = Some j"
    if "interests (loops w' j) f = Some (ev, ConnPtr q)" for j f ev q
  proof -
    have "f = fd c \<and> j = i \<and> q = p \<or> interests (loops w j) f = Some (ev, ConnPtr q)"
      using that by (auto simp: w'_def registration_def split: if_splits)
    then show ?thesis using world_reg_interest [OF w, of j f ev q] c by (auto simp: w'_def)
  qed
  moreover have "timeout_of j (snd t)" if "t \<in># timers_of (timers (loops w' j))" for j t
    using that world_reg_timer [OF w, of t j] by (auto simp: w'_def split: if_splits)
  moreover have "pool_ok w'" using w by (simp add: world_reg_def w'_def)
  ultimately show "world_reg w'" by (intro world_regI)
qed

section \<open>Closing a connection\<close>

lemma drop_conn_reg:
  assumes w: "world_reg w" and c: "conns w p = Some c" "el c = Some i"
  shows "world_reg (free_conn p (sys_close (fd c)
    (on_loop i (remove_channel p (conn_ts c)) (sys_close (fd c) w))))" (is "world_reg ?w")
proof (rule world_regI)
  from world_regD [OF w c(1)] c(2) have ch: "channels (loops w i) p = Some (conn_ts c)" by auto
  show "pool_ok ?w" using w by (simp add: world_reg_def)
  fix q d
  assume "conns ?w q = Some d"
  then have d: "conns w q = Some d" "q \<noteq> p" by (auto split: if_splits)
  from world_regD [OF w d(1)] obtain j where "el d = Some j"
    "channels (loops w j) q = Some (conn_ts d)" "registered (ConnPtr q) d (interests (loops w j))"
    "fd d \<in> open_fds w" "fd d \<noteq> -1" .
  moreover have "fd d \<noteq> fd c" using world_reg_fd [OF w c(1) d] .
  ultimately show "conn_known ?w q d"
    using d(2) by (auto simp: conn_known_def registered_def channels_remove)
  fix r e
  assume "conns ?w r = Some e" "fd d = fd e"
  then show "q = r" using world_reg_fd [OF w d(1), of r e] by (auto split: if_splits)
next
  fix j q t
  from world_regD [OF w c(1)] c(2) have ch: "channels (loops w i) p = Some (conn_ts c)" by auto
  assume t: "channels (loops ?w j) q = Some t"
  then have "channels (loops w j) q = Some t" "\<not> (j = i \<and> q = p)"
    using ch by (auto simp: channels_remove split: if_splits)
  with world_reg_channel [OF w this(1)] c show
    "\<exists>d. conns ?w q = Some d \<and> el d = Some j \<and> conn_ts d = t"
    by auto
next
  fix j f
  assume "f \<notin> open_fds ?w"
  then show "interests (loops ?w j) f = None" using world_reg_closed [OF w] by auto
next
  fix j f ev q
  assume "interests (loops ?w j) f = Some (ev, ConnPtr q)"
  then have f: "interests (loops w j) f = Some (ev, ConnPtr q)" "f \<noteq> fd c"
    by (auto split: if_splits)
  from world_reg_interest [OF w f(1)] obtain d where "conns w q = Some d" "fd d = f" "el d = Some j"
    by blast
  then show "\<exists>d. conns ?w q = Some d \<and> fd d = f \<and> el d = Some j" using f(2) c by auto
next
  fix j t
  assume "t \<in># timers_of (timers (loops ?w j))"
  then show "timeout_of j (snd t)" using world_reg_timer [OF w, of t j] by (auto split: if_splits)
qed

lemma close_callback_ok:
  assumes w: "world_reg w" and c: "conns w p = Some c"
  shows "\<exists>w'. close_callback p w = Inr w' \<and> world_reg w' \<and> conns w' = (conns w)(p := None) \<and>
    same_funcs w w' \<and> deferred w' = deferred w \<and>
    close_calls w' = close_calls w @ [fd c, fd c] \<and> fd c \<notin> open_fds w'"
proof -
  from world_regD [OF w c] obtain i where i: "el c = Some i" "fd c \<noteq> -1" .
  define w1 where "w1 = put_conn p (c\<lparr>event := 0\<rparr>) w"
  define c2 where "c2 = c\<lparr>event := 0, sevent := 0\<rparr>"
  note ev = set_event_ok [OF w c, of 0, folded w1_def]
  have c1: "conns w1 p = Some (c\<lparr>event := 0\<rparr>)" by (simp add: w1_def)
  note up = update_on_loop_ok [OF ev(2) c1, of i]
  define w2 where "w2 = put_conn p ((c\<lparr>event := 0\<rparr>)\<lparr>sevent := event (c\<lparr>event := 0\<rparr>)\<rparr>) (on_loop i
    (\<lambda>l. l\<lparr>interests := (interests (loops w1 i))(fd (c\<lparr>event := 0\<rparr>) :=
      registration (ConnPtr p) (event (c\<lparr>event := 0\<rparr>)))\<rparr>) w1)"
  have u2: "update_conn p w1 = Inr w2" "world_reg w2" "same_funcs w1 w2"
    using up i by (simp_all add: w2_def)
  have cc2: "conns w2 p = Some c2" by (simp add: w2_def c2_def)
  have ids: "fd c2 = fd c" "conn_ts c2 = conn_ts c" "el c2 = Some i" using i by (simp_all add: c2_def)
  let ?w = "free_conn p (sys_close (fd c) (on_loop i (remove_channel p (conn_ts c)) (sys_close (fd c) w2)))"
  have "close_callback p w = Inr ?w"
    using ev(1) u2(1) cc2 ids i(2)
    by (simp add: close_callback_def Let_def loop_of_def delete_conn_def)
  moreover have "world_reg ?w" using drop_conn_reg [OF u2(2) cc2] ids by simp
  moreover have "same_funcs w ?w" by (simp add: same_funcs_def w2_def w1_def)
  ultimately show ?thesis by (auto simp: w2_def w1_def fun_eq_iff)
qed

section \<open>What a handler of one connection may do\<close>

text \<open>
  It keeps the invariant and leaves the other connections alone. The functions it adds are
  updates of its own connection, which is still there, for the loop \<open>e\<close> of that connection, and
  when the events it asks for are not yet registered, such an update is waiting.
\<close>

definition grows :: "nat option \<Rightarrow> nat \<Rightarrow> world \<Rightarrow> world \<Rightarrow> bool" where
  "grows e p w w' \<longleftrightarrow> (\<forall>i. \<exists>fs. funcs (loops w' i) = funcs (loops w i) @ fs \<and> (fs \<noteq> [] \<longrightarrow> e = Some i) \<and>
     (\<forall>t \<in> set fs. t = UpdateChannel i p \<and> (\<exists>c. conns w' p = Some c \<and> el c = Some i)))"

definition settled :: "nat \<Rightarrow> world \<Rightarrow> bool" where
  "settled p w \<longleftrightarrow> (\<forall>c i. conns w p = Some c \<longrightarrow> el c = Some i \<longrightarrow> sevent c \<noteq> event c \<longrightarrow>
     UpdateChannel i p \<in> set (funcs (loops w i)))"

definition handled :: "nat option \<Rightarrow> nat \<Rightarrow> world \<Rightarrow> world \<Rightarrow> bool" where
  "handled e p w w' \<longleftrightarrow> world_inv w' \<and> (\<forall>q. q \<noteq> p \<longrightarrow> conns w' q = conns w q) \<and> grows e p w w' \<and>
     deferred w' = deferred w \<and> settled p w'"

lemma grows_same: "same_funcs w w' \<Longrightarrow> grows e p w w'"
  by (force simp: grows_def same_funcs_def)

lemma settled_gone [simp]: "conns w p = None \<Longrightarrow> settled p w"
  by (simp add: settled_def)

lemma settled_now: "conns w p = Some c \<Longrightarrow> sevent c = event c \<Longrightarrow> settled p w"
  by (simp add: settled_def)

text \<open>A step inside a handler that changes only the connection's own state is invisible.\<close>

lemma handled_put:
  assumes "handled e p (put_conn p d w) w'"
  shows "handled e p w w'"
  using assms by (auto simp: handled_def grows_def)

lemma close_handled:
  assumes "world_reg w" and "conns w p = Some c"
    and "\<forall>q d. q \<noteq> p \<longrightarrow> conns w q = Some d \<longrightarrow> conn_state d"
  shows "\<exists>w'. close_callback p w = Inr w' \<and> handled e p w w' \<and> conns w' p = None"
proof -
  from close_callback_ok [OF assms(1,2)] obtain w' where w': "close_callback p w = Inr w'"
    "world_reg w'" "conns w' = (conns w)(p := None)" "same_funcs w w'" "deferred w' = deferred w"
    by blast
  then have "handled e p w w'"
    using assms(3) by (simp add: handled_def world_inv_def grows_same)
  with w' show ?thesis by auto
qed

lemma close_safe:
  assumes "world_reg w" and "conns w p = Some c"
    and "\<forall>q d. q \<noteq> p \<longrightarrow> conns w q = Some d \<longrightarrow> conn_state d"
  shows "safe (handled e p w) (close_callback p w)"
proof -
  from close_handled [OF assms, of e] obtain w' where "close_callback p w = Inr w'" "handled e p w w'"
    by blast
  then show ?thesis by simp
qed

lemma conn_close_handled:
  assumes "world_reg w" and "conns w p = Some c" and "close_cb c = Some CloseCb"
    and "\<forall>q d. q \<noteq> p \<longrightarrow> conns w q = Some d \<longrightarrow> conn_state d"
  shows "safe (handled e p w) (conn_close p w)"
  using close_safe [OF assms(1,2,4)] assms(2,3) by (simp add: conn_close_def)

lemma start_timer_ok:
  assumes w: "world_reg w" and c: "conns w p = Some c"
  shows "\<exists>w'. start_timer p now ms r w = Inr w' \<and> world_reg w' \<and> same_funcs w w' \<and>
    conns w' = (conns w)(p \<mapsto> bump_timer c) \<and> deferred w' = deferred w"
proof -
  from world_regD [OF w c] obtain i where i: "el c = Some i" .
  let ?c = "bump_timer c"
  let ?w = "on_loop i (run_after now ms (TimeoutCallback i p (conn_ts ?c) (timer_id ?c) r)) (put_conn p ?c w)"
  have "start_timer p now ms r w = Inr ?w"
    using c i by (simp add: start_timer_def Let_def loop_of_def bump_timer_def)
  moreover have "world_reg (put_conn p ?c w)"
    by (rule world_reg_put [OF w c]) (simp add: same_reg_def bump_timer_def)
  then have "world_reg ?w" by (rule world_reg_same) (simp add: same_registry_def tmq.push)
  ultimately show ?thesis by (simp add: same_funcs_def)
qed

lemma bump_timer_frame [simp]:
  "fd (bump_timer c) = fd c" "event (bump_timer c) = event c" "sevent (bump_timer c) = sevent c"
  "el (bump_timer c) = el c" "conn_ts (bump_timer c) = conn_ts c" "ctx (bump_timer c) = ctx c"
  "conn_state (bump_timer c) = conn_state c" "close_cb (bump_timer c) = close_cb c"
  "timer_id (bump_timer c) = to_int32 (timer_id c + 1)"
  by (simp_all add: bump_timer_def conn_state_def)

section \<open>The callbacks keep the invariant\<close>

definition sync_app :: "app \<Rightarrow> bool" where
  "sync_app app \<longleftrightarrow> (\<forall>svc md bs. app svc md bs \<noteq> Defers)"

text \<open>The connection a callback runs on: registered, in a state, the others undisturbed.\<close>

definition own :: "nat option \<Rightarrow> nat \<Rightarrow> conn \<Rightarrow> world \<Rightarrow> bool" where
  "own e p c w \<longleftrightarrow> world_reg w \<and> el c = e \<and> conns w p = Some c \<and> conn_state c \<and>
     (\<forall>q d. q \<noteq> p \<longrightarrow> conns w q = Some d \<longrightarrow> conn_state d)"

lemma own_inv: "world_inv w \<Longrightarrow> conns w p = Some c \<Longrightarrow> own (el c) p c w"
  by (simp add: own_def world_inv_def)

lemma own_put:
  assumes "own e p c w" and "same_reg c d" and "conn_state d"
  shows "own e p d (put_conn p d w)"
  using assms world_reg_put [of w p c d] by (simp add: own_def same_reg_def)

lemma own_handled:
  assumes "own e p c w'" and "\<forall>q. q \<noteq> p \<longrightarrow> conns w' q = conns w q" and "grows e p w w'"
    and "deferred w' = deferred w" and "settled p w'"
  shows "handled e p w w'"
proof -
  have "conn_state d" if "conns w' q = Some d" for q d
    using assms(1) that by (cases "q = p") (auto simp: own_def)
  then show ?thesis using assms by (simp add: handled_def world_inv_def own_def)
qed

text \<open>Only \<^verbatim>\<open>handle_events\<close> writes to a socket, and no handler changes what is registered.\<close>

abbreviation same_rest :: "world \<Rightarrow> world \<Rightarrow> bool" where
  "same_rest w w' \<equiv> sent w' = sent w \<and> protocols w' = protocols w \<and> services w' = services w"

lemma rest_frames [simp]:
  "sent (put_conn p c w) = sent w" "sent (on_loop i g w) = sent w" "sent (sys_close f w) = sent w"
  "sent (free_conn p w) = sent w"
  "protocols (put_conn p c w) = protocols w" "protocols (on_loop i g w) = protocols w"
  "protocols (sys_close f w) = protocols w" "protocols (free_conn p w) = protocols w"
  "services (put_conn p c w) = services w" "services (on_loop i g w) = services w"
  "services (sys_close f w) = services w" "services (free_conn p w) = services w"
  by (simp_all add: put_conn_def on_loop_def sys_close_def free_conn_def)

lemma rest_set_event: "set_event p ev w = Inr w' \<Longrightarrow> same_rest w w'"
  by (auto simp: set_event_def and_then_Inr_iff)

lemma rest_update_on_loop: "update_on_loop i p w = Inr w' \<Longrightarrow> same_rest w w'"
  by (auto simp: update_on_loop_def and_then_Inr_iff)

lemma rest_update_conn: "update_conn p w = Inr w' \<Longrightarrow> same_rest w w'"
  by (auto simp: update_conn_def and_then_Inr_iff dest: rest_update_on_loop)

lemma rest_delete_conn: "delete_conn p w = Inr w' \<Longrightarrow> same_rest w w'"
  by (auto simp: delete_conn_def and_then_Inr_iff)

lemma rest_close:
  assumes "close_callback p w = Inr w'"
  shows "same_rest w w'"
proof -
  from assms obtain w1 w2 i and c :: conn where s: "set_event p 0 w = Inr w1" "update_conn p w1 = Inr w2"
    "delete_conn p (on_loop i (remove_channel p (conn_ts c)) (sys_close (fd c) w2)) = Inr w'"
    unfolding close_callback_def Let_def and_then_Inr_iff by blast
  from rest_set_event [OF s(1)] rest_update_conn [OF s(2)] rest_delete_conn [OF s(3)] show ?thesis by simp
qed

lemma rest_start_timer: "start_timer p now ms r w = Inr w' \<Longrightarrow> same_rest w w'"
  by (auto simp: start_timer_def and_then_Inr_iff Let_def)

lemma rest_write_complete:
  assumes "write_complete_callback now p w = Inr w'"
  shows "same_rest w w'"
proof -
  from assms obtain c x where c: "get_conn p w = Inr c" "ctx c = Some x"
    unfolding write_complete_callback_def and_then_Inr_iff by (auto split: option.splits)
  define w1 where "w1 = put_conn p (c\<lparr>ctx := None, rbuf := clear (rbuf c), wbuf := clear (wbuf c)\<rparr>) w"
  have w1: "same_rest w w1" by (simp add: w1_def)
  show ?thesis
  proof (cases "conn_type (base_of x) = ConnType_Short")
    case True
    then have "close_callback p w1 = Inr w'"
      using assms c by (simp add: write_complete_callback_def Let_def w1_def)
    then show ?thesis using rest_close w1 by metis
  next
    case False
    then have "and_then (set_event p EPOLLIN w1) (\<lambda>w2. and_then (update_conn p w2) (\<lambda>w3.
        if read_timeout_ms w3 > 0 then start_timer p now (read_timeout_ms w3) True w3 else Inr w3)) = Inr w'"
      using assms c by (simp add: write_complete_callback_def Let_def w1_def)
    then obtain w2 w3 where s: "set_event p EPOLLIN w1 = Inr w2" "update_conn p w2 = Inr w3"
      "(if read_timeout_ms w3 > 0 then start_timer p now (read_timeout_ms w3) True w3 else Inr w3) = Inr w'"
      unfolding and_then_Inr_iff by blast
    from s(3) rest_start_timer have "same_rest w3 w'" by (auto split: if_splits)
    with rest_set_event [OF s(1)] rest_update_conn [OF s(2)] w1 show ?thesis by simp
  qed
qed

lemma arm_write_ok:
  assumes o: "own e p c w" and x: "ctx c \<noteq> None"
  shows "\<exists>w' d. arm_write now p w = Inr w' \<and> handled e p w w' \<and> conns w' p = Some d \<and>
    event d = EPOLLOUT \<and> wbuf d = wbuf c \<and> ctx d = ctx c \<and> rbuf d = rbuf c \<and> fd d = fd c \<and> el d = el c \<and>
    proto_idx d = proto_idx c \<and> same_rest w w' \<and>
    (\<exists>i. el d = Some i \<and> UpdateChannel i p \<in> set (funcs (loops w' i)))"
proof -
  define c1 where "c1 = c\<lparr>event := EPOLLOUT\<rparr>"
  define w1 where "w1 = put_conn p c1 w"
  from o have w: "world_reg w" "conns w p = Some c" "conn_state c" by (simp_all add: own_def)
  have "conn_state c1" using w(3) x by (auto simp: c1_def conn_state_def)
  then have o1: "own e p c1 w1" using own_put [OF o] by (simp add: w1_def c1_def same_reg_def)
  then have "world_reg w1" "conns w1 p = Some c1" by (simp_all add: own_def)
  then obtain i where i: "el c1 = Some i" by (rule world_regD)
  define w2 where "w2 = on_loop i (add_func (UpdateChannel i p)) w1"
  have reg: "world_reg w2"
    by (rule world_reg_same [of w1]) (use o1 in \<open>simp_all add: own_def w2_def same_registry_def\<close>)
  have c2: "conns w2 p = Some c1" using o1 by (simp add: own_def w2_def)
  have o2: "own e p c1 w2" using o1 reg c2 by (simp add: own_def w2_def)
  have frame: "conns w2 q = conns w q" if "q \<noteq> p" for q
    using that by (simp add: w2_def w1_def)
  have fs: "funcs (loops w2 j) = funcs (loops w j) @ (if j = i then [UpdateChannel i p] else [])" for j
    by (simp add: w2_def w1_def)
  have e: "e = Some i" using o i by (simp add: own_def c1_def)
  have grow: "grows e p w w'" if "same_funcs w2 w'" "conns w' p = Some d" "el d = el c1" for w' d
    using that i fs e by (auto simp: grows_def same_funcs_def)
  have set: "settled p w'" if "same_funcs w2 w'" "conns w' p = Some d" "el d = el c1" for w' d
    using that i fs by (simp add: settled_def same_funcs_def)
  have "deferred w2 = deferred w" by (simp add: w2_def w1_def)
  with own_handled [OF o2] frame grow [of w2 c1] set [of w2 c1] c2 have h: "handled e p w w2"
    by (simp add: same_funcs_def)
  from start_timer_ok [OF reg c2] obtain w3 where w3:
    "start_timer p now (write_timeout_ms w2) False w2 = Inr w3" "world_reg w3" "same_funcs w2 w3"
    "conns w3 = (conns w2)(p \<mapsto> bump_timer c1)" "deferred w3 = deferred w2" by blast
  have "own e p (bump_timer c1) w3" using o2 w3 by (simp add: own_def)
  then have "handled e p w w3"
    by (rule own_handled) (use w3 frame h in \<open>auto simp: handled_def intro!: grow set\<close>)
  moreover have "conns w1 p = Some c1" "loop_of c1 = Inr i" "write_timeout_ms w2 = write_timeout_ms w1"
    using \<open>conns w1 p = Some c1\<close> by (simp_all add: i loop_of_def w2_def)
  ultimately have run: "arm_write now p w = (if write_timeout_ms w2 > 0
      then start_timer p now (write_timeout_ms w2) False w2 else Inr w2)"
    using set_event_ok(1) [OF w(1,2)]
    by (simp add: arm_write_def Let_def flip: c1_def w1_def) (simp flip: w2_def)
  have "event c1 = EPOLLOUT" "wbuf c1 = wbuf c" "ctx c1 = ctx c" "rbuf c1 = rbuf c" "fd c1 = fd c"
    "el c = Some i" "proto_idx c1 = proto_idx c" using i by (simp_all add: c1_def)
  moreover have "same_rest w w2" by (simp add: w2_def w1_def)
  moreover from this rest_start_timer [OF w3(1)] have "same_rest w w3" by simp
  moreover have "UpdateChannel i p \<in> set (funcs (loops w2 i))" by (simp add: fs)
  moreover from this have "UpdateChannel i p \<in> set (funcs (loops w3 i))"
    using w3(3) by (simp add: same_funcs_def)
  ultimately show ?thesis
    using run h w3(1,4) \<open>handled e p w w3\<close> c2 i
    by (cases "write_timeout_ms w2 > 0") (auto simp: bump_timer_def)
qed

lemma arm_write_handled:
  assumes "own e p c w" and "ctx c \<noteq> None"
  shows "safe (handled e p w) (arm_write now p w)"
  using arm_write_ok [OF assms, of now] by auto

lemma response_handled:
  assumes o: "own e p c w" and x: "ctx c \<noteq> None"
  shows "safe (handled e p w) (response_callback now p r w)"
proof (cases r)
  case None
  then show ?thesis by (simp add: response_callback_def)
next
  case (Some resp)
  from x obtain x where x: "ctx c = Some x" by blast
  let ?x = "on_base (\<lambda>b. b\<lparr>rpc_status := Some RpcStatus_OK, payload := resp\<rparr>) x"
  have c: "conns w p = Some c" "conn_state c" using o by (simp_all add: own_def)
  have pack: "safe fst (ctx_pack_response ?x (wbuf c))" by (rule pack_response_safe) simp
  have arm: "safe (handled e p w) (arm_write now p (put_conn p (c\<lparr>ctx := Some ?x, wbuf := b\<rparr>) w))" for b
  proof -
    let ?d = "c\<lparr>ctx := Some ?x, wbuf := b\<rparr>"
    have "conn_state ?d" using c(2) x by (auto simp: conn_state_def)
    then have "own e p ?d (put_conn p ?d w)" using own_put [OF o, of ?d] by (simp add: same_reg_def)
    then have "safe (handled e p (put_conn p ?d w)) (arm_write now p (put_conn p ?d w))"
      by (rule arm_write_handled) simp
    then show ?thesis by (rule safe_mono) (rule handled_put)
  qed
  have "safe (handled e p w) (and_then (ctx_pack_response ?x (wbuf c)) (\<lambda>(ret, b).
    and_then (if \<not> ret then close_callback p (put_conn p (c\<lparr>ctx := Some ?x, wbuf := b\<rparr>) w)
              else Inr (put_conn p (c\<lparr>ctx := Some ?x, wbuf := b\<rparr>) w)) (arm_write now p)))"
    by (rule safe_bind [OF pack]) (use arm in auto)
  then show ?thesis by (simp add: response_callback_def Some c x Let_def)
qed

lemma request_handled:
  assumes o: "own e p c w" and x: "ctx c \<noteq> None" and app: "sync_app app"
  shows "safe (handled e p w) (request_callback app now p w)"
proof -
  from x obtain x where x': "ctx c = Some x" by blast
  have c: "conns w p = Some c" using o by (simp add: own_def)
  have close: "safe (handled e p w) (close_callback p w)"
    using o by (intro close_safe [of w p c]) (auto simp: own_def)
  show ?thesis
    using app response_handled [OF o x] close
    by (auto simp: request_callback_def c x' sync_app_def intro!: safe_and_then lifetime
        split: option.splits app_reply.splits)
qed

lemma data_read_handled:
  assumes o: "own e p c w" and app: "sync_app app" and ev: "event c = EPOLLIN" "sevent c = EPOLLIN"
  shows "safe (handled e p w) (data_read_callback app now p w)"
proof -
  have c: "conns w p = Some c" "conn_state c" using o by (simp_all add: own_def)
  have k: "safe (handled e p w) (let w1 = put_conn p (c\<lparr>proto_idx := i, ctx := x, rbuf := b\<rparr>) w in
      if i \<ge> length (protocols w) then conn_close p w1
      else if res = Some ParseProtocol_Error then conn_close p w1
      else if res = Some ParseProtocol_NoEnoughData then Inr w1
      else request_callback app now p w1)"
    if q: "i < length (protocols w) \<longrightarrow> res \<noteq> Some ParseProtocol_Error \<longrightarrow>
      res \<noteq> Some ParseProtocol_NoEnoughData \<longrightarrow> x \<noteq> None" for i res x b
  proof -
    let ?d = "c\<lparr>proto_idx := i, ctx := x, rbuf := b\<rparr>"
    have "conn_state ?d" using c(2) ev by (simp add: conn_state_def)
    then have od: "own e p ?d (put_conn p ?d w)" using own_put [OF o, of ?d] by (simp add: same_reg_def)
    then have "safe (handled e p (put_conn p ?d w)) (conn_close p (put_conn p ?d w))"
      using c(2) by (intro conn_close_handled [of _ _ ?d]) (auto simp: own_def conn_state_def)
    moreover have "handled e p (put_conn p ?d w) (put_conn p ?d w)"
      using own_handled [OF od] settled_now [of "put_conn p ?d w" p ?d] ev
      by (simp add: grows_same same_funcs_def)
    moreover have "safe (handled e p (put_conn p ?d w)) (request_callback app now p (put_conn p ?d w))"
      if "x \<noteq> None"
      using request_handled [OF od _ app] that by simp
    ultimately show ?thesis
      using q by (auto simp: Let_def intro: safe_mono [OF _ handled_put] handled_put)
  qed
  show ?thesis
    unfolding data_read_callback_def get_conn_simps [OF c(1)] and_then_simps
  proof (rule safe_bind [OF dispatch_safe])
    fix r :: "nat \<times> parse_status option \<times> any_ctx option \<times> buffer"
    obtain i res x b where r: "r = (i, res, x, b)" by (cases r)
    assume "case r of (j, res, y, b') \<Rightarrow> j < length (protocols w) \<longrightarrow> res \<noteq> Some ParseProtocol_Error \<longrightarrow>
      res \<noteq> Some ParseProtocol_NoEnoughData \<longrightarrow> y \<noteq> None"
    then show "safe (handled e p w) (case r of (i, res, x, b) \<Rightarrow>
        let w1 = put_conn p (c\<lparr>proto_idx := i, ctx := x, rbuf := b\<rparr>) w in
        if i \<ge> length (protocols w) then conn_close p w1
        else if res = Some ParseProtocol_Error then conn_close p w1
        else if res = Some ParseProtocol_NoEnoughData then Inr w1
        else request_callback app now p w1)"
      unfolding r prod.case by (rule k)
  qed
qed

lemma write_complete_handled:
  assumes o: "own e p c w" and ev: "event c = EPOLLOUT" "ctx c \<noteq> None"
  shows "safe (handled e p w) (write_complete_callback now p w)"
proof -
  from ev obtain x where x: "ctx c = Some x" by blast
  define c1 where "c1 = c\<lparr>ctx := None, rbuf := clear (rbuf c), wbuf := clear (wbuf c)\<rparr>"
  define w1 where "w1 = put_conn p c1 w"
  have w: "world_reg w" "conns w p = Some c" "conn_state c"
    and others: "\<And>q d. q \<noteq> p \<Longrightarrow> conns w q = Some d \<Longrightarrow> conn_state d"
    using o by (auto simp: own_def)
  have reg1: "world_reg w1"
    unfolding w1_def by (rule world_reg_put [OF w(1,2)]) (simp add: same_reg_def c1_def)
  have c1: "conns w1 p = Some c1" by (simp add: w1_def)
  have close: "safe (handled e p w) (close_callback p w1)"
  proof -
    have "safe (handled e p w1) (close_callback p w1)"
      by (rule close_safe [OF reg1 c1]) (use others in \<open>auto simp: w1_def\<close>)
    then show ?thesis using handled_put [of e p c1 w] by (auto simp: w1_def intro: safe_mono)
  qed
  define w2 where "w2 = put_conn p (c1\<lparr>event := EPOLLIN\<rparr>) w1"
  note e = set_event_ok [OF reg1 c1, of EPOLLIN, folded w2_def]
  have c2: "conns w2 p = Some (c1\<lparr>event := EPOLLIN\<rparr>)" by (simp add: w2_def)
  from world_regD [OF e(2) c2] obtain i where i: "el (c1\<lparr>event := EPOLLIN\<rparr>) = Some i" .
  define c3 where "c3 = c1\<lparr>event := EPOLLIN, sevent := EPOLLIN\<rparr>"
  from update_on_loop_ok(2-4) [OF e(2) c2 i] obtain w3 where w3: "update_conn p w2 = Inr w3"
    "world_reg w3" "same_funcs w2 w3" "conns w3 = (conns w2)(p \<mapsto> c3)" "deferred w3 = deferred w2"
    by (simp add: c3_def)
  have "conn_state c3" using w(3) by (simp add: conn_state_def c3_def c1_def)
  moreover have "el c3 = e" using o by (simp add: own_def c3_def c1_def)
  ultimately have o3: "own e p c3 w3" using w3 others by (simp add: own_def w2_def w1_def)
  have fr: "\<forall>q. q \<noteq> p \<longrightarrow> conns w3 q = conns w q" "same_funcs w w3" "deferred w3 = deferred w"
    using w3 by (simp_all add: w2_def w1_def same_funcs_def)
  have "settled p w3" using o3 by (intro settled_now [of _ _ c3]) (simp_all add: own_def c3_def)
  with fr have h3: "handled e p w w3" using own_handled [OF o3] by (simp add: grows_same)
  from start_timer_ok [OF w3(2), of p c3 now "read_timeout_ms w3" True] w3(4) obtain w4 where w4:
    "start_timer p now (read_timeout_ms w3) True w3 = Inr w4" "world_reg w4" "same_funcs w3 w4"
    "conns w4 = (conns w3)(p \<mapsto> bump_timer c3)" "deferred w4 = deferred w3" by auto
  have o4: "own e p (bump_timer c3) w4" using o3 w4 by (simp add: own_def)
  have "settled p w4" using w4(4) by (intro settled_now [of _ _ "bump_timer c3"]) (simp_all add: c3_def)
  with o4 have h4: "handled e p w w4"
    by (intro own_handled [OF o4])
       (use w4 fr same_funcs_trans [OF fr(2) w4(3)] in \<open>simp_all add: grows_same\<close>)
  show ?thesis
    using close e(1) w3(1) h3 h4 w4(1)
    by (simp add: write_complete_callback_def w(2) x Let_def flip: c1_def) (simp flip: w1_def)
qed

lemma timeout_handled:
  assumes w: "world_inv w"
  shows "\<exists>w'. timeout_callback i p t tid r w = Inr w' \<and> same_funcs w w' \<and>
    (w' = w \<or> handled e p w w' \<and> conns w' p = None \<and> (\<exists>c. conns w p = Some c \<and> el c = Some i))"
proof (cases "channels (loops w i) p = Some t")
  case False
  then show ?thesis by (simp add: timeout_callback_def same_funcs_def)
next
  case True
  have reg: "world_reg w" using w by (simp add: world_inv_def)
  from world_reg_channel [OF reg True] obtain c where c: "conns w p = Some c" "el c = Some i" by blast
  show ?thesis
  proof (cases "timer_id c = tid")
    case False
    with True c show ?thesis by (simp add: timeout_callback_def same_funcs_def)
  next
    case same: True
    from close_callback_ok [OF reg c(1)] obtain w' where w': "close_callback p w = Inr w'" "world_reg w'"
      "conns w' = (conns w)(p := None)" "same_funcs w w'" "deferred w' = deferred w" by blast
    then have "handled e p w w'" using w by (simp add: handled_def world_inv_def grows_same)
    with w' True same c show ?thesis by (simp add: timeout_callback_def)
  qed
qed

lemma update_task_handled:
  assumes o: "own e p c w" and i: "el c = Some i"
  shows "\<exists>w'. update_on_loop i p w = Inr w' \<and> world_inv w' \<and> same_funcs w w' \<and>
    conns w' = (conns w)(p \<mapsto> c\<lparr>sevent := event c\<rparr>) \<and> deferred w' = deferred w"
proof -
  have w: "world_reg w" "conns w p = Some c" "conn_state c" using o by (simp_all add: own_def)
  from update_on_loop_ok(1,3,4) [OF w(1,2) i] obtain w' where w': "update_on_loop i p w = Inr w'"
    "world_reg w'" "same_funcs w w'" "conns w' = (conns w)(p \<mapsto> c\<lparr>sevent := event c\<rparr>)"
    "deferred w' = deferred w" by simp
  have "conn_state (c\<lparr>sevent := event c\<rparr>)" using w(3) by (auto simp: conn_state_def)
  then have "world_inv w'" using w' o by (auto simp: world_inv_def own_def)
  with w' show ?thesis by blast
qed

section \<open>A new connection\<close>

text \<open>What the allocator and the kernel promise: a fresh address, a descriptor that is not open.\<close>

lemma new_conn_reg:
  assumes w: "world_reg w" and a: "conns w a = None" and f: "f \<notin> open_fds w" "f \<noteq> -1"
    and i: "get_next_el (w\<lparr>open_fds := insert f (open_fds w)\<rparr>) = Inr (i, w1)"
  shows "world_reg (on_loop i (add_channel a now) (put_conn a (new_tcp_connection f (Some i) True now) w1))"
    (is "world_reg ?w")
    and "conns w1 = conns w" and "same_funcs w w1" and "deferred w1 = deferred w"
proof -
  let ?v = "w\<lparr>open_fds := insert f (open_fds w)\<rparr>"
  have "pool_ok ?v" using w by (simp add: world_reg_def pool_ok_def)
  from get_next_el_ok [OF this] i have w1: "pool_ok w1" "w1 = ?v\<lparr>next_el := next_el w1\<rparr>" by auto
  have fr: "conns w1 = conns w" "loops w1 = loops w" "open_fds w1 = insert f (open_fds w)"
    "deferred w1 = deferred w"
    using arg_cong [OF w1(2), of conns] arg_cong [OF w1(2), of loops] arg_cong [OF w1(2), of open_fds]
      arg_cong [OF w1(2), of deferred] by simp_all
  then show "conns w1 = conns w" "same_funcs w w1" "deferred w1 = deferred w"
    by (simp_all add: same_funcs_def)
  have no_channel: "channels (loops w j) a = None" for j
    using world_reg_channel [OF w, of j a] a by (cases "channels (loops w j) a") auto
  show "world_reg ?w"
  proof (rule world_regI)
    show "pool_ok ?w" using w1(1) by simp
    fix q d
    assume d: "conns ?w q = Some d"
    show "conn_known ?w q d"
    proof (cases "q = a")
      case True
      with d f world_reg_closed [OF w f(1)] show ?thesis
        by (auto simp: conn_known_def new_tcp_connection_def registered_def registration_def fr)
    next
      case False
      with d have d: "conns w q = Some d" by (simp add: fr)
      from world_regD [OF w d] obtain j where "el d = Some j" "channels (loops w j) q = Some (conn_ts d)"
        "registered (ConnPtr q) d (interests (loops w j))" "fd d \<in> open_fds w" "fd d \<noteq> -1" .
      with False show ?thesis by (auto simp: conn_known_def fr)
    qed
    fix r e
    assume e: "conns ?w r = Some e" "fd d = fd e"
    have old: "fd d' \<noteq> f" if "conns w x = Some d'" for x d'
      using world_regD [OF w that] f(1) by metis
    have "q = a" if "fd d = f"
      using d old that by (auto simp: fr split: if_splits)
    moreover have "r = a" if "fd e = f"
      using e(1) old that by (auto simp: fr split: if_splits)
    moreover have "fd d = f" if "q = a" using d that by (auto simp: new_tcp_connection_def)
    moreover have "fd e = f" if "r = a" using e(1) that by (auto simp: new_tcp_connection_def)
    moreover have "q = r" if "q \<noteq> a" "r \<noteq> a"
      using d e that world_reg_fd [OF w, of q d r e] by (auto simp: fr)
    ultimately show "q = r" using e(2) by metis
  next
    fix j q t
    assume "channels (loops ?w j) q = Some t"
    then consider "q = a" "j = i" "t = now" | "q \<noteq> a" "channels (loops w j) q = Some t"
      using no_channel [of j] by (cases "q = a") (auto simp: fr split: if_splits)
    then show "\<exists>c. conns ?w q = Some c \<and> el c = Some j \<and> conn_ts c = t"
      using world_reg_channel [OF w] by cases (auto simp: new_tcp_connection_def fr)
  next
    fix j g
    assume "g \<notin> open_fds ?w"
    then show "interests (loops ?w j) g = None" using world_reg_closed [OF w] by (simp add: fr)
  next
    fix j g ev q
    assume "interests (loops ?w j) g = Some (ev, ConnPtr q)"
    then have "interests (loops w j) g = Some (ev, ConnPtr q)" by (auto simp: fr split: if_splits)
    from world_reg_interest [OF w this] a show "\<exists>d. conns ?w q = Some d \<and> fd d = g \<and> el d = Some j"
      by (auto simp: fr)
  next
    fix j t
    assume "t \<in># timers_of (timers (loops ?w j))"
    then show "timeout_of j (snd t)" using world_reg_timer [OF w, of t j] by (auto simp: fr split: if_splits)
  qed
qed

lemma new_connection_handled:
  assumes w: "world_inv w" and a: "conns w a = None" and f: "f \<notin> open_fds w" "f \<noteq> -1"
  shows "safe (handled None a w) (new_connection_callback now a nb f (w\<lparr>open_fds := insert f (open_fds w)\<rparr>))"
proof -
  let ?v = "w\<lparr>open_fds := insert f (open_fds w)\<rparr>"
  have reg: "world_reg w" and others: "\<And>q d. conns w q = Some d \<Longrightarrow> conn_state d"
    using w by (auto simp: world_inv_def)
  then have "pool_ok ?v" by (simp add: world_reg_def pool_ok_def)
  from get_next_el_ok [OF this] obtain i w1 where i: "get_next_el ?v = Inr (i, w1)" by blast
  define c where "c = (new_tcp_connection f (Some i) True now :: conn)"
  define w3 where "w3 = on_loop i (add_channel a now) (put_conn a c w1)"
  note n = new_conn_reg(1) [OF reg a f i, of now, folded c_def, folded w3_def] new_conn_reg(2-4) [OF reg a f i]
  have c3: "conns w3 a = Some c" by (simp add: w3_def)
  define w4 where "w4 = put_conn a (c\<lparr>event := EPOLLIN\<rparr>) w3"
  note e = set_event_ok [OF n(1) c3, of EPOLLIN, folded w4_def]
  have c4: "conns w4 a = Some (c\<lparr>event := EPOLLIN\<rparr>)" "el (c\<lparr>event := EPOLLIN\<rparr>) = Some i"
    by (simp_all add: w4_def c_def new_tcp_connection_def)
  define c5 where "c5 = c\<lparr>event := EPOLLIN, sevent := EPOLLIN\<rparr>"
  from update_on_loop_ok(2-4) [OF e(2) c4] obtain w5 where w5: "update_conn a w4 = Inr w5"
    "world_reg w5" "same_funcs w4 w5" "conns w5 = (conns w4)(a \<mapsto> c5)" "deferred w5 = deferred w4"
    by (simp add: c5_def)
  have fr5: "same_funcs w w5" "deferred w5 = deferred w" "conns w5 = (conns w)(a \<mapsto> c5)"
    using w5 n(2-4) by (simp_all add: w4_def w3_def same_funcs_def)
  from start_timer_ok [OF w5(2), of a c5 now "read_timeout_ms w5" True] w5(4) obtain w6 where w6:
    "start_timer a now (read_timeout_ms w5) True w5 = Inr w6" "world_reg w6" "same_funcs w5 w6"
    "conns w6 = (conns w5)(a \<mapsto> bump_timer c5)" "deferred w6 = deferred w5" by auto
  have fin: "handled None a w (put_conn a (d\<lparr>data_read_cb := Some DataReadCb, close_cb := Some CloseCb,
      write_complete_cb := Some WriteCompleteCb\<rparr>) u)" (is "handled None a w (put_conn a ?d u)")
    if u: "world_reg u" "same_funcs w u" "deferred u = deferred w" "conns u = (conns w)(a \<mapsto> d)"
      and d: "d = c5 \<or> d = bump_timer c5" for d u
  proof -
    have "conns u a = Some d" using u by simp
    then have "world_reg (put_conn a ?d u)"
      by (rule world_reg_put [OF u(1)]) (simp add: same_reg_def)
    moreover have "conn_state ?d"
      using d by (auto simp: conn_state_def c5_def c_def new_tcp_connection_def bump_timer_def)
    ultimately have "world_inv (put_conn a ?d u)" using others u(4) by (simp add: world_inv_def)
    moreover have "settled a (put_conn a ?d u)"
      by (rule settled_now [of _ _ ?d]) (use d in \<open>auto simp: c5_def\<close>)
    moreover have "grows None a w (put_conn a ?d u)"
      by (rule grows_same) (use u(2) in \<open>simp add: same_funcs_def\<close>)
    ultimately show ?thesis using u(3,4) by (simp add: handled_def)
  qed
  from fin [OF w5(2) fr5] fin [OF w6(2), of "bump_timer c5"] w6 fr5 same_funcs_trans [OF fr5(1) w6(3)]
  have "safe (handled None a w) (and_then (if read_timeout_ms w5 > 0
      then start_timer a now (read_timeout_ms w5) True w5 else Inr w5) (\<lambda>w6.
       and_then (get_conn a w6) (\<lambda>c.
         Inr (put_conn a (c\<lparr>data_read_cb := Some DataReadCb, close_cb := Some CloseCb,
           write_complete_cb := Some WriteCompleteCb\<rparr>) w6))))"
    by (simp add: get_conn_def)
  then show ?thesis
    using i e(1) w5(1)
    by (simp add: new_connection_callback_def Let_def flip: c_def) (simp flip: w3_def)
qed

section \<open>Events\<close>

lemma conn_events_handled:
  assumes w: "world_inv w" and c: "conns w p = Some c" and app: "sync_app app"
    and ev: "events AND EPOLLIN \<noteq> 0 \<longrightarrow> sevent c = EPOLLIN"
      "events AND EPOLLOUT \<noteq> 0 \<longrightarrow> sevent c = EPOLLOUT" and now_reading: "sevent c = event c"
  shows "safe (handled (el c) p w) (conn_handle_events app now p events ra wa1 wa2 w)"
proof -
  have o: "own (el c) p c w" using w c by (rule own_inv)
  then have st: "conn_state c" by (simp add: own_def)
  have "safe (handled (el c) p w) (run_callback app now p cb (put_conn p d (send_bytes (fd c) out w)))"
    if h: "tcp_handle_events events ra wa1 wa2 c = Inr (d, out, cb)" for d out cb
  proof -
    note same = same_but_buffersD [OF tcp_handle_events_frame [OF h]]
    let ?v = "send_bytes (fd c) out w"
    let ?w = "put_conn p d ?v"
    have "world_reg w" using o by (simp add: own_def)
    then have "world_reg ?v" by (rule world_reg_same) (simp add: same_registry_def)
    then have ov: "own (el c) p c ?v" using o by (simp add: own_def)
    have std: "conn_state d" using st by (simp only: conn_state_def same)
    then have od: "own (el c) p d ?w" using own_put [OF ov, of d] std by (simp add: same_reg_def same)
    have up: "handled (el c) p w w'" if "handled (el c) p ?w w'" for w'
      using that by (auto simp: handled_def grows_def)
    have "settled p ?w" by (rule settled_now [of _ _ d]) (simp_all add: same now_reading)
    then have "handled (el c) p ?w ?w" using own_handled [OF od] by (simp add: grows_same same_funcs_def)
    moreover have "safe (handled (el c) p ?w) (close_callback p ?w)"
      using od by (intro close_safe [of ?w p d]) (auto simp: own_def)
    moreover have "safe (handled (el c) p ?w) (data_read_callback app now p ?w)" if "events AND EPOLLIN \<noteq> 0"
      using data_read_handled [OF od app] ev(1) now_reading same that by simp
    moreover have "safe (handled (el c) p ?w) (write_complete_callback now p ?w)" if "events AND EPOLLOUT \<noteq> 0"
      using write_complete_handled [OF od] ev(2) now_reading std same that by (auto simp: conn_state_def)
    moreover have "cb = None \<or> cb = Some CloseCb \<or> cb = Some DataReadCb \<and> events AND EPOLLIN \<noteq> 0 \<or>
        cb = Some WriteCompleteCb \<and> events AND EPOLLOUT \<noteq> 0"
      using h st by (auto simp: tcp_handle_events_def conn_state_def and_then_Inr_iff Let_def split: if_splits)
    ultimately have "safe (handled (el c) p ?w) (run_callback app now p cb ?w)"
      by (auto simp: run_callback_def)
    then show ?thesis using up by (rule safe_mono)
  qed
  moreover have "no_lifetime_fault (tcp_handle_events events ra wa1 wa2 c)"
    by (auto simp: tcp_handle_events_def Let_def intro!: safe_intros lifetime)
  ultimately show ?thesis
    unfolding conn_handle_events_def get_conn_simps [OF c] and_then_simps
    by (intro safe_and_then) (auto split: prod.splits)
qed

end
