(* ===== verification/Server_Steps.thy ===== *)
theory Server_Steps
  imports Server_Safety
begin

text \<open>
  The server as a transition system: every loop runs its rounds, and the handlers of different
  loops interleave. A step of a loop is one part of the body of \<^verbatim>\<open>EventLoop::loop\<close>: the return
  of \<^verbatim>\<open>epoll_wait\<close>, one event, the swap of \<^verbatim>\<open>_funcs\<close>, one function, the collection of the due
  timers, one timer. The outcome of a step is a state or a fault.
\<close>

section \<open>Steps\<close>

datatype phase =
    Idle
  | Events "(chan_ptr \<times> 32 word) list"
  | Funcs "task list"
  | Timers "task list"

text \<open>
  What \<^verbatim>\<open>epoll_wait\<close> promises: each registration is reported at most once, with its pointer,
  and of the two events the server asks for only those asked for (errors and hang-ups may be
  reported besides).
\<close>

definition reported :: "world \<Rightarrow> nat \<Rightarrow> (chan_ptr \<times> 32 word) list \<Rightarrow> bool" where
  "reported w i evs \<longleftrightarrow> distinct (map fst evs) \<and>
     (\<forall>(q, ev) \<in> set evs. \<exists>f want. interests (loops w i) f = Some (want, q) \<and>
        (ev AND EPOLLIN \<noteq> 0 \<longrightarrow> want AND EPOLLIN \<noteq> 0) \<and>
        (ev AND EPOLLOUT \<noteq> 0 \<longrightarrow> want AND EPOLLOUT \<noteq> 0))"

text \<open>The event of a registration, with the kernel's answers to the calls of its handler: the
  allocator returns an address that is not in use, \<^verbatim>\<open>accept\<close> a descriptor that is not open.\<close>

fun event_of :: "chan_ptr \<Rightarrow> 32 word \<Rightarrow> io_event \<Rightarrow> bool" where
  "event_of (ConnPtr p) ev (ConnIO q ev' ra wa1 wa2) \<longleftrightarrow> q = p \<and> ev' = ev"
| "event_of AcceptorPtr ev (AcceptIO ev' answer a nb) \<longleftrightarrow> ev' = ev"
| "event_of WakeUperPtr ev (WakeIO ev') \<longleftrightarrow> ev' = ev"
| "event_of _ ev _ \<longleftrightarrow> False"

fun answers_fresh :: "io_event \<Rightarrow> world \<Rightarrow> bool" where
  "answers_fresh (AcceptIO ev (Accepted f) a nb) w \<longleftrightarrow> conns w a = None \<and> f \<notin> open_fds w \<and> f \<noteq> -1"
| "answers_fresh _ w \<longleftrightarrow> True"

definition outcome :: "(nat \<Rightarrow> phase) \<Rightarrow> nat \<Rightarrow> phase \<Rightarrow> world result \<Rightarrow> (world \<times> (nat \<Rightarrow> phase)) result" where
  "outcome ph i next_phase r = and_then r (\<lambda>w. Inr (w, ph(i := next_phase)))"

inductive server_step ::
  "app \<Rightarrow> world \<times> (nat \<Rightarrow> phase) \<Rightarrow> (world \<times> (nat \<Rightarrow> phase)) result \<Rightarrow> bool" for app
where
  poll: "ph i = Idle \<Longrightarrow> \<not> is_stop (loops w i) \<Longrightarrow> reported w i evs \<Longrightarrow>
    server_step app (w, ph) (Inr (w, ph(i := Events evs)))"
| event: "ph i = Events ((q, ev) # rest) \<Longrightarrow> event_of q ev e \<Longrightarrow> answers_fresh e w \<Longrightarrow>
    server_step app (w, ph) (outcome ph i (Events rest) (handle_io app i now e w))"
| swap: "ph i = Events [] \<Longrightarrow> swap_funcs (loops w i) = (fs, l) \<Longrightarrow>
    server_step app (w, ph) (Inr (on_loop i (\<lambda>_. l) w, ph(i := Funcs fs)))"
| func: "ph i = Funcs (t # ts) \<Longrightarrow>
    server_step app (w, ph) (outcome ph i (Funcs ts) (exec_task t w))"
| collect: "ph i = Funcs [] \<Longrightarrow> due_timers now (loops w i) = Inr (ts, l) \<Longrightarrow>
    server_step app (w, ph) (Inr (on_loop i (\<lambda>_. l) w, ph(i := Timers ts)))"
| timer: "ph i = Timers (t # ts) \<Longrightarrow>
    server_step app (w, ph) (outcome ph i (Timers ts) (exec_task t w))"
| round: "ph i = Timers [] \<Longrightarrow> server_step app (w, ph) (Inr (w, ph(i := Idle)))"
| deferred: "p \<in> set (deferred w) \<Longrightarrow>
    server_step app (w, ph) (and_then (run_deferred now p r w) (\<lambda>w'. Inr (w', ph)))"

inductive server_reachable ::
  "app \<Rightarrow> world \<Rightarrow> world \<times> (nat \<Rightarrow> phase) \<Rightarrow> bool" for app w0
where
  start: "server_reachable app w0 (w0, \<lambda>_. Idle)"
| step: "server_reachable app w0 s \<Longrightarrow> server_step app s (Inr s') \<Longrightarrow> server_reachable app w0 s'"

section \<open>The invariant of a loop\<close>

fun in_funcs :: "phase \<Rightarrow> task list" where
  "in_funcs (Funcs fs) = fs"
| "in_funcs _ = []"

definition pending :: "world \<Rightarrow> nat \<Rightarrow> phase \<Rightarrow> task set" where
  "pending w i ph = set (funcs (loops w i)) \<union> set (in_funcs ph)"

fun phase_ok :: "world \<Rightarrow> nat \<Rightarrow> phase \<Rightarrow> bool" where
  "phase_ok w i Idle \<longleftrightarrow> funcs (loops w i) = []"
| "phase_ok w i (Funcs fs) \<longleftrightarrow> funcs (loops w i) = []"
| "phase_ok w i (Timers ts) \<longleftrightarrow> funcs (loops w i) = [] \<and> (\<forall>t \<in> set ts. timeout_of i t)"
| "phase_ok w i (Events evs) \<longleftrightarrow> distinct (map fst evs) \<and>
     (\<forall>p ev. (ConnPtr p, ev) \<in> set evs \<longrightarrow> UpdateChannel i p \<notin> set (funcs (loops w i)) \<and>
        (\<exists>c. conns w p = Some c \<and> el c = Some i \<and>
          (ev AND EPOLLIN \<noteq> 0 \<longrightarrow> sevent c = EPOLLIN) \<and> (ev AND EPOLLOUT \<noteq> 0 \<longrightarrow> sevent c = EPOLLOUT)))"

definition loop_ok :: "world \<Rightarrow> nat \<Rightarrow> phase \<Rightarrow> bool" where
  "loop_ok w i ph \<longleftrightarrow>
     (\<forall>t \<in> pending w i ph. \<exists>p c. t = UpdateChannel i p \<and> conns w p = Some c \<and> el c = Some i) \<and>
     (\<forall>p c. conns w p = Some c \<longrightarrow> el c = Some i \<longrightarrow> sevent c \<noteq> event c \<longrightarrow>
        UpdateChannel i p \<in> pending w i ph) \<and>
     phase_ok w i ph"

lemma loop_ok_pending:
  "loop_ok w i ph \<Longrightarrow> t \<in> pending w i ph \<Longrightarrow>
     \<exists>p c. t = UpdateChannel i p \<and> conns w p = Some c \<and> el c = Some i"
  unfolding loop_ok_def by blast

lemma loop_ok_waiting:
  "loop_ok w i ph \<Longrightarrow> conns w p = Some c \<Longrightarrow> el c = Some i \<Longrightarrow> UpdateChannel i p \<notin> pending w i ph \<Longrightarrow>
     sevent c = event c"
  unfolding loop_ok_def by blast

lemma loop_ok_phase: "loop_ok w i ph \<Longrightarrow> phase_ok w i ph"
  unfolding loop_ok_def by blast

lemma loop_ok_visit:
  assumes "loop_ok w i (Events evs)" and "(ConnPtr p, ev) \<in> set evs"
  shows "UpdateChannel i p \<notin> set (funcs (loops w i)) \<and> (\<exists>c. conns w p = Some c \<and> el c = Some i \<and>
    sevent c = event c \<and>
    (ev AND EPOLLIN \<noteq> 0 \<longrightarrow> sevent c = EPOLLIN) \<and> (ev AND EPOLLOUT \<noteq> 0 \<longrightarrow> sevent c = EPOLLOUT))"
proof -
  from loop_ok_phase [OF assms(1)] assms(2) obtain c where "UpdateChannel i p \<notin> set (funcs (loops w i))"
    "conns w p = Some c" "el c = Some i"
    "(ev AND EPOLLIN \<noteq> 0 \<longrightarrow> sevent c = EPOLLIN) \<and> (ev AND EPOLLOUT \<noteq> 0 \<longrightarrow> sevent c = EPOLLOUT)"
    unfolding phase_ok.simps by blast
  moreover from this loop_ok_waiting [OF assms(1)] have "sevent c = event c" by (simp add: pending_def)
  ultimately show ?thesis by blast
qed

text \<open>The invariant of a loop depends on the connections, on its waiting functions and on its
  phase.\<close>

lemma loop_okI:
  assumes "loop_ok w i ph" and "conns w' = conns w" and "pending w' i ph' = pending w i ph"
    and "phase_ok w' i ph'"
  shows "loop_ok w' i ph'"
  using assms unfolding loop_ok_def by simp

definition system_ok :: "world \<times> (nat \<Rightarrow> phase) \<Rightarrow> bool" where
  "system_ok s \<longleftrightarrow> world_inv (fst s) \<and> deferred (fst s) = [] \<and> (\<forall>i. loop_ok (fst s) i (snd s i))"

text \<open>The connection a handler works on is no longer among those its loop has to visit, and no
  update of it is waiting.\<close>

fun to_visit :: "phase \<Rightarrow> nat set" where
  "to_visit (Events evs) = {p. ConnPtr p \<in> fst ` set evs}"
| "to_visit _ = {}"

definition untouched :: "world \<Rightarrow> nat \<Rightarrow> phase \<Rightarrow> nat \<Rightarrow> bool" where
  "untouched w i ph p \<longleftrightarrow> UpdateChannel i p \<notin> pending w i ph \<and> p \<notin> to_visit ph"

lemma other_loop_untouched:
  assumes "loop_ok w i ph" and "\<forall>c. conns w p = Some c \<longrightarrow> el c \<noteq> Some i"
  shows "untouched w i ph p"
proof -
  have "UpdateChannel i p \<notin> pending w i ph"
  proof
    assume "UpdateChannel i p \<in> pending w i ph"
    with assms(1) obtain q c where "UpdateChannel i p = UpdateChannel i q" "conns w q = Some c"
      "el c = Some i" unfolding loop_ok_def by blast
    with assms(2) show False by simp
  qed
  moreover have "p \<notin> to_visit ph"
  proof (cases ph)
    case (Events evs)
    have "\<exists>c. conns w p = Some c \<and> el c = Some i" if "(ConnPtr p, ev) \<in> set evs" for ev
      using assms(1) that unfolding loop_ok_def Events phase_ok.simps by blast
    with assms(2) have "(ConnPtr p, ev) \<notin> set evs" for ev by blast
    then show ?thesis by (auto simp: Events)
  qed simp_all
  ultimately show ?thesis by (simp add: untouched_def)
qed

lemma loop_ok_handled:
  assumes ok: "loop_ok w i ph" and h: "handled e p w w'" and u: "untouched w i ph p"
    and grow: "e = Some i \<longrightarrow> (\<exists>evs. ph = Events evs)"
  shows "loop_ok w' i ph"
proof -
  from h have same: "\<And>q. q \<noteq> p \<Longrightarrow> conns w' q = conns w q" and set: "settled p w'"
    and gr: "grows e p w w'" by (auto simp: handled_def)
  from gr obtain fs where fs: "funcs (loops w' i) = funcs (loops w i) @ fs" "fs \<noteq> [] \<longrightarrow> e = Some i"
    "\<forall>t \<in> set fs. t = UpdateChannel i p \<and> (\<exists>c. conns w' p = Some c \<and> el c = Some i)"
    unfolding grows_def by blast
  then have pend: "pending w' i ph = pending w i ph \<union> set fs" by (auto simp: pending_def)
  have a: "\<exists>q c. t = UpdateChannel i q \<and> conns w' q = Some c \<and> el c = Some i" if "t \<in> pending w' i ph" for t
  proof (cases "t \<in> set fs")
    case False
    with that pend have "t \<in> pending w i ph" by blast
    with ok obtain q c where q: "t = UpdateChannel i q" "conns w q = Some c" "el c = Some i"
      by (auto simp: loop_ok_def)
    moreover from this u \<open>t \<in> pending w i ph\<close> have "q \<noteq> p" by (auto simp: untouched_def)
    ultimately show ?thesis using same by auto
  qed (use fs(3) in blast)
  have b: "UpdateChannel i q \<in> pending w' i ph"
    if "conns w' q = Some c" "el c = Some i" "sevent c \<noteq> event c" for q c
  proof (cases "q = p")
    case True
    with that set have "UpdateChannel i p \<in> set (funcs (loops w' i))" by (simp add: settled_def)
    with True show ?thesis by (simp add: pending_def)
  next
    case False
    with that same have "conns w q = Some c" by simp
    with ok that(2,3) have "UpdateChannel i q \<in> pending w i ph" by (simp add: loop_ok_def)
    with pend show ?thesis by blast
  qed
  have "phase_ok w' i ph"
  proof (cases ph)
    case (Events evs)
    have old: "distinct (map fst evs)" "UpdateChannel i q \<notin> set (funcs (loops w i)) \<and>
        (\<exists>c. conns w q = Some c \<and> el c = Some i \<and>
          (ev AND EPOLLIN \<noteq> 0 \<longrightarrow> sevent c = EPOLLIN) \<and> (ev AND EPOLLOUT \<noteq> 0 \<longrightarrow> sevent c = EPOLLOUT))"
      if "(ConnPtr q, ev) \<in> set evs" for q ev
      using ok that by (auto simp: loop_ok_def Events)
    have new: "q \<noteq> p" "UpdateChannel i q \<notin> set fs" if "(ConnPtr q, ev) \<in> set evs" for q ev
      using u that fs(3) by (force simp: untouched_def Events)+
    have "distinct (map fst evs)" using ok by (simp add: loop_ok_def Events)
    moreover have "UpdateChannel i q \<notin> set (funcs (loops w' i))" "conns w' q = conns w q"
      if "(ConnPtr q, ev) \<in> set evs" for q ev
      using old(2) [OF that] new [OF that] same fs(1) by auto
    ultimately show ?thesis using old(2) by (simp add: Events)
  qed (use ok fs grow in \<open>auto simp: loop_ok_def\<close>)
  with a b show ?thesis by (simp add: loop_ok_def)
qed

lemma system_ok_handled:
  assumes ok: "\<And>j. loop_ok w j (ph j)" and d: "deferred w = []" and h: "handled e p w w'"
    and own: "\<forall>c. conns w p = Some c \<longrightarrow> el c = Some i" and grow: "\<forall>k. e = Some k \<longrightarrow> (\<exists>evs. ph k = Events evs)"
    and i: "untouched w i (ph i) p"
  shows "system_ok (w', ph)"
proof -
  have "loop_ok w' j (ph j)" for j
  proof (cases "j = i")
    case True
    with loop_ok_handled [OF ok h] i grow show ?thesis by blast
  next
    case False
    then have "untouched w j (ph j) p" using own by (intro other_loop_untouched [OF ok]) auto
    with loop_ok_handled [OF ok h] grow show ?thesis by blast
  qed
  with d h show ?thesis by (simp add: system_ok_def handled_def)
qed

section \<open>Each step keeps it\<close>

lemma loop_ok_same:
  assumes "loop_ok w i ph" and "conns w' = conns w" and "funcs (loops w' i) = funcs (loops w i)"
  shows "loop_ok w' i ph"
  by (rule loop_okI [OF assms(1,2)])
     (use assms loop_ok_phase [OF assms(1)] in \<open>cases ph; simp add: pending_def\<close>)+

lemma world_inv_same: "world_inv w \<Longrightarrow> same_registry w w' \<Longrightarrow> world_inv w'"
  using world_reg_same [of w w'] by (auto simp: world_inv_def same_registry_def)

lemma sevent_bits:
  assumes "conn_state c"
  shows "sevent c AND EPOLLIN \<noteq> 0 \<longleftrightarrow> sevent c = EPOLLIN" and "sevent c AND EPOLLOUT \<noteq> 0 \<longleftrightarrow> sevent c = EPOLLOUT"
  using assms by (auto simp: conn_state_def)

lemma poll_ok:
  assumes ok: "system_ok (w, ph)" and i: "ph i = Idle" and r: "reported w i evs"
  shows "system_ok (w, ph(i := Events evs))"
proof -
  have w: "world_inv w" and idle: "loop_ok w i Idle" using ok i by (simp_all add: system_ok_def) metis
  have "UpdateChannel i p \<notin> set (funcs (loops w i)) \<and> (\<exists>c. conns w p = Some c \<and> el c = Some i \<and>
      (ev AND EPOLLIN \<noteq> 0 \<longrightarrow> sevent c = EPOLLIN) \<and> (ev AND EPOLLOUT \<noteq> 0 \<longrightarrow> sevent c = EPOLLOUT))"
    if "(ConnPtr p, ev) \<in> set evs" for p ev
  proof -
    from r that obtain f want where f: "interests (loops w i) f = Some (want, ConnPtr p)"
      "ev AND EPOLLIN \<noteq> 0 \<longrightarrow> want AND EPOLLIN \<noteq> 0" "ev AND EPOLLOUT \<noteq> 0 \<longrightarrow> want AND EPOLLOUT \<noteq> 0"
      unfolding reported_def by fastforce
    have reg: "world_reg w" using w by (simp add: world_inv_def)
    from world_reg_interest [OF reg f(1)] obtain c where c: "conns w p = Some c" "fd c = f" "el c = Some i"
      by blast
    have "registered (ConnPtr p) c (interests (loops w i))"
      using world_regD [OF reg c(1)] c(3) by auto
    then have "want = sevent c"
      using f(1) c(2) by (simp add: registered_def registration_def split: if_splits)
    moreover have "conn_state c" using w c(1) by (simp add: world_inv_def)
    ultimately show ?thesis using c f(2,3) sevent_bits [of c] idle by (simp add: loop_ok_def)
  qed
  moreover have "distinct (map fst evs)" using r by (simp add: reported_def)
  ultimately have "phase_ok w i (Events evs)" by simp
  then have "loop_ok w i (Events evs)" by (rule loop_okI [OF idle refl, rotated]) (simp add: pending_def)
  with ok show ?thesis by (simp add: system_ok_def)
qed

lemma event_visited:
  assumes "loop_ok w i (Events (x # rest))"
  shows "loop_ok w i (Events rest)"
  by (rule loop_okI [OF assms refl]) (use loop_ok_phase [OF assms] in \<open>auto simp: pending_def\<close>)

lemma conn_event_ok:
  assumes ok: "system_ok (w, ph)" and i: "ph i = Events ((ConnPtr p, ev) # rest)" and app: "sync_app app"
  shows "safe (\<lambda>w'. system_ok (w', ph(i := Events rest))) (conn_handle_events app now p ev ra wa1 wa2 w)"
proof -
  have loop: "loop_ok w i (Events ((ConnPtr p, ev) # rest))" and w: "world_inv w" "deferred w = []"
    using ok i by (simp_all add: system_ok_def) metis
  from loop_ok_visit [OF loop, of p ev] obtain c where c: "conns w p = Some c" "el c = Some i"
    "UpdateChannel i p \<notin> set (funcs (loops w i))"
    "ev AND EPOLLIN \<noteq> 0 \<longrightarrow> sevent c = EPOLLIN" "ev AND EPOLLOUT \<noteq> 0 \<longrightarrow> sevent c = EPOLLOUT"
    "sevent c = event c"
    by auto
  from conn_events_handled [OF w(1) c(1) app c(4-6)]
  have h: "safe (handled (Some i) p w) (conn_handle_events app now p ev ra wa1 wa2 w)"
    using c(2) by simp
  have "untouched w i (Events rest) p"
    using loop_ok_phase [OF loop] c(3) by (auto simp: untouched_def pending_def image_iff)
  moreover have "loop_ok w j ((ph(i := Events rest)) j)" for j
    using ok event_visited [OF loop] by (simp add: system_ok_def)
  ultimately have "system_ok (w', ph(i := Events rest))" if "handled (Some i) p w w'" for w'
    using that c(1,2) w(2) by (intro system_ok_handled [where e = "Some i" and i = i]) auto
  with h show ?thesis by (rule safe_mono)
qed

lemma accept_ok:
  assumes ok: "system_ok (w, ph)" and i: "ph i = Events (x # rest)"
    and fresh: "answers_fresh (AcceptIO ev answer a nb) w"
  shows "safe (\<lambda>w'. system_ok (w', ph(i := Events rest))) (acceptor_handle_events now ev answer a nb w)"
proof -
  have loop: "loop_ok w i (Events (x # rest))" and w: "world_inv w" "deferred w = []"
    using ok i by (simp_all add: system_ok_def) metis
  have loops: "loop_ok w j ((ph(i := Events rest)) j)" for j
    using ok event_visited [OF loop] by (simp add: system_ok_def)
  then have same: "system_ok (w, ph(i := Events rest))" using w by (simp add: system_ok_def)
  show ?thesis
  proof (cases answer)
    case (Accepted f)
    with fresh have f: "conns w a = None" "f \<notin> open_fds w" "f \<noteq> -1" by simp_all
    have "system_ok (w', ph(i := Events rest))" if "handled None a w w'" for w'
      using that f(1) w(2) other_loop_untouched [OF loops, of a i]
      by (intro system_ok_handled [OF loops, where e = None and i = i]) auto
    then have "safe (\<lambda>w'. system_ok (w', ph(i := Events rest)))
        (new_connection_callback now a nb f (w\<lparr>open_fds := insert f (open_fds w)\<rparr>))"
      using new_connection_handled [OF w(1) f] by (rule safe_mono [rotated])
    then show ?thesis using same by (simp add: acceptor_handle_events_def Accepted)
  next
    case (AcceptErr err)
    then show ?thesis using same by (simp add: acceptor_handle_events_def)
  qed
qed

text \<open>A change of a loop's counters and queues that leaves its functions and its timeouts.\<close>

lemma wake_ok:
  assumes ok: "system_ok (w, ph)" and i: "ph i = Events (x # rest)"
  shows "system_ok (on_loop i (wakeuper_handle_events ev) w, ph(i := Events rest))"
proof -
  have "loop_ok w i (Events (x # rest))" using ok i by (simp add: system_ok_def) metis
  note rest = event_visited [OF this]
  let ?w = "on_loop i (wakeuper_handle_events ev) w"
  have "same_registry w ?w" by (simp add: same_registry_def wakeuper_handle_events_def)
  then have "world_inv ?w" using ok world_inv_same by (auto simp: system_ok_def)
  moreover have "loop_ok ?w j ((ph(i := Events rest)) j)" for j
    by (rule loop_ok_same [of w])
       (use ok rest in \<open>simp_all add: system_ok_def wakeuper_handle_events_def\<close>)
  ultimately show ?thesis using ok by (simp add: system_ok_def)
qed

lemma swap_ok:
  assumes ok: "system_ok (w, ph)" and i: "ph i = Events []" and s: "swap_funcs (loops w i) = (fs, l)"
  shows "system_ok (on_loop i (\<lambda>_. l) w, ph(i := Funcs fs))"
proof -
  have loop: "loop_ok w i (Events [])" using ok i by (simp add: system_ok_def) metis
  let ?w = "on_loop i (\<lambda>_. l) w"
  have l: "fs = funcs (loops w i)" "l = (loops w i)\<lparr>funcs := []\<rparr>" using s by (auto simp: swap_funcs_def)
  then have "same_registry w ?w" by (simp add: same_registry_def)
  then have "world_inv ?w" using ok world_inv_same by (auto simp: system_ok_def)
  moreover have "loop_ok ?w i (Funcs fs)"
    by (rule loop_okI [OF loop]) (simp_all add: l pending_def)
  then have "loop_ok ?w j ((ph(i := Funcs fs)) j)" for j
    using ok by (cases "j = i") (auto simp: system_ok_def intro: loop_ok_same [of w])
  ultimately show ?thesis using ok by (simp add: system_ok_def)
qed

lemma func_ok:
  assumes ok: "system_ok (w, ph)" and i: "ph i = Funcs (t # ts)"
  shows "safe (\<lambda>w'. system_ok (w', ph(i := Funcs ts))) (exec_task t w)"
proof -
  have loop: "loop_ok w i (Funcs (t # ts))" and w: "world_inv w" "deferred w = []"
    using ok i by (simp_all add: system_ok_def) metis
  from loop_ok_pending [OF loop, of t] obtain p c where
    c: "t = UpdateChannel i p" "conns w p = Some c" "el c = Some i" by (auto simp: pending_def)
  from update_task_handled [OF own_inv [OF w(1) c(2)] c(3)] obtain w' where
    w': "update_on_loop i p w = Inr w'" "world_inv w'" "same_funcs w w'"
      "conns w' = (conns w)(p \<mapsto> c\<lparr>sevent := event c\<rparr>)" "deferred w' = deferred w" by blast
  have fr: "funcs (loops w' j) = funcs (loops w j)" for j using w'(3) by (simp add: same_funcs_def)
  have "loop_ok w' j ((ph(i := Funcs ts)) j)" for j
  proof -
    have old: "loop_ok w j (ph j)" using ok by (simp add: system_ok_def)
    have pend: "pending w' j ((ph(i := Funcs ts)) j) \<subseteq> pending w j (ph j)"
      "t' \<in> pending w j (ph j) \<Longrightarrow> t' = UpdateChannel i p \<or> t' \<in> pending w' j ((ph(i := Funcs ts)) j)" for t'
      using i c(1) fr by (auto simp: pending_def)
    have "\<exists>q d. t' = UpdateChannel j q \<and> conns w' q = Some d \<and> el d = Some j"
      if "t' \<in> pending w' j ((ph(i := Funcs ts)) j)" for t'
      using loop_ok_pending [OF old, of t'] pend(1) that w'(4) c by fastforce
    moreover have "UpdateChannel j q \<in> pending w' j ((ph(i := Funcs ts)) j)"
      if d: "conns w' q = Some d" "el d = Some j" "sevent d \<noteq> event d" for q d
    proof -
      have "q \<noteq> p" using d w'(4) by auto
      then have "conns w q = Some d" using d(1) w'(4) by simp
      then have "UpdateChannel j q \<in> pending w j (ph j)" using loop_ok_waiting [OF old] d(2,3) by blast
      with pend(2) \<open>q \<noteq> p\<close> show ?thesis by blast
    qed
    moreover have "phase_ok w' j ((ph(i := Funcs ts)) j)"
    proof (cases "j = i")
      case True
      then show ?thesis using loop_ok_phase [OF loop] fr by simp
    next
      case False
      have "q \<noteq> p" if "ph j = Events evs" "(ConnPtr q, ev) \<in> set evs" for q ev evs
        using loop_ok_visit [of w j evs q ev] old that c(2,3) False by auto
      then show ?thesis
        using False loop_ok_phase [OF old] fr w'(4) by (cases "ph j") auto
    qed
    ultimately show ?thesis unfolding loop_ok_def by blast
  qed
  then have "system_ok (w', ph(i := Funcs ts))" using w' w(2) by (simp add: system_ok_def)
  then show ?thesis by (simp add: c(1) w'(1))
qed

lemma collect_ok:
  assumes ok: "system_ok (w, ph)" and i: "ph i = Funcs []" and d: "due_timers now (loops w i) = Inr (ts, l)"
  shows "system_ok (on_loop i (\<lambda>_. l) w, ph(i := Timers ts))"
proof -
  have loop: "loop_ok w i (Funcs [])" and w: "world_inv w"
    using ok i by (simp_all add: system_ok_def) metis
  let ?w = "on_loop i (\<lambda>_. l) w"
  from due_timers_ok [of now "loops w i"] d obtain due m where t: "ts = map snd due" "l = (loops w i)\<lparr>timers := m\<rparr>"
    "mset due = filter_mset (\<lambda>t. fst t < now) (timers_of (timers (loops w i)))"
    "timers_of m = filter_mset (\<lambda>t. \<not> fst t < now) (timers_of (timers (loops w i)))"
    by auto
  have reg: "world_reg w" using w by (simp add: world_inv_def)
  have "x \<in># timers_of (timers (loops w i))" if "x \<in> set due" for x
    using that t(3) by (metis mset_subset_eqD multiset_filter_subset set_mset_mset)
  then have to: "\<forall>x \<in> set ts. timeout_of i x" using world_reg_timer [OF reg] t(1) by auto
  have "same_registry w ?w" using t by (simp add: same_registry_def)
  then have "world_inv ?w" using w world_inv_same by blast
  moreover have "loop_ok ?w i (Timers ts)"
    by (rule loop_okI [OF loop]) (use to loop_ok_phase [OF loop] in \<open>simp_all add: t(2) pending_def\<close>)
  then have "loop_ok ?w j ((ph(i := Timers ts)) j)" for j
    using ok by (cases "j = i") (auto simp: system_ok_def intro: loop_ok_same [of w])
  ultimately show ?thesis using ok by (simp add: system_ok_def)
qed

lemma timer_ok:
  assumes ok: "system_ok (w, ph)" and i: "ph i = Timers (t # ts)"
  shows "safe (\<lambda>w'. system_ok (w', ph(i := Timers ts))) (exec_task t w)"
proof -
  have loop: "loop_ok w i (Timers (t # ts))" and w: "world_inv w" "deferred w = []"
    using ok i by (simp_all add: system_ok_def) metis
  note phase = loop_ok_phase [OF loop]
  from phase obtain p tm tid r where t: "t = TimeoutCallback i p tm tid r"
    by (cases t) auto
  have less: "loop_ok w i (Timers ts)"
    by (rule loop_okI [OF loop refl]) (use phase in \<open>simp_all add: pending_def\<close>)
  have loops: "loop_ok w j ((ph(i := Timers ts)) j)" for j
    using ok less by (simp add: system_ok_def)
  from timeout_handled [OF w(1), of i p tm tid r None] obtain w' where
    w': "timeout_callback i p tm tid r w = Inr w'" and
    alt: "w' = w \<or> handled None p w w' \<and> (\<exists>c. conns w p = Some c \<and> el c = Some i)" by blast
  have "system_ok (w', ph(i := Timers ts))"
    using alt
  proof (elim disjE conjE)
    assume "w' = w"
    then show ?thesis using loops w by (simp add: system_ok_def)
  next
    assume h: "handled None p w w'" and c: "\<exists>c. conns w p = Some c \<and> el c = Some i"
    have "UpdateChannel i p \<notin> pending w i (Timers ts)" using phase by (simp add: pending_def)
    then show ?thesis
      using h c w(2) by (intro system_ok_handled [OF loops, where e = None and i = i])
        (auto simp: untouched_def)
  qed
  then show ?thesis by (simp add: t w')
qed

text \<open>One step from a state in order ends in a state in order, or in a fault of data.\<close>

lemma step_ok:
  assumes step: "server_step app (w, ph) r" and ok: "system_ok (w, ph)" and app: "sync_app app"
  shows "safe system_ok r"
proof -
  have out: "safe system_ok (outcome ph i nx m)" if "safe (\<lambda>w'. system_ok (w', ph(i := nx))) m" for i nx m
    unfolding outcome_def by (rule safe_bind [OF that]) simp
  from step show ?thesis
  proof cases
    case (poll i evs)
    then show ?thesis using poll_ok [OF ok] by simp
  next
    case (event i q ev rest e now)
    note visit = event
    have "safe (\<lambda>w'. system_ok (w', ph(i := Events rest))) (handle_io app i now e w)"
    proof (cases e)
      case (ConnIO p ev' ra wa1 wa2)
      with visit have "q = ConnPtr p" "ev' = ev" by (cases q; simp)+
      with ConnIO visit conn_event_ok [OF ok _ app, of i p ev rest] show ?thesis by simp
    next
      case (AcceptIO ev' answer a nb)
      then show ?thesis using accept_ok [OF ok visit(2)] visit(4) by simp
    next
      case (WakeIO ev')
      then show ?thesis using wake_ok [OF ok visit(2)] by simp
    qed
    then show ?thesis using visit(1) out by simp
  next
    case (swap i fs l)
    then show ?thesis using swap_ok [OF ok] by simp
  next
    case (func i t ts)
    then show ?thesis using out func_ok [OF ok] by simp
  next
    case (collect i now ts l)
    then show ?thesis using collect_ok [OF ok] by simp
  next
    case (timer i t ts)
    then show ?thesis using out timer_ok [OF ok] by simp
  next
    case (round i)
    then have "loop_ok w i (Timers [])" using ok by (simp add: system_ok_def) metis
    then have "loop_ok w i Idle"
      by (rule loop_okI [OF _ refl]) (use loop_ok_phase [OF \<open>loop_ok w i (Timers [])\<close>] in \<open>simp_all add: pending_def\<close>)
    then show ?thesis using round ok by (simp add: system_ok_def)
  next
    case (deferred p now r')
    then show ?thesis using ok by (simp add: system_ok_def)
  qed
qed

lemma reachable_ok:
  assumes "server_reachable app w0 s" and "system_ok (w0, \<lambda>_. Idle)" and "sync_app app"
  shows "system_ok s"
  using assms(1)
proof induction
  case start
  from assms(2) show ?case .
next
  case (step s s')
  obtain w ph where s: "s = (w, ph)" by (cases s)
  from step_ok [OF step(2) [unfolded s] step.IH [unfolded s] assms(3)] show ?case by simp
qed

section \<open>The state a server starts in\<close>

text \<open>The loops of the array before they are made.\<close>

definition blank_loop :: "task event_loop" where
  "blank_loop = \<lparr>is_stop = True, wake_count = 0, funcs = [], timers = new_timer_manager,
     channels = Map.empty, interests = Map.empty\<rparr>"

text \<open>The constructor: the main loop with its \<^verbatim>\<open>eventfd\<close>, and the acceptor with its listening
  socket, registered with the main loop.\<close>

definition new_pb_world :: "int \<Rightarrow> int \<Rightarrow> world result" where
  "new_pb_world wfd lfd =
     and_then (new_event_loop 0 wfd) (\<lambda>l.
     and_then (update_channel AcceptorPtr ((new_channel lfd (Some 0))\<lparr>event := EPOLLIN\<rparr>) (interests l))
       (\<lambda>(_, k). Inr
          \<lparr>thread_num = 0, main_joinable = False, next_el = -1, sub_els = None, sub_threads = [],
           read_timeout_ms = -1, write_timeout_ms = -1, protocols = [], name2protocols = Map.empty,
           services = Map.empty, loops = (\<lambda>_. blank_loop)(0 := l\<lparr>interests := k\<rparr>),
           conns = Map.empty, deferred = [], open_fds = {wfd, lfd}, close_calls = [],
           sent = (\<lambda>_. [])\<rparr>))"

text \<open>The calls a program makes before \<^verbatim>\<open>start\<close>: services, protocols, threads, time limits.\<close>

definition configured ::
  "int \<Rightarrow> int \<Rightarrow> int \<Rightarrow> protocol list \<Rightarrow> (nat \<times> string \<times> (string \<times> nat) list) list \<Rightarrow> world \<Rightarrow> world"
where
  "configured n rt wt ps svcs w =
     (set_thread_num n
       (foldl (\<lambda>w p. snd (add_protocol p w))
         (foldl (\<lambda>w (svc, name, mds). snd (add_service svc name mds w)) w svcs) ps))
     \<lparr>read_timeout_ms := rt, write_timeout_ms := wt\<rparr>"

text \<open>\<^verbatim>\<open>start\<close> with the descriptors of the sub loops' \<^verbatim>\<open>eventfd\<close>s.\<close>

fun make_loops :: "nat \<Rightarrow> (nat \<Rightarrow> int) \<Rightarrow> world \<Rightarrow> world result" where
  "make_loops 0 wfd w = Inr w"
| "make_loops (Suc k) wfd w =
     and_then (make_loops k wfd w) (\<lambda>w.
     and_then (new_event_loop (Suc k) (wfd (Suc k))) (\<lambda>l.
       Inr (on_loop (Suc k) (\<lambda>_. l) (w\<lparr>open_fds := insert (wfd (Suc k)) (open_fds w)\<rparr>))))"

definition start_pb :: "(nat \<Rightarrow> int) \<Rightarrow> world \<Rightarrow> world result" where
  "start_pb wfd w =
     and_then (if thread_num w > 0 then make_loops (nat (thread_num w)) wfd w else Inr w) start_server"

definition quiet_loop :: "int set \<Rightarrow> task event_loop \<Rightarrow> bool" where
  "quiet_loop fds l \<longleftrightarrow> funcs l = [] \<and> queue (timers l) = [] \<and> channels l = Map.empty \<and>
     (\<forall>f. case interests l f of None \<Rightarrow> True | Some (ev, q) \<Rightarrow> f \<in> fds \<and> (\<forall>p. q \<noteq> ConnPtr p))"

definition quiet :: "world \<Rightarrow> bool" where
  "quiet w \<longleftrightarrow> conns w = Map.empty \<and> deferred w = [] \<and> (\<forall>i. quiet_loop (open_fds w) (loops w i))"

lemma quiet_loop_mono: "quiet_loop fds l \<Longrightarrow> fds \<subseteq> fds' \<Longrightarrow> quiet_loop fds' l"
  by (auto simp: quiet_loop_def split: option.splits)

lemma quiet_loop_interest:
  "quiet_loop fds l \<Longrightarrow> interests l f = Some (ev, q) \<Longrightarrow> f \<in> fds \<and> (\<forall>p. q \<noteq> ConnPtr p)"
  unfolding quiet_loop_def by (metis (mono_tags, lifting) case_prodD option.simps(5))

lemma quiet_loop_blank: "quiet_loop fds blank_loop"
  by (simp add: quiet_loop_def blank_loop_def new_timer_manager_def)

lemma quiet_loop_new:
  "new_event_loop i f = Inr l \<Longrightarrow> f \<in> fds \<Longrightarrow> quiet_loop fds l"
  by (auto simp: quiet_loop_def new_event_loop_ok new_timer_manager_def)

lemma new_pb_world_ok:
  assumes "wfd \<noteq> lfd"
  shows "\<exists>w. new_pb_world wfd lfd = Inr w \<and> quiet w \<and> next_el w = -1 \<and> thread_num w = 0 \<and>
    \<not> main_joinable w \<and> protocols w = [] \<and> services w = Map.empty \<and> name2protocols w = Map.empty"
proof -
  have reg: "registered AcceptorPtr ((new_channel lfd (Some 0))\<lparr>event := EPOLLIN\<rparr>) [wfd \<mapsto> (EPOLLIN, WakeUperPtr)]"
    using assms by (simp add: registered_def registration_def new_channel_def)
  have "quiet_loop {wfd, lfd} \<lparr>is_stop = False, wake_count = 0, funcs = [], timers = new_timer_manager,
      channels = Map.empty, interests = [wfd \<mapsto> (EPOLLIN, WakeUperPtr), lfd \<mapsto> (EPOLLIN, AcceptorPtr)]\<rparr>"
    by (simp add: quiet_loop_def new_timer_manager_def)
  then show ?thesis
    using update_channel_ok [OF reg] quiet_loop_blank
    by (simp add: new_pb_world_def new_event_loop_ok registration_def quiet_def) (simp add: new_channel_def)
qed

lemma set_thread_num_frame:
  "conns (set_thread_num n w) = conns w" "loops (set_thread_num n w) = loops w"
  "open_fds (set_thread_num n w) = open_fds w" "deferred (set_thread_num n w) = deferred w"
  "next_el (set_thread_num n w) = next_el w" "main_joinable (set_thread_num n w) = main_joinable w"
  by (simp_all add: set_thread_num_def Let_def)

lemma configured_frame:
  "conns (configured n rt wt ps svcs w) = conns w" "loops (configured n rt wt ps svcs w) = loops w"
  "open_fds (configured n rt wt ps svcs w) = open_fds w"
  "deferred (configured n rt wt ps svcs w) = deferred w"
  "next_el (configured n rt wt ps svcs w) = next_el w"
  "main_joinable (configured n rt wt ps svcs w) = main_joinable w"
proof -
  have s: "conns u = conns w \<and> loops u = loops w \<and> open_fds u = open_fds w \<and> deferred u = deferred w \<and>
      next_el u = next_el w \<and> main_joinable u = main_joinable w"
    if "u = foldl (\<lambda>w (svc, name, mds). snd (add_service svc name mds w)) w svcs" for u :: world
    unfolding that
    by (induction svcs arbitrary: w) (simp_all add: add_service_def Let_def split: prod.splits)
  have p: "conns u = conns v \<and> loops u = loops v \<and> open_fds u = open_fds v \<and> deferred u = deferred v \<and>
      next_el u = next_el v \<and> main_joinable u = main_joinable v"
    if "u = foldl (\<lambda>w p. snd (add_protocol p w)) v ps" for u v :: world
    unfolding that by (induction ps arbitrary: v) (simp_all add: add_protocol_def)
  show "conns (configured n rt wt ps svcs w) = conns w" "loops (configured n rt wt ps svcs w) = loops w"
    "open_fds (configured n rt wt ps svcs w) = open_fds w"
    "deferred (configured n rt wt ps svcs w) = deferred w"
    "next_el (configured n rt wt ps svcs w) = next_el w"
    "main_joinable (configured n rt wt ps svcs w) = main_joinable w"
    using s [OF refl] p [OF refl] by (simp_all add: configured_def set_thread_num_frame)
qed

lemma configured_quiet: "quiet w \<Longrightarrow> quiet (configured n rt wt ps svcs w)"
  by (simp add: quiet_def configured_frame)

lemma configured_threads: "0 \<le> thread_num (configured n rt wt ps svcs w) \<and>
    thread_num (configured n rt wt ps svcs w) \<le> MaxThreadNum"
  by (simp add: configured_def set_thread_num_def Let_def MaxThreadNum_def)

lemma make_loops_ok:
  assumes "quiet w"
  shows "\<exists>w'. make_loops k wfd w = Inr w' \<and> quiet w' \<and> next_el w' = next_el w \<and>
    thread_num w' = thread_num w \<and> main_joinable w' = main_joinable w"
proof (induction k)
  case (Suc k)
  then obtain v where v: "make_loops k wfd w = Inr v" "quiet v" "next_el v = next_el w"
    "thread_num v = thread_num w" "main_joinable v = main_joinable w" by blast
  obtain l :: "task event_loop" where l: "new_event_loop (Suc k) (wfd (Suc k)) = Inr l" by (simp add: new_event_loop_ok)
  let ?v = "on_loop (Suc k) (\<lambda>_. l) (v\<lparr>open_fds := insert (wfd (Suc k)) (open_fds v)\<rparr>)"
  have "quiet ?v"
    using v(2) quiet_loop_new [OF l, of "insert (wfd (Suc k)) (open_fds v)"]
    by (auto simp: quiet_def intro: quiet_loop_mono)
  then show ?case using v l by (simp add: on_loop_def)
qed (use assms in simp)

lemma quiet_system_ok:
  assumes "quiet w" and "pool_ok w"
  shows "system_ok (w, \<lambda>_. Idle)"
proof -
  have l: "quiet_loop (open_fds w) (loops w i)" for i using assms(1) by (simp add: quiet_def)
  have c: "conns w = Map.empty" using assms(1) by (simp add: quiet_def)
  have "world_reg w"
  proof (rule world_regI)
    show "interests (loops w i) f = None" if "f \<notin> open_fds w" for i f
      using quiet_loop_interest [OF l, of i f] that by (cases "interests (loops w i) f") auto
    show "\<exists>c. conns w p = Some c \<and> fd c = f \<and> el c = Some i"
      if "interests (loops w i) f = Some (ev, ConnPtr p)" for i f ev p
      using quiet_loop_interest [OF l that] by blast
    show "timeout_of i (snd t)" if "t \<in># timers_of (timers (loops w i))" for i t
      using l [of i] that by (simp add: quiet_loop_def timers_of_def)
    show "\<exists>c. conns w p = Some c \<and> el c = Some i \<and> conn_ts c = t"
      if "channels (loops w i) p = Some t" for i p t
      using l [of i] that by (simp add: quiet_loop_def)
  qed (use c assms(2) in simp_all)
  moreover have "loop_ok w i Idle" for i
    using l [of i] c by (simp add: loop_ok_def pending_def quiet_loop_def)
  ultimately show ?thesis using assms(1) c by (simp add: system_ok_def world_inv_def quiet_def)
qed

lemma start_pb_ok:
  assumes w: "quiet w" and t: "0 \<le> thread_num w" "thread_num w \<le> MaxThreadNum" "next_el w = -1"
    "\<not> main_joinable w"
  shows "\<exists>w'. start_pb wfd w = Inr w' \<and> system_ok (w', \<lambda>_. Idle)"
proof -
  obtain v where v: "(if thread_num w > 0 then make_loops (nat (thread_num w)) wfd w else Inr w) = Inr v"
    "quiet v" "next_el v = next_el w" "thread_num v = thread_num w" "main_joinable v = main_joinable w"
    using make_loops_ok [OF w] w by (cases "thread_num w > 0") auto
  then obtain u where u: "start_server v = Inr u" using t(4) by (simp add: start_server_def Let_def split: if_splits)
  have "pool_ok u" by (rule start_pool_ok [OF _ _ _ u]) (use v t in simp_all)
  moreover have "quiet u"
    using u v(2) by (auto simp: start_server_def Let_def quiet_def split: if_splits)
  ultimately show ?thesis using v(1) u quiet_system_ok by (simp add: start_pb_def)
qed

lemma boot_ok:
  assumes "wfd \<noteq> lfd"
  shows "\<exists>w0 w. new_pb_world wfd lfd = Inr w0 \<and> start_pb wfds (configured n rt wt ps svcs w0) = Inr w \<and>
    system_ok (w, \<lambda>_. Idle)"
proof -
  from new_pb_world_ok [OF assms] obtain w0 where w0: "new_pb_world wfd lfd = Inr w0" "quiet w0"
    "next_el w0 = -1" "\<not> main_joinable w0" by blast
  from start_pb_ok [OF configured_quiet [OF w0(2)]] configured_threads w0 show ?thesis
    by (metis configured_frame(5,6))
qed

end
