(* ===== verification/Logging.thy ===== *)
theory Logging
  imports Timestamps
begin

text \<open>
  \<^verbatim>\<open>base/logging.h\<close>: the severity filter and the \<^verbatim>\<open>LOG_*\<close> macros, and the file appender with its
  roll-over, over a file system of names and inodes. \<^verbatim>\<open>TimeStamp::str\<close> of \<^verbatim>\<open>base/timestamp.h\<close>, which
  names the rolled file, is here too; the C library's \<^verbatim>\<open>localtime_r\<close> is a parameter.
\<close>

section \<open>Severity\<close>

abbreviation (input) DEBUG :: int where "DEBUG \<equiv> 0"
abbreviation (input) NOTICE :: int where "NOTICE \<equiv> 1"
abbreviation (input) WARNING :: int where "WARNING \<equiv> 2"
abbreviation (input) FATAL :: int where "FATAL \<equiv> 3"

text \<open>An appender is a number; \<^verbatim>\<open>_logger\<close> starts with the one that writes to standard output.\<close>

record logger =
  severity :: int
  appender_id :: nat

definition new_logger :: "nat \<Rightarrow> logger" where
  "new_logger stdout_appender = \<lparr>severity = DEBUG, appender_id = stdout_appender\<rparr>"

definition set_severity :: "int \<Rightarrow> logger \<Rightarrow> bool \<times> logger" where
  "set_severity s l =
     (if s \<ge> DEBUG \<and> s \<le> FATAL then (True, l\<lparr>severity := s\<rparr>) else (False, l))"

definition set_appender :: "nat option \<Rightarrow> logger \<Rightarrow> bool \<times> logger" where
  "set_appender la l = (case la of None \<Rightarrow> (False, l) | Some a \<Rightarrow> (True, l\<lparr>appender_id := a\<rparr>))"

text \<open>\<^verbatim>\<open>init_log\<close>, with the appender \<^verbatim>\<open>init\<close> made, \<open>None\<close> when it failed.\<close>

definition init_log :: "int \<Rightarrow> nat option \<Rightarrow> logger \<Rightarrow> bool \<times> logger" where
  "init_log s made l =
     (let (ok, l1) = set_severity s l in
      if \<not> ok then (False, l1)
      else case made of None \<Rightarrow> (False, l1) | Some a \<Rightarrow> set_appender (Some a) l1)"

text \<open>A macro of level \<open>lvl\<close>: the lines appended, each with its appender, or an abort after the
  append when the record is fatal.\<close>

definition log_at :: "int \<Rightarrow> string \<Rightarrow> logger \<Rightarrow> (nat \<times> string) list \<Rightarrow> (nat \<times> string) list \<times> bool" where
  "log_at lvl line l out =
     (if severity l \<le> lvl then (out @ [(appender_id l, line)], lvl = FATAL) else (out, False))"

fun set_severities :: "int list \<Rightarrow> logger \<Rightarrow> logger" where
  "set_severities [] l = l"
| "set_severities (s # ss) l = set_severities ss (snd (set_severity s l))"

lemma set_severities_range:
  "DEBUG \<le> severity l \<Longrightarrow> severity l \<le> FATAL \<Longrightarrow>
     DEBUG \<le> severity (set_severities ss l) \<and> severity (set_severities ss l) \<le> FATAL"
  by (induction ss arbitrary: l) (simp_all add: set_severity_def)

text \<open>However the severity was set, a fatal record is written and aborts; a debug record is
  written when the severity is still the lowest.\<close>

lemma fatal_never_filtered:
  "log_at FATAL line (set_severities ss (new_logger a)) out = (out @ [(appender_id (set_severities ss (new_logger a)), line)], True)"
  using set_severities_range [of "new_logger a" ss] by (simp add: log_at_def new_logger_def)

lemma log_filter: "fst (log_at lvl line l out) = out \<longleftrightarrow> lvl < severity l"
  by (auto simp: log_at_def)

section \<open>Names of rolled files\<close>

record tm =
  tm_sec :: int
  tm_min :: int
  tm_hour :: int
  tm_mday :: int
  tm_mon :: int
  tm_year :: int

text \<open>A number as \<^verbatim>\<open>operator<<\<close> and \<^verbatim>\<open>%d\<close> print it, \<^verbatim>\<open>%0wd\<close>, whose width includes the sign, and the cut of
  \<^verbatim>\<open>snprintf\<close> to a buffer of 16.\<close>

definition print_int :: "int \<Rightarrow> string" where
  "print_int n = (if n < 0 then ''-'' @ to_string (nat (- n)) else to_string (nat n))"

definition pad :: "nat \<Rightarrow> int \<Rightarrow> string" where
  "pad w n =
     (let s = to_string (nat \<bar>n\<bar>);
          sign = (if n < 0 then ''-'' else [])
      in sign @ replicate (w - length sign - length s) (CHR ''0'') @ s)"

definition ts_str :: "(int \<Rightarrow> tm) \<Rightarrow> timestamp \<Rightarrow> string" where
  "ts_str localtime t =
     (let r = localtime (sec t) in
      take 15 (pad 4 (1900 + tm_year r) @ pad 2 (1 + tm_mon r) @ pad 2 (tm_mday r) @ ''_'' @
        pad 2 (tm_hour r) @ pad 2 (tm_min r) @ pad 2 (tm_sec r)))"

section \<open>The file appender\<close>

text \<open>A directory of names, the bytes of each inode, and the next inode to be made. A stream is
  the inode it was opened on.\<close>

record file_system =
  directory :: "string \<rightharpoonup> nat"
  contents :: "nat \<Rightarrow> byte list"
  next_inode :: nat

record file_appender =
  log_file :: "nat option"
  file_node :: nat
  rollover_s :: int
  log_t :: timestamp
  log_name :: string

type_synonym log_state = "file_appender \<times> file_system"

definition rename_file :: "string \<Rightarrow> string \<Rightarrow> file_system \<Rightarrow> file_system" where
  "rename_file a b fs =
     (if directory fs a = None then fs
      else fs\<lparr>directory := (directory fs)(a := None, b := directory fs a)\<rparr>)"

text \<open>\<^verbatim>\<open>fopen(name, "a")\<close> makes the file when it is not there; \<open>ok\<close> tells whether it succeeds.\<close>

definition open_log :: "bool \<Rightarrow> log_state \<Rightarrow> bool \<times> log_state" where
  "open_log ok = (\<lambda>(a, fs).
     if \<not> ok then (False, a\<lparr>log_file := None\<rparr>, fs)
     else
       (case directory fs (log_name a) of
          Some i \<Rightarrow> (True, a\<lparr>log_file := Some i, file_node := i\<rparr>, fs)
        | None \<Rightarrow>
            let i = next_inode fs in
            (True, a\<lparr>log_file := Some i, file_node := i\<rparr>,
             fs\<lparr>directory := (directory fs)(log_name a \<mapsto> i), contents := (contents fs)(i := []),
               next_inode := i + 1\<rparr>)))"

definition close_log :: "log_state \<Rightarrow> log_state" where
  "close_log = (\<lambda>(a, fs). (a\<lparr>log_file := None\<rparr>, fs))"

definition init_appender ::
  "string \<Rightarrow> int \<Rightarrow> timestamp \<Rightarrow> bool \<Rightarrow> file_system \<Rightarrow> bool \<times> log_state"
where
  "init_appender name rollover_min now ok fs =
     open_log ok (\<lparr>log_file = None, file_node = 0, rollover_s = to_int32 (rollover_min * 60),
       log_t = now, log_name = name\<rparr>, fs)"

text \<open>\<^verbatim>\<open>do_rollover\<close>; \<open>stat_fails\<close> is an error of \<^verbatim>\<open>stat\<close> other than \<^verbatim>\<open>ENOENT\<close>.\<close>

definition do_rollover :: "(int \<Rightarrow> tm) \<Rightarrow> timestamp \<Rightarrow> bool \<Rightarrow> bool \<Rightarrow> log_state \<Rightarrow> log_state" where
  "do_rollover localtime now stat_fails ok s =
     (let a = fst s in
      if rollover_s a > 0 \<and> sec now - sec (log_t a) \<ge> rollover_s a then
        let (a1, fs1) = close_log s;
            bk = log_name a1 @ ''.'' @ ts_str localtime (log_t a1);
            (_, a2, fs2) = open_log ok (a1, rename_file (log_name a1) bk fs1)
        in (a2\<lparr>log_t := now\<rparr>, fs2)
      else
        let reopen = (if stat_fails then False
            else case directory (snd s) (log_name a) of
                   None \<Rightarrow> True
                 | Some inode \<Rightarrow> file_node a \<noteq> inode)
        in if reopen then
             let (_, a2, fs2) = open_log ok (close_log s) in (a2\<lparr>log_t := now\<rparr>, fs2)
           else s)"

text \<open>\<^verbatim>\<open>append\<close>: \<^verbatim>\<open>fwrite\<close> to a null stream is undefined; \<open>wrote\<close> is how many bytes it accepts.\<close>

definition append_log ::
  "(int \<Rightarrow> tm) \<Rightarrow> timestamp \<Rightarrow> bool \<Rightarrow> bool \<Rightarrow> nat \<Rightarrow> bool \<Rightarrow> byte list \<Rightarrow> log_state \<Rightarrow> log_state result"
where
  "append_log localtime now stat_fails ok wrote ok2 line s =
     (let (a, fs) = do_rollover localtime now stat_fails ok s in
      case log_file a of
        None \<Rightarrow> Inl NullDeref
      | Some i \<Rightarrow>
          let n = min wrote (length line);
              fs1 = fs\<lparr>contents := (contents fs)(i := contents fs i @ take n line)\<rparr>
          in if n < length line then Inr (snd (open_log ok2 (close_log (a, fs1)))) else Inr (a, fs1))"

section \<open>Where the lines go\<close>

text \<open>The stream is open, and \<open>file_node\<close> is its inode; every name has an inode that was made.\<close>

definition log_ok :: "log_state \<Rightarrow> bool" where
  "log_ok = (\<lambda>(a, fs). log_file a = Some (file_node a) \<and> file_node a < next_inode fs \<and>
     (\<forall>n i. directory fs n = Some i \<longrightarrow> i < next_inode fs))"

lemma open_log_ok:
  assumes "\<forall>n i. directory fs n = Some i \<longrightarrow> i < next_inode fs"
    and "open_log True (a, fs) = (r, a', fs')"
  shows "r \<and> log_ok (a', fs') \<and> log_name a' = log_name a \<and> rollover_s a' = rollover_s a \<and>
    directory fs' (log_name a) = log_file a' \<and>
    (\<forall>n i. n \<noteq> log_name a \<longrightarrow> directory fs' n = directory fs n) \<and>
    (\<forall>i < next_inode fs. contents fs' i = contents fs i) \<and>
    (directory fs (log_name a) = None \<longrightarrow> contents fs' (file_node a') = []) \<and>
    (directory fs (log_name a) \<noteq> None \<longrightarrow> fs' = fs)"
  using assms
  by (auto simp: open_log_def log_ok_def Let_def less_Suc_eq split: option.splits if_splits)

lemma close_log_simps [simp]: "close_log (a, fs) = (a\<lparr>log_file := None\<rparr>, fs)"
  by (simp add: close_log_def)

lemma rename_inodes:
  "\<forall>n i. directory fs n = Some i \<longrightarrow> i < next_inode fs \<Longrightarrow>
   \<forall>n i. directory (rename_file a b fs) n = Some i \<longrightarrow> i < next_inode (rename_file a b fs)"
  by (auto simp: rename_file_def)

text \<open>After the roll-over check the stream is the file that has the name.\<close>

lemma do_rollover_ok:
  assumes ok: "log_ok (a, fs)" and r: "do_rollover localtime now False True (a, fs) = (a', fs')"
  shows "log_ok (a', fs') \<and> log_name a' = log_name a \<and> directory fs' (log_name a) = log_file a'"
proof -
  have ino: "\<forall>n i. directory fs n = Some i \<longrightarrow> i < next_inode fs" using ok by (simp add: log_ok_def)
  show ?thesis
  proof (cases "rollover_s a > 0 \<and> sec now - sec (log_t a) \<ge> rollover_s a")
    case True
    let ?fs = "rename_file (log_name a) (log_name a @ ''.'' @ ts_str localtime (log_t a)) fs"
    obtain b a2 fs2 where o: "open_log True (a\<lparr>log_file := None\<rparr>, ?fs) = (b, a2, fs2)"
      by (metis prod_cases3)
    with True r have "a' = a2\<lparr>log_t := now\<rparr>" "fs' = fs2" by (simp_all add: do_rollover_def Let_def)
    with open_log_ok [OF rename_inodes [OF ino] o] show ?thesis by (simp add: log_ok_def)
  next
    case False
    show ?thesis
    proof (cases "directory fs (log_name a) = Some (file_node a)")
      case True
      with False r ok show ?thesis by (auto simp: do_rollover_def Let_def log_ok_def)
    next
      case other: False
      obtain b a2 fs2 where o: "open_log True (a\<lparr>log_file := None\<rparr>, fs) = (b, a2, fs2)"
        by (metis prod_cases3)
      with other False r have "a' = a2\<lparr>log_t := now\<rparr>" "fs' = fs2"
        by (auto simp: do_rollover_def Let_def split: option.splits)
      with open_log_ok [OF ino o] show ?thesis by (simp add: log_ok_def)
    qed
  qed
qed

text \<open>A line that is appended is at the end of the file that has the log's name, wherever the file
  was before: rolled over, moved away by someone else, or removed.\<close>

text \<open>A line that is written whole ends up at the end of the file that bears the log's
  name, after rolling over or reopening when due.\<close>

lemma append_log_ok:
  assumes ok: "log_ok (a, fs)" and w: "length line \<le> wrote"
  shows "\<exists>a' fs' i before. append_log localtime now False True wrote ok2 line (a, fs) = Inr (a', fs') \<and>
    log_ok (a', fs') \<and> log_name a' = log_name a \<and>
    directory fs' (log_name a) = Some i \<and> contents fs' i = before @ line"
proof -
  obtain a1 fs1 where r: "do_rollover localtime now False True (a, fs) = (a1, fs1)" by (cases "do_rollover localtime now False True (a, fs)")
  from do_rollover_ok [OF ok r] have d: "log_ok (a1, fs1)" "log_name a1 = log_name a"
    "directory fs1 (log_name a) = log_file a1" by simp_all
  then have f: "log_file a1 = Some (file_node a1)" by (simp add: log_ok_def)
  let ?fs = "fs1\<lparr>contents := (contents fs1)(file_node a1 := contents fs1 (file_node a1) @ line)\<rparr>"
  have "append_log localtime now False True wrote ok2 line (a, fs) = Inr (a1, ?fs)"
    using r f w by (simp add: append_log_def Let_def min_absorb2)
  moreover have "log_ok (a1, ?fs)" using d(1) by (simp add: log_ok_def)
  ultimately show ?thesis using d f by auto
qed

text \<open>Rolling over keeps the old lines under the name with the time stamp, and starts an empty
  file.\<close>

text \<open>A rollover renames the file with its contents to the name with the time stamp and
  opens an empty one.\<close>

lemma rollover_keeps:
  assumes ok: "log_ok (a, fs)" and i: "directory fs (log_name a) = Some i"
    and due: "0 < rollover_s a" "rollover_s a \<le> sec now - sec (log_t a)"
    and r: "do_rollover localtime now stat_fails True (a, fs) = (a', fs')"
  shows "directory fs' (log_name a @ ''.'' @ ts_str localtime (log_t a)) = Some i \<and>
    contents fs' i = contents fs i \<and> log_t a' = now \<and>
    (\<exists>j. directory fs' (log_name a) = Some j \<and> log_file a' = Some j \<and> j \<noteq> i \<and> contents fs' j = [])"
proof -
  let ?bk = "log_name a @ ''.'' @ ts_str localtime (log_t a)"
  let ?fs = "rename_file (log_name a) ?bk fs"
  have ino: "\<forall>n i. directory fs n = Some i \<longrightarrow> i < next_inode fs" using ok by (simp add: log_ok_def)
  have "?bk \<noteq> log_name a" by simp
  then have fs: "directory ?fs (log_name a) = None" "directory ?fs ?bk = Some i"
    "next_inode ?fs = next_inode fs" "contents ?fs = contents fs"
    using i by (simp_all add: rename_file_def)
  have "i < next_inode fs" using ino i by blast
  then show ?thesis
    using r due fs by (auto simp: do_rollover_def Let_def open_log_def)
qed

text \<open>When the file cannot be opened again the next line is written to a null stream.\<close>

lemma append_after_failed_open:
  assumes "rollover_s a > 0 \<and> sec now - sec (log_t a) \<ge> rollover_s a \<or> directory fs (log_name a) = None"
  shows "append_log localtime now False False wrote ok2 line (a, fs) = Inl NullDeref"
  using assms by (auto simp: append_log_def do_rollover_def open_log_def Let_def)

end
