(* ===== verification/Log_Records.thy ===== *)
theory Log_Records
  imports Logging
begin

text \<open>
  The rest of \<^verbatim>\<open>base/logging.h\<close>: the text of a record, the two appenders behind the logger, and the
  \<^verbatim>\<open>LOG_*\<close>, \<^verbatim>\<open>PLOG_*\<close> and \<^verbatim>\<open>PLOG_*_IF\<close> macros as statements on a system of a logger, its
  appenders, the files and standard output. \<^verbatim>\<open>operator<<\<close> of \<^verbatim>\<open>base/timestamp.h\<close> is here too.
\<close>

section \<open>The text of a record\<close>

text \<open>\<^verbatim>\<open>operator<<\<close> of a time stamp, with the cut of \<^verbatim>\<open>snprintf\<close> to a buffer of 32.\<close>

definition ts_print :: "(int \<Rightarrow> tm) \<Rightarrow> timestamp \<Rightarrow> string" where
  "ts_print localtime t =
     (let r = localtime (sec t) in
      take 31 (pad 4 (1900 + tm_year r) @ ''-'' @ pad 2 (1 + tm_mon r) @ ''-'' @ pad 2 (tm_mday r) @ '' '' @
        pad 2 (tm_hour r) @ '':'' @ pad 2 (tm_min r) @ '':'' @ pad 2 (tm_sec r) @ '':'' @ pad 3 (msec t)))"

text \<open>What the process and the C library supply.\<close>

record log_env =
  localtime_r :: "int \<Rightarrow> tm"
  strerror_r :: "int \<Rightarrow> string"
  getpid :: int
  pthread_self :: nat

record log_record =
  abort_flag :: bool
  stream :: string

definition severity_map :: "string list" where
  "severity_map = [''DEBUG'', ''NOTICE'', ''WARNING'', ''FATAL'']"

definition severity_name :: "int \<Rightarrow> string result" where
  "severity_name s =
     (if 0 \<le> s \<and> s < int (length severity_map) then Inr (severity_map ! nat s) else Inl OutOfBounds)"

text \<open>\<^verbatim>\<open>_LogRecord\<close>, made at \<open>now\<close>.\<close>

definition record_head :: "log_env \<Rightarrow> timestamp \<Rightarrow> string \<Rightarrow> int \<Rightarrow> string" where
  "record_head env now file lineno =
     '': '' @ ts_print (localtime_r env) now @ '' * '' @ print_int (getpid env) @ '' * '' @
     to_string (pthread_self env) @ '' '' @ ''['' @ file @ '':'' @ print_int lineno @ '']: ''"

definition new_log_record :: "log_env \<Rightarrow> timestamp \<Rightarrow> string \<Rightarrow> int \<Rightarrow> int \<Rightarrow> bool \<Rightarrow> log_record result" where
  "new_log_record env now file lineno s abort =
     and_then (severity_name s) (\<lambda>name.
       Inr \<lparr>abort_flag = abort, stream = name @ record_head env now file lineno\<rparr>)"

definition to_stream :: "string \<Rightarrow> log_record \<Rightarrow> log_record" where
  "to_stream str r = r\<lparr>stream := stream r @ str\<rparr>"

text \<open>The destructor of \<^verbatim>\<open>_PLogRecord\<close> adds the error number, before the one of \<^verbatim>\<open>_LogRecord\<close> runs.\<close>

definition errno_text :: "log_env \<Rightarrow> int \<Rightarrow> string" where
  "errno_text env e = '' with err_no: '' @ print_int e @ '', err_msg: '' @ strerror_r env e @ ''.''"

definition plog_end :: "log_env \<Rightarrow> int \<Rightarrow> log_record \<Rightarrow> log_record" where
  "plog_end env e = to_stream (errno_text env e)"

section \<open>The logger and its appenders\<close>

datatype log_appender = StdoutAppender | FileAppender file_appender

record log_system =
  the_logger :: logger
  appenders :: "log_appender list"
  files :: file_system
  stdout :: "byte list"

text \<open>What the calls of one \<^verbatim>\<open>append\<close> are answered: the time, whether \<^verbatim>\<open>stat\<close> fails, whether the first
  \<^verbatim>\<open>fopen\<close> succeeds, how many bytes \<^verbatim>\<open>fwrite\<close> takes, and whether \<^verbatim>\<open>fopen\<close> succeeds afterwards.\<close>

record append_answers =
  at_time :: timestamp
  stat_errs :: bool
  opens :: bool
  takes :: nat
  reopens :: bool

text \<open>\<^verbatim>\<open>_logger\<close> as the program starts.\<close>

definition new_log_system :: "file_system \<Rightarrow> log_system" where
  "new_log_system fs = \<lparr>the_logger = new_logger 0, appenders = [StdoutAppender], files = fs, stdout = []\<rparr>"

text \<open>\<^verbatim>\<open>_Logger::append\<close> calls the appender it holds.\<close>

definition logger_append :: "log_env \<Rightarrow> append_answers \<Rightarrow> byte list \<Rightarrow> log_system \<Rightarrow> log_system result" where
  "logger_append env k line w =
     (let n = appender_id (the_logger w) in
      if n \<ge> length (appenders w) then Inl NullDeref
      else case appenders w ! n of
             StdoutAppender \<Rightarrow> Inr (w\<lparr>stdout := stdout w @ line\<rparr>)
           | FileAppender a \<Rightarrow>
               and_then (append_log (localtime_r env) (at_time k) (stat_errs k) (opens k) (takes k) (reopens k)
                   line (a, files w)) (\<lambda>(a', fs').
                 Inr (w\<lparr>appenders := (appenders w)[n := FileAppender a'], files := fs'\<rparr>)))"

text \<open>\<^verbatim>\<open>init_log\<close> with the appender it makes; an appender that cannot open its file is dropped.\<close>

definition init_log_file :: "string \<Rightarrow> int \<Rightarrow> int \<Rightarrow> timestamp \<Rightarrow> bool \<Rightarrow> log_system \<Rightarrow> bool \<times> log_system" where
  "init_log_file name s rollover_min now ok w =
     (let n = length (appenders w);
          (made, a, fs) = init_appender name rollover_min now ok (files w);
          (r, l) = init_log s (if made then Some n else None) (the_logger w)
      in if fst (set_severity s (the_logger w)) then
           (r, w\<lparr>the_logger := l, appenders := (if made then appenders w @ [FileAppender a] else appenders w),
              files := fs\<rparr>)
         else (r, w\<lparr>the_logger := l\<rparr>))"

section \<open>Statements\<close>

text \<open>
  \<^verbatim>\<open>LOG_x << msg\<close>, and \<^verbatim>\<open>PLOG_x << msg\<close> with the value of \<^verbatim>\<open>errno\<close> when the record is destroyed. The
  message is evaluated only when the record is made. The result says whether the record
  calls \<^verbatim>\<open>abort\<close> after it was appended.
\<close>

definition end_record :: "log_env \<Rightarrow> append_answers \<Rightarrow> log_record \<Rightarrow> log_system \<Rightarrow> (bool \<times> log_system) result" where
  "end_record env k r w =
     and_then (logger_append env k (stream (to_stream [LF] r)) w) (\<lambda>w'. Inr (abort_flag r, w'))"

definition log_statement ::
  "log_env \<Rightarrow> append_answers \<Rightarrow> timestamp \<Rightarrow> string \<Rightarrow> int \<Rightarrow> int option \<Rightarrow> int \<Rightarrow> string result \<Rightarrow> log_system \<Rightarrow>
   (bool \<times> log_system) result"
where
  "log_statement env k now file lineno perr lvl msg w =
     (if severity (the_logger w) \<le> lvl then
        and_then (new_log_record env now file lineno lvl (lvl = FATAL)) (\<lambda>r.
        and_then msg (\<lambda>str.
        let r1 = to_stream str r;
            r2 = (case perr of None \<Rightarrow> r1 | Some e \<Rightarrow> plog_end env e r1)
        in end_record env k r2 w))
      else Inr (False, w))"

text \<open>\<^verbatim>\<open>PLOG_x_IF(expr) << msg\<close>.\<close>

definition plog_if ::
  "bool \<Rightarrow> log_env \<Rightarrow> append_answers \<Rightarrow> timestamp \<Rightarrow> string \<Rightarrow> int \<Rightarrow> int \<Rightarrow> int \<Rightarrow> string result \<Rightarrow> log_system \<Rightarrow>
   (bool \<times> log_system) result"
where
  "plog_if b env k now file lineno e lvl msg w =
     (if b then log_statement env k now file lineno (Some e) lvl msg w else Inr (False, w))"

section \<open>What a line says\<close>

lemma digits_value_zeros: "digits_value (replicate k (CHR ''0'') @ s) = digits_value s"
  by (induction k) (simp_all add: digits_value_def)

lemma pad_fixed:
  assumes "0 \<le> n" and "n < 10 ^ w" and "0 < w"
  shows "length (pad w n) = w" and "digits_value (pad w n) = nat n"
proof -
  from assms have "nat n < 10 ^ w" by (simp add: nat_less_iff)
  with length_to_string [OF _ assms(3)] assms(1) show "length (pad w n) = w" by (simp add: pad_def Let_def)
  show "digits_value (pad w n) = nat n" using assms(1) by (simp add: pad_def Let_def digits_value_zeros)
qed

text \<open>A broken-down time of the years 0 to 9999.\<close>

definition tm_ok :: "tm \<Rightarrow> bool" where
  "tm_ok r \<longleftrightarrow> 0 \<le> tm_sec r \<and> tm_sec r \<le> 60 \<and> 0 \<le> tm_min r \<and> tm_min r \<le> 59 \<and> 0 \<le> tm_hour r \<and> tm_hour r \<le> 23 \<and>
     1 \<le> tm_mday r \<and> tm_mday r \<le> 31 \<and> 0 \<le> tm_mon r \<and> tm_mon r \<le> 11 \<and> -1900 \<le> tm_year r \<and> tm_year r \<le> 8099"

text \<open>The number in a field of a string.\<close>

definition field :: "nat \<Rightarrow> nat \<Rightarrow> string \<Rightarrow> int" where
  "field a n s = int (digits_value (take n (drop a s)))"

lemma field_here: "length x = n \<Longrightarrow> field 0 n (x @ y) = int (digits_value x)"
  by (simp add: field_def)

lemma field_later: "length x \<le> a \<Longrightarrow> field a n (x @ y) = field (a - length x) n y"
  by (simp add: field_def)

lemma field_skip: "0 < a \<Longrightarrow> field a n (c # y) = field (a - 1) n y"
  by (cases a) (simp_all add: field_def)

lemmas field_simps' = field_here field_later field_skip

text \<open>C40. A printed time stamp has 23 characters (15 in the name of a rolled-over file) and
  its fields read back the broken-down time and the milliseconds.\<close>

lemma ts_print_fields:
  assumes "tm_ok (localtime (sec t))" and "normalised t"
  shows "length (ts_print localtime t) = 23 \<and> length (ts_str localtime t) = 15 \<and>
    (let r = localtime (sec t); s = ts_print localtime t in
     field 0 4 s = 1900 + tm_year r \<and> field 5 2 s = 1 + tm_mon r \<and> field 8 2 s = tm_mday r \<and>
     field 11 2 s = tm_hour r \<and> field 14 2 s = tm_min r \<and> field 17 2 s = tm_sec r \<and> field 20 3 s = msec t) \<and>
    (let r = localtime (sec t); s = ts_str localtime t in
     field 0 4 s = 1900 + tm_year r \<and> field 4 2 s = 1 + tm_mon r \<and> field 6 2 s = tm_mday r \<and>
     field 9 2 s = tm_hour r \<and> field 11 2 s = tm_min r \<and> field 13 2 s = tm_sec r)"
proof -
  define r where "r = localtime (sec t)"
  have r: "tm_ok r" using assms(1) by (simp add: r_def)
  have two: "length (pad 2 n) = 2 \<and> int (digits_value (pad 2 n)) = n" if "0 \<le> n" "n < 100" for n
    using that pad_fixed [of n 2] by simp
  have p: "length (pad 4 (1900 + tm_year r)) = 4" "int (digits_value (pad 4 (1900 + tm_year r))) = 1900 + tm_year r"
    using r pad_fixed [of "1900 + tm_year r" 4] by (simp_all add: tm_ok_def)
  have q: "length (pad 3 (msec t)) = 3" "int (digits_value (pad 3 (msec t))) = msec t"
    using assms(2) pad_fixed [of "msec t" 3] by (simp_all add: normalised_def)
  have f: "length (pad 2 (1 + tm_mon r)) = 2 \<and> int (digits_value (pad 2 (1 + tm_mon r))) = 1 + tm_mon r"
    "length (pad 2 (tm_mday r)) = 2 \<and> int (digits_value (pad 2 (tm_mday r))) = tm_mday r"
    "length (pad 2 (tm_hour r)) = 2 \<and> int (digits_value (pad 2 (tm_hour r))) = tm_hour r"
    "length (pad 2 (tm_min r)) = 2 \<and> int (digits_value (pad 2 (tm_min r))) = tm_min r"
    "length (pad 2 (tm_sec r)) = 2 \<and> int (digits_value (pad 2 (tm_sec r))) = tm_sec r"
    using r by (simp_all add: tm_ok_def two)
  show ?thesis
    unfolding ts_print_def ts_str_def Let_def r_def [symmetric]
    using p q f by (simp add: field_simps' field_def)
qed

section \<open>Where the lines go\<close>

text \<open>Inodes that were not made yet are empty.\<close>

definition fresh_nodes :: "file_system \<Rightarrow> bool" where
  "fresh_nodes fs \<longleftrightarrow> (\<forall>i \<ge> next_inode fs. contents fs i = [])"

lemma open_log_nodes:
  assumes "fresh_nodes fs" and "open_log ok (a, fs) = (r, a', fs')"
  shows "contents fs' = contents fs" and "fresh_nodes fs'"
  using assms by (auto simp: open_log_def fresh_nodes_def Let_def fun_eq_iff split: option.splits if_splits)

lemma rename_nodes [simp]:
  "contents (rename_file x y fs) = contents fs" "fresh_nodes (rename_file x y fs) = fresh_nodes fs"
  by (simp_all add: rename_file_def fresh_nodes_def)

lemma do_rollover_nodes:
  assumes "fresh_nodes fs" and "do_rollover localtime now stat_fails ok (a, fs) = (a', fs')"
  shows "contents fs' = contents fs" and "fresh_nodes fs'"
  using assms open_log_nodes
  by (auto simp: do_rollover_def Let_def split: prod.splits if_splits)
     (metis rename_nodes)+

text \<open>A line that is written whole is added to the file that has the log's name when it is written.\<close>

lemma append_log_nodes:
  assumes ok: "log_ok (a, fs)" "fresh_nodes fs" and w: "length line \<le> wrote"
  shows "\<exists>a' fs' i. append_log localtime now False True wrote ok2 line (a, fs) = Inr (a', fs') \<and>
    log_ok (a', fs') \<and> fresh_nodes fs' \<and> log_name a' = log_name a \<and>
    directory fs' (log_name a) = Some i \<and> contents fs' = (contents fs)(i := contents fs i @ line)"
proof -
  obtain a1 fs1 where r: "do_rollover localtime now False True (a, fs) = (a1, fs1)"
    by (cases "do_rollover localtime now False True (a, fs)")
  note n = do_rollover_nodes [OF ok(2) r]
  from do_rollover_ok [OF ok(1) r] have d: "log_ok (a1, fs1)" "log_name a1 = log_name a"
    "directory fs1 (log_name a) = log_file a1" by simp_all
  then have f: "log_file a1 = Some (file_node a1)" "file_node a1 < next_inode fs1" by (simp_all add: log_ok_def)
  let ?fs = "fs1\<lparr>contents := (contents fs1)(file_node a1 := contents fs1 (file_node a1) @ line)\<rparr>"
  have "append_log localtime now False True wrote ok2 line (a, fs) = Inr (a1, ?fs)"
    using r f w by (simp add: append_log_def Let_def min_absorb2)
  moreover have "log_ok (a1, ?fs)" using d(1) by (simp add: log_ok_def)
  moreover have "fresh_nodes ?fs" using n(2) f(2) by (simp add: fresh_nodes_def)
  ultimately show ?thesis using d f n(1) by auto
qed

text \<open>A system that logs to a file.\<close>

definition logs_to_file :: "log_system \<Rightarrow> bool" where
  "logs_to_file w \<longleftrightarrow> (\<exists>a. appender_id (the_logger w) < length (appenders w) \<and>
     appenders w ! appender_id (the_logger w) = FileAppender a \<and> log_ok (a, files w) \<and> fresh_nodes (files w))"

text \<open>A statement with what the kernel answers to it, its line, and the statements up to the first that
  ends the process.\<close>

type_synonym log_stmt = "append_answers \<times> timestamp \<times> string \<times> int \<times> int option \<times> int \<times> string"

definition line_of :: "log_env \<Rightarrow> log_stmt \<Rightarrow> byte list" where
  "line_of env = (\<lambda>(k, now, file, lineno, perr, lvl, str).
     severity_map ! nat lvl @ record_head env now file lineno @ str @
     (case perr of None \<Rightarrow> [] | Some e \<Rightarrow> errno_text env e) @ [LF])"

definition level_of :: "log_stmt \<Rightarrow> int" where
  "level_of = (\<lambda>(k, now, file, lineno, perr, lvl, str). lvl)"

definition stmt_ok :: "log_env \<Rightarrow> log_stmt \<Rightarrow> bool" where
  "stmt_ok env s \<longleftrightarrow> (let k = fst s in
     DEBUG \<le> level_of s \<and> level_of s \<le> FATAL \<and> \<not> stat_errs k \<and> opens k \<and> length (line_of env s) \<le> takes k)"

fun run_statement :: "log_env \<Rightarrow> log_stmt \<Rightarrow> log_system \<Rightarrow> (bool \<times> log_system) result" where
  "run_statement env (k, now, file, lineno, perr, lvl, str) w =
     log_statement env k now file lineno perr lvl (Inr str) w"

fun run_statements :: "log_env \<Rightarrow> log_stmt list \<Rightarrow> log_system \<Rightarrow> (bool \<times> log_system) result" where
  "run_statements env [] w = Inr (False, w)"
| "run_statements env (s # ss) w =
     and_then (run_statement env s w) (\<lambda>(aborts, w').
       if aborts then Inr (True, w') else run_statements env ss w')"

fun until_fatal :: "log_stmt list \<Rightarrow> log_stmt list" where
  "until_fatal [] = []"
| "until_fatal (s # ss) = (if level_of s = FATAL then [s] else s # until_fatal ss)"

lemma severity_name_ok: "DEBUG \<le> s \<Longrightarrow> s \<le> FATAL \<Longrightarrow> severity_name s = Inr (severity_map ! nat s)"
  by (simp add: severity_name_def severity_map_def)

lemma statement_filtered: "level_of s < severity (the_logger w) \<Longrightarrow> run_statement env s w = Inr (False, w)"
  by (cases s) (simp add: level_of_def log_statement_def)

lemma statement_written:
  assumes w: "logs_to_file w" and s: "stmt_ok env s" "severity (the_logger w) \<le> level_of s"
  shows "\<exists>w' i. run_statement env s w = Inr (level_of s = FATAL, w') \<and> logs_to_file w' \<and>
    the_logger w' = the_logger w \<and> stdout w' = stdout w \<and>
    contents (files w') = (contents (files w))(i := contents (files w) i @ line_of env s)"
proof -
  obtain k now src lineno perr lvl str where S: "s = (k, now, src, lineno, perr, lvl, str)" by (cases s)
  from w obtain a where a: "appender_id (the_logger w) < length (appenders w)"
    "appenders w ! appender_id (the_logger w) = FileAppender a" "log_ok (a, files w)" "fresh_nodes (files w)"
    by (auto simp: logs_to_file_def)
  have k: "stat_errs k = False" "opens k = True" "length (line_of env s) \<le> takes k" "DEBUG \<le> lvl" "lvl \<le> FATAL"
    using s(1) by (simp_all add: stmt_ok_def S level_of_def Let_def)
  from append_log_nodes [OF a(3,4) k(3), of "localtime_r env" "at_time k" "reopens k"] obtain a' fs' i where r:
    "append_log (localtime_r env) (at_time k) False True (takes k) (reopens k) (line_of env s) (a, files w) = Inr (a', fs')"
    "log_ok (a', fs')" "fresh_nodes fs'" "contents fs' = (contents (files w))(i := contents (files w) i @ line_of env s)"
    by blast
  let ?w = "w\<lparr>appenders := (appenders w)[appender_id (the_logger w) := FileAppender a'], files := fs'\<rparr>"
  have "logger_append env k (line_of env s) w = Inr ?w"
    using a(1,2) r(1) k(1,2) by (simp add: logger_append_def)
  then have "run_statement env s w = Inr (lvl = FATAL, ?w)"
    using s(2) severity_name_ok [OF k(4,5)]
    by (cases perr) (simp_all add: S log_statement_def level_of_def new_log_record_def end_record_def line_of_def
        to_stream_def plog_end_def)
  moreover have "logs_to_file ?w" using a(1) r(2,3) by (simp add: logs_to_file_def)
  ultimately show ?thesis using r(4) S by (intro exI [of _ ?w] exI [of _ i]) (simp add: level_of_def)
qed


end
