(* ===== verification/Printing.thy ===== *)
theory Printing
  imports Protocols Log_Records "HOL-Library.List_Lexorder" "HOL-Library.Char_ord"
begin

text \<open>
  What the program prints of its objects: \<^verbatim>\<open>operator<<\<close> of a view (\<^verbatim>\<open>net/buffer.h\<close>), of an address
  (\<^verbatim>\<open>net/socket.cpp\<close>) and of a context (\<^verbatim>\<open>protocols/\<close>). The server prints the context of each request
  it has parsed (\<^verbatim>\<open>data_read_callback\<close>); the theory shows that the memory this reads is there.
\<close>

section \<open>Printers\<close>

definition print_view :: "buffer \<Rightarrow> bufview \<Rightarrow> string result" where
  "print_view b v = view_str b v"

text \<open>An IPv4 address in dotted form and the port.\<close>

definition print_addr :: "32 word \<Rightarrow> nat \<Rightarrow> string" where
  "print_addr a port =
     (case map (\<lambda>c. to_string (of_char c)) (be_bytes a) of
        s # ss \<Rightarrow> s @ concat (map (\<lambda>t. ''.'' @ t) ss)
      | [] \<Rightarrow> []) @ '':'' @ to_string port"

definition print_simple :: "simple_ctx \<Rightarrow> string" where
  "print_simple c =
     ''SimpleContext. service: '' @ service c @ '', method: '' @ method_name c @
     '', payload_size: '' @ to_string (view_size (payload_view c))"

text \<open>The headers come in the order of \<^verbatim>\<open>std::map\<close>.\<close>

definition print_headers :: "(string \<rightharpoonup> string) \<Rightarrow> string" where
  "print_headers m =
     concat (map (\<lambda>k. [LF] @ ''    '' @ k @ '': '' @ the (m k)) (sorted_list_of_set (dom m)))"

definition print_http :: "buffer \<Rightarrow> http_ctx \<Rightarrow> string result" where
  "print_http b c =
     and_then (view_str b (request_line c)) (\<lambda>line.
       Inr (''HTTPContext:'' @ [LF] @ ''stage: '' @ print_int (h_stage c) @ [LF] @ ''request_line: '' @ line @
         [LF] @ ''service: '' @ service c @ [LF] @ ''method: '' @ method_name c @ [LF] @ ''headers: '' @
         print_headers (headers c)))"

fun print_ctx :: "buffer \<Rightarrow> any_ctx \<Rightarrow> string result" where
  "print_ctx b (SimpleCtx c) = Inr (print_simple c)"
| "print_ctx b (HttpCtx c) = print_http b c"

section \<open>The view of the request line\<close>

definition in_buffer :: "bufview \<Rightarrow> buffer \<Rightarrow> bool" where
  "in_buffer v b \<longleftrightarrow> \<not> has_buf v \<or> v_begin v \<le> v_end v \<and> v_end v \<le> length (data b) \<and> length (data b) \<le> max_object"

fun shown :: "any_ctx \<Rightarrow> buffer \<Rightarrow> bool" where
  "shown (SimpleCtx c) b \<longleftrightarrow> True"
| "shown (HttpCtx c) b \<longleftrightarrow> in_buffer (request_line c) b"

lemma in_buffer_str: "in_buffer v b \<Longrightarrow> \<exists>s. view_str b v = Inr s"
  by (auto simp: in_buffer_def view_str_def view_size_def sz_sub_small mem_read_def in_bounds_def)

lemma shown_prints: "shown x b \<Longrightarrow> \<exists>s. print_ctx b x = Inr s"
  by (cases x) (auto simp: print_http_def dest: in_buffer_str)

lemma in_buffer_null [simp]: "in_buffer null_view b"
  by (simp add: in_buffer_def null_view_def)

lemma shown_fresh [simp]: "shown (new_context p) b"
  by (cases p) (simp_all add: new_http_ctx_def)

lemma request_line_extend: "request_line (rpc_context.extend r (rpc_context.more c)) = request_line c"
  for c :: http_ctx
  by (cases c) (simp add: rpc_context.defs)

lemma shown_on_base [simp]: "shown (on_base f x) b = shown x b"
  by (cases x) (simp_all add: request_line_extend)

text \<open>The vector never shrinks, and a larger one is still bounded.\<close>

lemma in_buffer_grown:
  assumes "in_buffer v b" and "length (data b) \<le> length (data b')" and "length (data b') \<le> max_object \<or> data b' = data b"
  shows "in_buffer v b'"
  using assms by (auto simp: in_buffer_def)

lemma shown_grown:
  "shown x b \<Longrightarrow> length (data b) \<le> length (data b') \<Longrightarrow> length (data b') \<le> max_object \<or> data b' = data b \<Longrightarrow> shown x b'"
  by (cases x) (auto intro: in_buffer_grown)

lemma length_overlay:
  "w + n \<le> length d \<Longrightarrow> n \<le> length bs \<Longrightarrow> length (take w d @ take n bs @ drop (w + n) d) = length d"
  by simp

lemma read_fd_never_shrinks:
  assumes "read_fd a b = Inr (n, b')"
  shows "length (data b) \<le> length (data b') \<and> (length (data b') \<le> max_object \<or> data b' = data b)"
proof -
  from assms obtain b1 where b1: "(if writeable b = 0 then resize_double b else Inr b) = Inr b1"
    by (auto simp: read_fd_def and_then_Inr_iff)
  then have g: "length (data b) \<le> length (data b1) \<and> (length (data b1) \<le> max_object \<or> data b1 = data b)"
    by (auto simp: resize_double_def split: if_splits)
  show ?thesis
  proof (cases a)
    case (Pending bs)
    define k where "k = min (writeable b1) (length bs)"
    from assms b1 Pending have k: "in_bounds b1 (windex b1) k"
      and "data b' = take (windex b1) (data b1) @ take k bs @ drop (windex b1 + k) (data b1)"
      by (auto simp: read_fd_def k_def Let_def split: if_splits)
    then have "length (data b') = length (data b1)"
      using length_overlay [of "windex b1" k "data b1" bs] by (simp add: in_bounds_def k_def)
    with g k show ?thesis by (simp add: in_bounds_def)
  next
    case (ReadErr e)
    with assms b1 g show ?thesis by (auto simp: read_fd_def split: if_splits)
  qed
qed

text \<open>What the parsers do with the line: they set it to a part of the buffer or leave it.\<close>

abbreviation keeps_line :: "http_ctx \<Rightarrow> buffer \<Rightarrow> ('r \<times> http_ctx \<times> buffer) result \<Rightarrow> bool" where
  "keeps_line c b r \<equiv> ensures r (\<lambda>(st, c', b').
     data b' = data b \<and> (request_line c' = request_line c \<or> in_buffer (request_line c') b))"

lemma keeps_line_shown:
  "keeps_line c b r \<Longrightarrow> r = Inr (st, c', b') \<Longrightarrow> in_buffer (request_line c) b \<Longrightarrow> in_buffer (request_line c') b'"
  by (auto simp: in_buffer_def)

lemma data_retrieve: "data (retrieve k b) = data b"
  by (simp add: retrieve_def)

lemma keeps_line_from: "keeps_line d b r \<Longrightarrow> request_line d = request_line c \<Longrightarrow> keeps_line c b r"
  by (auto elim: ensures_mono)

lemma store_header_line: "store_header k v c = Inr c' \<Longrightarrow> request_line c' = request_line c"
  by (auto simp: store_header_def and_then_Inr_iff Let_def split: if_splits)

lemma header_step_keeps_line: "keeps_line c b (header_step c b)"
  unfolding header_step_def Let_def
  by (intro ensures_intros) (simp_all add: data_retrieve store_header_line)

lemma keeps_line_loop:
  assumes "keeps_line c b (step c b)" and "\<And>c' b'. step c b = Inr (None, c', b') \<Longrightarrow> keeps_line c' b' (rec c' b')"
  shows "keeps_line c b (and_then (step c b) (\<lambda>(r, c', b'). case r of Some st \<Rightarrow> Inr (st, c', b') | None \<Rightarrow> rec c' b'))"
proof (rule ensures_and_then, clarify)
  fix r c' b' assume x: "step c b = Inr (r, c', b')"
  then have c': "data b' = data b" "request_line c' = request_line c \<or> in_buffer (request_line c') b"
    using ensuresD [OF assms(1) x] by simp_all
  then have same: "in_buffer v b' = in_buffer v b" for v by (simp add: in_buffer_def)
  have "keeps_line c b (rec c' b')" if "r = None"
    using assms(2) [of c' b'] x that c' same by (auto elim!: ensures_mono)
  then show "keeps_line c b (case r of Some st \<Rightarrow> Inr (st, c', b') | None \<Rightarrow> rec c' b')"
    using c' by (cases r) simp_all
qed

lemma parse_headers_keeps_line: "keeps_line c b (parse_headers c b)"
proof (induction c b rule: parse_headers.induct)
  case (1 c b)
  then show ?case by (subst parse_headers.simps, intro keeps_line_loop header_step_keeps_line) auto
qed

lemma parse_body_keeps_line: "keeps_line c b (parse_body c b)"
  by (auto simp: parse_body_def)

lemma parse_service_method_line: "parse_service_method c b off t = Inr c' \<Longrightarrow> request_line c' = request_line c"
  by (auto simp: parse_service_method_def and_then_Inr_iff split: option.splits)

lemma crlf_line_in_buffer:
  assumes "find_crlf (min (readable b) 65536) b = Inr n" and "n \<noteq> -1"
  shows "in_buffer (view_at (rindex b) (to_size n)) b"
proof -
  from find_crlf_small [OF assms(1)] assms(2) obtain k where
    k: "n = int k" "k + 2 \<le> min (readable b) 65536" "in_bounds b (rindex b) (min (readable b) 65536)" by auto
  then have "rindex b + k \<le> length (data b)" "length (data b) \<le> max_object"
    by (auto simp: in_bounds_def)
  with k(1) show ?thesis by (simp add: in_buffer_def view_at_def to_size_int sz_add_small)
qed

lemma parse_version_keeps_line:
  "in_buffer (view_at (rindex b) (to_size n)) b \<Longrightarrow> keeps_line c b (parse_version c b off n)"
  unfolding parse_version_def by (intro ensures_intros) (simp_all add: data_retrieve)

lemma parse_url_keeps_line:
  assumes "in_buffer (view_at (rindex b) (to_size n)) b"
  shows "keeps_line c b (parse_url c b off n)"
  unfolding parse_url_def Let_def
  by (intro ensures_intros keeps_line_from [OF parse_version_keeps_line [OF assms]])
     (auto dest: parse_service_method_line)

lemma parse_request_keeps_line: "keeps_line c b (parse_request_line c b)"
  unfolding parse_request_line_def Let_def MaxHeadlineSize_def
  by (intro ensures_intros keeps_line_from [OF parse_url_keeps_line [OF crlf_line_in_buffer]])
     (auto split: option.splits)

lemma http_step_keeps_line: "keeps_line c b (first_line c b) \<Longrightarrow> keeps_line c b (http_step first_line c b)"
  using parse_headers_keeps_line [of c b] parse_body_keeps_line [of c b]
  by (auto simp: http_step_def http_advance_def ensures_def and_then_Inr_iff split: if_splits)

lemma http_parse_request_keeps_line: "keeps_line c b (http_parse_request c b)"
proof (induction c b rule: http_parse_request.induct)
  case (1 c b)
  then show ?case
    by (subst http_parse_request.simps, intro keeps_line_loop http_step_keeps_line parse_request_keeps_line) auto
qed

end
