(* ===== verification/Context_Types.thy ===== *)
theory Context_Types
  imports Server_Steps Printing
begin

text \<open>
  The class of the context of a connection. \<^verbatim>\<open>Protocol::parse_request\<close> casts the \<^verbatim>\<open>Context*\<close> of a connection
  down to its own class, and \<^verbatim>\<open>data_read_callback\<close> prints the context after a parse. In every state the
  server reaches the context is of the class of the protocol the connection has settled on, and
  what is printed of it is in the buffer.
\<close>

section \<open>Typed contexts\<close>

definition typed_at :: "protocol list \<Rightarrow> nat \<Rightarrow> any_ctx option \<Rightarrow> buffer \<Rightarrow> bool" where
  "typed_at ps i x b \<longleftrightarrow> (case x of None \<Rightarrow> True | Some y \<Rightarrow> i < length ps \<and> proto_owner y = ps ! i \<and> shown y b)"

definition contexts_ok :: "world \<Rightarrow> bool" where
  "contexts_ok w \<longleftrightarrow> (\<forall>p c. conns w p = Some c \<longrightarrow> typed_at (protocols w) (proto_idx c) (ctx c) (rbuf c))"

lemma typed_None [simp]: "typed_at ps i None b"
  by (simp add: typed_at_def)

lemma contexts_okD: "contexts_ok w \<Longrightarrow> conns w p = Some c \<Longrightarrow> typed_at (protocols w) (proto_idx c) (ctx c) (rbuf c)"
  unfolding contexts_ok_def by blast

lemma typed_read: "typed_at ps i x b \<Longrightarrow> read_fd a b = Inr (n, b') \<Longrightarrow> typed_at ps i x b'"
  using read_fd_never_shrinks [of a b n b'] by (auto simp: typed_at_def intro: shown_grown split: option.splits)

section \<open>Parsing\<close>

lemma shown_keeps:
  assumes "shown x b" and "ctx_parse_request x b = Inr (st, x', b')"
  shows "shown x' b' \<and> proto_owner x' = proto_owner x"
proof (cases x)
  case (HttpCtx c)
  with assms(2) obtain c' where c': "http_parse_request c b = Inr (st, c', b')" "x' = HttpCtx c'"
    by (auto simp: and_then_Inr_iff lift_ctx_def)
  from keeps_line_shown [OF http_parse_request_keeps_line c'(1)] assms(1) c'(2) HttpCtx show ?thesis by simp
next
  case (SimpleCtx c)
  with assms(2) show ?thesis by (auto simp: and_then_Inr_iff lift_ctx_def)
qed

lemma parse_typed:
  assumes "protocol_parse p (Some x) b = Inr (st, x', b')" and "\<forall>y. x = Some y \<longrightarrow> proto_owner y = p \<and> shown y b"
  shows "(\<forall>y. x' = Some y \<longrightarrow> proto_owner y = p \<and> shown y b') \<and> (st = ParseProtocol_TryAnotherProtocol \<longrightarrow> x' = None)"
proof (cases x)
  case (Some y)
  then have y: "proto_owner y = p" "shown y b" using assms(2) by simp_all
  from family.kept [OF y(1)] assms(1) Some have k: "st \<noteq> ParseProtocol_TryAnotherProtocol" "\<exists>d. x' = Some d \<and> proto_owner d = p"
    by blast+
  from assms(1) Some y(1) obtain z where "ctx_parse_request y b = Inr (st, z, b')" "x' = Some z"
    by (cases p; cases y) (auto simp: simple_protocol_parse_def http_protocol_parse_def with_ctx_def and_then_Inr_iff)
  with shown_keeps [OF y(2)] y k(1) show ?thesis by auto
next
  case None
  show ?thesis
  proof (cases "x' = None")
    case False
    with assms(1) None have "with_ctx (new_context p) b = Inr (st, x', b')"
      by (cases p) (auto simp: simple_protocol_parse_def http_protocol_parse_def and_then_Inr_iff split: if_splits)
    then obtain z where z: "ctx_parse_request (new_context p) b = Inr (st, z, b')" "x' = Some z"
      by (auto simp: with_ctx_def and_then_Inr_iff)
    have o: "proto_owner (new_context p) = p" by (rule family.fresh)
    have "protocol_parse p (Some (Some (new_context p))) b = Inr (st, x', b')"
      using z by (cases p) (simp_all add: simple_protocol_parse_def http_protocol_parse_def with_ctx_def)
    with family.kept [OF o this] shown_keeps [OF _ z(1)] o z(2) show ?thesis by auto
  qed simp
qed

lemma dispatch_typed:
  assumes "dispatch protocol_parse ps i x b = Inr (j, st, x', b')" and "typed_at ps i x b"
  shows "typed_at ps j x' b'"
  using assms
proof (induction protocol_parse ps i x b rule: dispatch.induct)
  case (1 ps i x b)
  show ?case
  proof (cases "i < length ps")
    case True
    with "1.prems"(1) obtain r y e where p: "protocol_parse (ps ! i) (Some x) b = Inr (r, y, e)"
      by (subst (asm) dispatch.simps) (auto simp: and_then_Inr_iff)
    have "\<forall>y. x = Some y \<longrightarrow> proto_owner y = ps ! i \<and> shown y b"
      using "1.prems"(2) by (auto simp: typed_at_def)
    note t = parse_typed [OF p this]
    show ?thesis
    proof (cases "r = ParseProtocol_TryAnotherProtocol")
      case again: True
      then have "y = None" using t by simp
      moreover from "1.prems"(1) True p again have "dispatch protocol_parse ps (i + 1) y e = Inr (j, st, x', b')"
        by (subst (asm) dispatch.simps) simp
      ultimately show ?thesis using "1.hyps" [OF True p refl refl again] by simp
    next
      case False
      with "1.prems"(1) True p t show ?thesis
        by (subst (asm) dispatch.simps) (auto simp: typed_at_def split: option.splits)
    qed
  next
    case False
    with "1.prems" show ?thesis by (subst (asm) dispatch.simps) simp
  qed
qed

section \<open>The callbacks keep the types\<close>

definition keeps :: "world \<Rightarrow> world result \<Rightarrow> bool" where
  "keeps w r \<longleftrightarrow> (\<forall>w'. r = Inr w' \<longrightarrow> contexts_ok w \<longrightarrow> contexts_ok w')"

named_theorems keeping

lemma keeps_bind: "keeps w m \<Longrightarrow> (\<And>v. m = Inr v \<Longrightarrow> keeps v (f v)) \<Longrightarrow> keeps w (and_then m f)"
  by (auto simp: keeps_def and_then_Inr_iff)

lemma keeps_value: "(\<And>x. m = Inr x \<Longrightarrow> keeps w (f x)) \<Longrightarrow> keeps w (and_then m f)"
  by (cases m) (simp_all add: keeps_def)

lemma keeps_get: "(\<And>c. conns w p = Some c \<Longrightarrow> keeps w (f c)) \<Longrightarrow> keeps w (and_then (get_conn p w) f)"
  by (rule keeps_value) (auto simp: get_conn_def split: option.splits)

lemma keeps_fault [keeping]: "keeps w (Inl e)"
  by (simp add: keeps_def)

lemma keeps_if: "(q \<Longrightarrow> keeps w x) \<Longrightarrow> (\<not> q \<Longrightarrow> keeps w y) \<Longrightarrow> keeps w (if q then x else y)"
  by simp

text \<open>Every connection left has the context, index and buffer it had, or a context that was dropped or
  only changed in its common part.\<close>

definition same_ctx :: "conn \<Rightarrow> conn \<Rightarrow> bool" where
  "same_ctx c d \<longleftrightarrow> proto_idx d = proto_idx c \<and>
     (ctx d = None \<or> rbuf d = rbuf c \<and> (ctx d = ctx c \<or> (\<exists>f x. ctx c = Some x \<and> ctx d = Some (on_base f x))))"

definition ctx_frame :: "world \<Rightarrow> world \<Rightarrow> bool" where
  "ctx_frame w w' \<longleftrightarrow> protocols w' = protocols w \<and>
     (\<forall>p d. conns w' p = Some d \<longrightarrow> ctx d = None \<or> (\<exists>c. conns w p = Some c \<and> same_ctx c d))"

lemma ctx_frame_refl [simp]: "ctx_frame w w"
  by (auto simp: ctx_frame_def same_ctx_def)

lemma ctx_frame_ok: "ctx_frame w w' \<Longrightarrow> contexts_ok w \<Longrightarrow> contexts_ok w'"
  unfolding ctx_frame_def contexts_ok_def same_ctx_def
  by (fastforce simp: typed_at_def split: option.splits)

lemma keeps_frame: "ctx_frame w v \<Longrightarrow> keeps v r \<Longrightarrow> keeps w r"
  by (auto simp: keeps_def dest: ctx_frame_ok)

lemma keeps_done: "ctx_frame w v \<Longrightarrow> keeps w (Inr v)"
  by (auto simp: keeps_def dest: ctx_frame_ok)

lemma ctx_frame_put: "ctx_frame w v \<Longrightarrow> conns w p = Some c \<Longrightarrow> same_ctx c d \<Longrightarrow> ctx_frame w (put_conn p d v)"
  by (auto simp: ctx_frame_def)

lemma ctx_frame_simps [simp]:
  "ctx_frame w (on_loop i f v) = ctx_frame w v" "ctx_frame w (send_bytes g bs v) = ctx_frame w v"
  "ctx_frame w (sys_close g v) = ctx_frame w v" "ctx_frame w (v\<lparr>deferred := ds\<rparr>) = ctx_frame w v"
  "ctx_frame w (v\<lparr>open_fds := fs\<rparr>) = ctx_frame w v" "ctx_frame w (v\<lparr>next_el := k\<rparr>) = ctx_frame w v"
  by (simp_all add: ctx_frame_def on_loop_def send_bytes_def sys_close_def)

lemma ctx_frame_free: "ctx_frame w v \<Longrightarrow> ctx_frame w (free_conn p v)"
  by (auto simp: ctx_frame_def free_conn_def)

lemma set_event_keeps [keeping]: "keeps w (set_event p ev w)"
  by (auto simp: set_event_def get_conn_def same_ctx_def intro!: keeping keeps_done ctx_frame_put split: option.splits)

lemma update_on_loop_keeps [keeping]: "keeps w (update_on_loop i p w)"
  unfolding update_on_loop_def
  by (intro keeps_get keeps_value)
     (auto simp: update_channel_def do_epoll_ctl_def same_ctx_def split: if_splits option.splits
       intro!: keeping keeps_done ctx_frame_put)

lemma update_conn_keeps [keeping]: "keeps w (update_conn p w)"
  unfolding update_conn_def by (intro keeps_get keeps_value keeping)

lemma delete_conn_keeps [keeping]: "keeps w (delete_conn p w)"
  unfolding delete_conn_def by (intro keeps_get keeps_done ctx_frame_free) simp

lemma close_callback_keeps [keeping]: "keeps w (close_callback p w)"
  unfolding close_callback_def Let_def
  by (rule keeps_bind [OF set_event_keeps], rule keeps_bind [OF update_conn_keeps], intro keeps_get keeps_value)
     (rule keeps_frame [OF _ delete_conn_keeps], simp)

lemma conn_close_keeps [keeping]: "keeps w (conn_close p w)"
  unfolding conn_close_def by (intro keeps_get) (auto intro: keeping split: option.splits)

lemma start_timer_keeps [keeping]: "keeps w (start_timer p now ms r w)"
  unfolding start_timer_def Let_def
  by (intro keeps_get keeps_value keeps_done) (simp add: ctx_frame_put same_ctx_def bump_timer_def)

lemma arm_write_keeps [keeping]: "keeps w (arm_write now p w)"
  unfolding arm_write_def Let_def
  by (rule keeps_bind [OF set_event_keeps], intro keeps_get keeps_value keeps_if)
     (auto intro: keeps_frame [OF _ start_timer_keeps] keeps_done)

lemma response_callback_keeps [keeping]: "keeps w (response_callback now p r w)"
proof (cases r)
  case (Some out)
  show ?thesis
    unfolding response_callback_def Some option.case Let_def
  proof (rule keeps_get)
    fix c assume c: "conns w p = Some c"
    have "keeps w (and_then (ctx_pack_response x' (wbuf c)) (\<lambda>(ret, b).
        and_then (if \<not> ret then close_callback p (put_conn p (c\<lparr>ctx := Some x', wbuf := b\<rparr>) w)
          else Inr (put_conn p (c\<lparr>ctx := Some x', wbuf := b\<rparr>) w)) (arm_write now p)))"
      if "ctx c = Some x" "x' = on_base f x" for x x' f
    proof (rule keeps_value, clarify)
      fix ret b
      have "ctx_frame w (put_conn p (c\<lparr>ctx := Some x', wbuf := b\<rparr>) w)"
        using that by (intro ctx_frame_put [OF ctx_frame_refl c]) (auto simp: same_ctx_def)
      then show "keeps w (and_then (if \<not> ret then close_callback p (put_conn p (c\<lparr>ctx := Some x', wbuf := b\<rparr>) w)
          else Inr (put_conn p (c\<lparr>ctx := Some x', wbuf := b\<rparr>) w)) (arm_write now p))"
        by (rule keeps_frame, intro keeps_bind keeps_if keeping keeps_done) simp
    qed
    then show "keeps w (case ctx c of None \<Rightarrow> Inl NullDeref | Some x \<Rightarrow>
        and_then (ctx_pack_response (on_base (\<lambda>b. b\<lparr>rpc_status := Some RpcStatus_OK, payload := out\<rparr>) x) (wbuf c))
          (\<lambda>(ret, b).
            and_then (if \<not> ret then close_callback p
                (put_conn p (c\<lparr>ctx := Some (on_base (\<lambda>b. b\<lparr>rpc_status := Some RpcStatus_OK, payload := out\<rparr>) x),
                  wbuf := b\<rparr>) w)
              else Inr (put_conn p (c\<lparr>ctx := Some (on_base (\<lambda>b. b\<lparr>rpc_status := Some RpcStatus_OK, payload := out\<rparr>) x),
                  wbuf := b\<rparr>) w)) (arm_write now p)))"
      by (cases "ctx c") (auto intro: keeping)
  qed
qed (simp add: response_callback_def keeping)

lemma request_callback_keeps [keeping]: "keeps w (request_callback app now p w)"
  unfolding request_callback_def
  by (intro keeps_get) (auto intro!: keeps_value keeping keeps_done split: option.splits app_reply.splits)

lemma data_read_callback_keeps [keeping]: "keeps w (data_read_callback app now p w)"
  unfolding data_read_callback_def Let_def
proof (rule keeps_get, rule keeps_value, clarify)
  fix c i res x b
  assume c: "conns w p = Some c"
    and d: "dispatch protocol_parse (protocols w) (proto_idx c) (ctx c) (rbuf c) = Inr (i, res, x, b)"
  let ?v = "put_conn p (c\<lparr>proto_idx := i, ctx := x, rbuf := b\<rparr>) w"
  have "contexts_ok ?v" if "contexts_ok w"
    using dispatch_typed [OF d contexts_okD [OF that c]] that by (auto simp: contexts_ok_def)
  moreover have "keeps ?v (if i \<ge> length (protocols w) then conn_close p ?v
      else if res = Some ParseProtocol_Error then conn_close p ?v
      else if res = Some ParseProtocol_NoEnoughData then Inr ?v else request_callback app now p ?v)"
    by (intro keeps_if keeping keeps_done) simp
  ultimately show "keeps w (if i \<ge> length (protocols w) then conn_close p ?v
      else if res = Some ParseProtocol_Error then conn_close p ?v
      else if res = Some ParseProtocol_NoEnoughData then Inr ?v else request_callback app now p ?v)"
    unfolding keeps_def by blast
qed

lemma write_complete_keeps [keeping]: "keeps w (write_complete_callback now p w)"
  unfolding write_complete_callback_def Let_def
proof (rule keeps_get)
  fix c assume c: "conns w p = Some c"
  let ?v = "put_conn p (c\<lparr>ctx := None, rbuf := clear (rbuf c), wbuf := clear (wbuf c)\<rparr>) w"
  have f: "ctx_frame w ?v" by (rule ctx_frame_put [OF ctx_frame_refl c]) (simp add: same_ctx_def)
  have "keeps ?v (if t = ConnType_Short then close_callback p ?v
      else and_then (set_event p EPOLLIN ?v) (\<lambda>w2. and_then (update_conn p w2) (\<lambda>w3.
        if read_timeout_ms w3 > 0 then start_timer p now (read_timeout_ms w3) True w3 else Inr w3)))" for t
    by (intro keeps_if keeps_bind keeping keeps_done) simp
  then show "keeps w (case ctx c of None \<Rightarrow> Inl NullDeref | Some x \<Rightarrow>
      if conn_type (base_of x) = ConnType_Short then close_callback p ?v
      else and_then (set_event p EPOLLIN ?v) (\<lambda>w2. and_then (update_conn p w2) (\<lambda>w3.
        if read_timeout_ms w3 > 0 then start_timer p now (read_timeout_ms w3) True w3 else Inr w3)))"
    using keeps_frame [OF f] by (cases "ctx c") (auto intro: keeping)
qed

lemma timeout_keeps [keeping]: "keeps w (timeout_callback i p t tid r w)"
  unfolding timeout_callback_def by (intro keeps_if keeps_get keeping keeps_done) simp_all

lemma new_connection_keeps [keeping]: "keeps w (new_connection_callback now a nb conn w)"
  unfolding new_connection_callback_def Let_def
proof (rule keeps_value, clarify)
  fix i w1 assume g: "get_next_el w = Inr (i, w1)"
  let ?v = "on_loop i (add_channel a now) (put_conn a (new_tcp_connection conn (Some i) True now) w1)"
  have "w1 = w \<or> (\<exists>n. w1 = w\<lparr>next_el := n\<rparr>)"
    using g by (auto simp: get_next_el_def Let_def split: if_splits option.splits)
  then have "ctx_frame w ?v" by (auto simp: ctx_frame_def on_loop_def new_tcp_connection_def same_ctx_def)
  moreover have "keeps ?v (if \<not> nb then Inl Aborted
      else and_then (set_event a EPOLLIN ?v) (\<lambda>w4. and_then (update_conn a w4) (\<lambda>w5.
        and_then (if read_timeout_ms w5 > 0 then start_timer a now (read_timeout_ms w5) True w5 else Inr w5) (\<lambda>w6.
        and_then (get_conn a w6) (\<lambda>c. Inr (put_conn a (c\<lparr>data_read_cb := Some DataReadCb, close_cb := Some CloseCb,
           write_complete_cb := Some WriteCompleteCb\<rparr>) w6))))))"
    by (intro keeps_if keeping keeps_bind [OF set_event_keeps] keeps_bind [OF update_conn_keeps]
        keeps_bind [OF keeps_if] keeps_get keeps_done)
       (simp_all add: keeps_def ctx_frame_put same_ctx_def)
  ultimately show "keeps w (if \<not> nb then Inl Aborted
      else and_then (set_event a EPOLLIN ?v) (\<lambda>w4. and_then (update_conn a w4) (\<lambda>w5.
        and_then (if read_timeout_ms w5 > 0 then start_timer a now (read_timeout_ms w5) True w5 else Inr w5) (\<lambda>w6.
        and_then (get_conn a w6) (\<lambda>c. Inr (put_conn a (c\<lparr>data_read_cb := Some DataReadCb, close_cb := Some CloseCb,
           write_complete_cb := Some WriteCompleteCb\<rparr>) w6))))))"
    by (rule keeps_frame)
qed

lemma run_callback_keeps [keeping]: "keeps w (run_callback app now p cb w)"
  unfolding run_callback_def
  by (auto intro: keeping keeps_done split: option.splits server_cb.splits)

lemma tcp_events_typed:
  assumes "tcp_handle_events ev ra wa1 wa2 c = Inr (c', out, cb)" and "typed_at ps (proto_idx c) (ctx c) (rbuf c)"
  shows "typed_at ps (proto_idx c') (ctx c') (rbuf c')"
  using assms typed_read
  by (auto simp: tcp_handle_events_def and_then_Inr_iff Let_def split: if_splits)

lemma conn_events_keeps [keeping]: "keeps w (conn_handle_events app now p ev ra wa1 wa2 w)"
  unfolding conn_handle_events_def
proof (rule keeps_get, rule keeps_value, clarify)
  fix c c' out cb
  assume c: "conns w p = Some c" and t: "tcp_handle_events ev ra wa1 wa2 c = Inr (c', out, cb)"
  have "contexts_ok (put_conn p c' (send_bytes (fd c) out w))" if "contexts_ok w"
    using tcp_events_typed [OF t contexts_okD [OF that c]] that by (auto simp: contexts_ok_def send_bytes_def)
  then show "keeps w (run_callback app now p cb (put_conn p c' (send_bytes (fd c) out w)))"
    using run_callback_keeps unfolding keeps_def by blast
qed

lemma acceptor_keeps [keeping]: "keeps w (acceptor_handle_events now ev answer a nb w)"
  unfolding acceptor_handle_events_def
  by (auto intro!: keeping keeps_done keeps_frame [OF _ new_connection_keeps] split: accept_answer.splits)

lemma handle_io_keeps [keeping]: "keeps w (handle_io app i now e w)"
  by (cases e) (simp_all add: keeping keeps_done)

lemma exec_task_keeps [keeping]: "keeps w (exec_task t w)"
  by (cases t) (simp_all add: keeping)

lemma run_deferred_keeps [keeping]: "keeps w (run_deferred now p r w)"
  unfolding run_deferred_def by (rule keeps_frame [OF _ response_callback_keeps]) simp

section \<open>Every reachable state\<close>

lemma step_typed:
  assumes "server_step app s (Inr s')" and "contexts_ok (fst s)"
  shows "contexts_ok (fst s')"
proof -
  have k: "contexts_ok (fst s')" if "Inr s' = and_then m (\<lambda>v. Inr (v, ph))" "keeps w m" "contexts_ok w"
    for w m and ph :: "nat \<Rightarrow> phase"
    using that by (cases m) (auto simp: keeps_def)
  have loop: "contexts_ok (on_loop i f w) = contexts_ok w" for i f w by (simp add: contexts_ok_def on_loop_def)
  show ?thesis
    using assms
    by cases (auto simp: outcome_def loop
        intro: k [OF _ handle_io_keeps] k [OF _ exec_task_keeps] k [OF _ run_deferred_keeps])
qed

lemma reachable_typed: "server_reachable app w s \<Longrightarrow> contexts_ok w \<Longrightarrow> contexts_ok (fst s)"
  by (induction rule: server_reachable.induct) (auto dest: step_typed)

lemma make_loops_conns: "make_loops k wfd w = Inr w' \<Longrightarrow> conns w' = conns w"
  by (induction k arbitrary: w') (auto simp: and_then_Inr_iff on_loop_def)

lemma start_pb_conns: "start_pb wfd w = Inr w' \<Longrightarrow> conns w' = conns w"
  by (auto simp: start_pb_def and_then_Inr_iff start_server_def Let_def dest: make_loops_conns split: if_splits)

text \<open>C19. In every reachable state of a configured and started server a context belongs to the
  class of the protocol at its connection's index, and printing it does not fault.\<close>

lemma contexts_typed:
  assumes "new_pb_world wfd lfd = Inr w0" and "start_pb wfds (configured n rt wt ps svcs w0) = Inr w"
    and "server_reachable app w s" and "conns (fst s) p = Some c" and "ctx c = Some x"
  shows "proto_idx c < length (protocols (fst s)) \<and> proto_owner x = protocols (fst s) ! proto_idx c \<and>
    (\<exists>str. print_ctx (rbuf c) x = Inr str)"
proof -
  have "conns w0 = Map.empty" using assms(1) by (auto simp: new_pb_world_def and_then_Inr_iff)
  with start_pb_conns [OF assms(2)] have "contexts_ok w" by (simp add: contexts_ok_def configured_frame)
  from contexts_okD [OF reachable_typed [OF assms(3) this] assms(4)] assms(5) show ?thesis
    using shown_prints by (simp add: typed_at_def)
qed

end
