(* ===== verification/Server_Calls.thy ===== *)
theory Server_Calls
  imports Server_Safety
begin

text \<open>
  What the server does with a call: a request whose bytes have arrived is answered with the
  response of the application, a request it cannot serve closes the connection, and after
  the response the connection is closed or ready for the next request.
\<close>

section \<open>A connection that waits for a request\<close>

definition awaiting :: "conn \<Rightarrow> bool" where
  "awaiting c \<longleftrightarrow> event c = EPOLLIN \<and> sevent c = EPOLLIN \<and> ctx c = None \<and> buf_ok (rbuf c) \<and>
     pack_room (wbuf c) [] []"

text \<open>The request is complete: its bytes are unread, and one of the protocols the connection
  has not ruled out, number \<open>j\<close>, is the first that packed it so.\<close>

definition request_arrived ::
  "world \<Rightarrow> conn \<Rightarrow> nat \<Rightarrow> protocol \<Rightarrow> conn_type \<Rightarrow> string \<Rightarrow> string \<Rightarrow> byte list \<Rightarrow> bool"
where
  "request_arrived w c j pr ct svc mth pl \<longleftrightarrow>
     unread (rbuf c) = request_wire pr ct svc mth pl \<and> path_ok pr svc mth \<and> message_fits svc mth pl \<and>
     proto_idx c \<le> j \<and> j < length (protocols w) \<and> protocols w ! j = pr \<and>
     (\<forall>k \<in> {proto_idx c..<j}. protocols w ! k \<noteq> pr)"

text \<open>The state of the connection when \<^verbatim>\<open>request_callback\<close> is called.\<close>

lemma request_parsed:
  assumes o: "own e p c w" and a: "awaiting c" and r: "request_arrived w c j pr ct svc mth pl"
  shows "\<exists>x b. data_read_callback app now p w =
      request_callback app now p (put_conn p (c\<lparr>proto_idx := j, ctx := Some x, rbuf := b\<rparr>) w) \<and>
    own e p (c\<lparr>proto_idx := j, ctx := Some x, rbuf := b\<rparr>)
      (put_conn p (c\<lparr>proto_idx := j, ctx := Some x, rbuf := b\<rparr>) w) \<and>
    proto_owner x = pr \<and> conn_type (base_of x) = seen_type pr ConnType_Short ct \<and>
    service (base_of x) = svc \<and> method_name (base_of x) = mth \<and>
    view_str b (payload_view (base_of x)) = Inr pl \<and> buf_ok b \<and> data b = data (rbuf c)"
proof -
  have c: "conns w p = Some c" "conn_state c" using o by (simp_all add: own_def)
  have "buf_ok (rbuf c)" using a by (simp add: awaiting_def)
  moreover note r' = r [unfolded request_arrived_def]
  ultimately obtain x b where d: "dispatch protocol_parse (protocols w) (proto_idx c) None (rbuf c) =
      Inr (j, Some ParseProtocol_Success, Some x, b)"
    and x: "proto_owner x = pr" "conn_type (base_of x) = seen_type pr ConnType_Short ct"
      "service (base_of x) = svc" "method_name (base_of x) = mth"
      "view_str b (payload_view (base_of x)) = Inr pl" "buf_ok b" "data b = data (rbuf c)"
    using request_dispatched [of "rbuf c" pr ct svc mth pl "proto_idx c" j "protocols w"] by auto
  let ?d = "c\<lparr>proto_idx := j, ctx := Some x, rbuf := b\<rparr>"
  have "data_read_callback app now p w = request_callback app now p (put_conn p ?d w)"
    using c(1) a d r' by (simp add: data_read_callback_def awaiting_def)
  moreover have "conn_state ?d" using c(2) a by (simp add: conn_state_def awaiting_def)
  then have "own e p ?d (put_conn p ?d w)" using own_put [OF o] by (simp add: same_reg_def)
  ultimately show ?thesis using x by blast
qed

section \<open>Serving it\<close>

lemma call_served:
  assumes o: "own e p c w" and a: "awaiting c" and r: "request_arrived w c j pr ct svc mth pl"
    and s: "find_service_method svc mth w = Some (s, m)" "app s m pl = Replies (Some out)"
    and out: "length out < 2 ^ 31"
  shows "\<exists>w' d. data_read_callback app now p w = Inr w' \<and> world_inv w' \<and> conns w' p = Some d \<and>
    event d = EPOLLOUT \<and> buf_ok (wbuf d) \<and>
    unread (wbuf d) @ extra_left (wbuf d) =
      response_wire pr (seen_type pr ConnType_Short ct) RpcStatus_OK out \<and>
    fd d = fd c \<and> el d = el c \<and> proto_idx d = j \<and> same_rest w w' \<and> buf_ok (rbuf d) \<and>
    data (rbuf d) = data (rbuf c) \<and>
    pack_room (clear (wbuf d)) [] [] \<and>
    (\<exists>x. ctx d = Some x \<and> conn_type (base_of x) = seen_type pr ConnType_Short ct) \<and>
    (\<exists>i. el d = Some i \<and> UpdateChannel i p \<in> set (funcs (loops w' i)))"
proof -
  from request_parsed [OF o a r, of app now] obtain x b where
    run: "data_read_callback app now p w =
      request_callback app now p (put_conn p (c\<lparr>proto_idx := j, ctx := Some x, rbuf := b\<rparr>) w)"
    and o1: "own e p (c\<lparr>proto_idx := j, ctx := Some x, rbuf := b\<rparr>)
      (put_conn p (c\<lparr>proto_idx := j, ctx := Some x, rbuf := b\<rparr>) w)"
    and x: "proto_owner x = pr" "conn_type (base_of x) = seen_type pr ConnType_Short ct"
      "service (base_of x) = svc" "method_name (base_of x) = mth"
      "view_str b (payload_view (base_of x)) = Inr pl"
    and bok: "buf_ok b" "data b = data (rbuf c)"
    by blast
  let ?c1 = "c\<lparr>proto_idx := j, ctx := Some x, rbuf := b\<rparr>"
  let ?w1 = "put_conn p ?c1 w"
  let ?x = "on_base (\<lambda>b. b\<lparr>rpc_status := Some RpcStatus_OK, payload := out\<rparr>) x"
  have room: "pack_room (wbuf c) [] []" using a by (simp add: awaiting_def)
  from ctx_pack_response_ok [OF room, of ?x RpcStatus_OK] out x obtain wb where
    wb: "ctx_pack_response ?x (wbuf c) = Inr (True, wb)" "buf_ok wb"
      "unread wb @ extra_left wb = response_wire pr (seen_type pr ConnType_Short ct) RpcStatus_OK out"
    by auto
  have room': "pack_room (clear wb) [] []" using ctx_pack_response_room [OF wb(1) room] out by simp
  let ?c2 = "?c1\<lparr>ctx := Some ?x, wbuf := wb\<rparr>"
  let ?w2 = "put_conn p ?c2 ?w1"
  have "conn_state ?c1" using o1 by (simp add: own_def)
  then have "conn_state ?c2" by (auto simp: conn_state_def)
  then have o2: "own e p ?c2 ?w2" using own_put [OF o1, of ?c2] by (simp add: same_reg_def)
  have "ctx ?c2 \<noteq> None" by simp
  from arm_write_ok [OF o2 this, of now] obtain w' d where arm: "arm_write now p ?w2 = Inr w'"
    "handled e p ?w2 w'" "conns w' p = Some d" "event d = EPOLLOUT" "wbuf d = wbuf ?c2" "ctx d = ctx ?c2"
    "rbuf d = rbuf ?c2" "fd d = fd ?c2" "el d = el ?c2" "proto_idx d = proto_idx ?c2" "same_rest ?w2 w'"
    "\<exists>i. el d = Some i \<and> UpdateChannel i p \<in> set (funcs (loops w' i))"
    by blast
  then have w': "arm_write now p ?w2 = Inr w'" "handled e p ?w2 w'" "conns w' p = Some d" "event d = EPOLLOUT"
      "wbuf d = wb" "\<exists>i. el d = Some i \<and> UpdateChannel i p \<in> set (funcs (loops w' i))"
      "ctx d = Some ?x" "rbuf d = b" "fd d = fd c" "el d = el c" "proto_idx d = j" "same_rest w w'" by simp_all
  have fsm: "find_service_method svc mth ?w1 = Some (s, m)"
    using s(1) by (simp add: find_service_method_def)
  have "data_read_callback app now p w = Inr w'"
    using run wb(1) w'(1) fsm s(2) x
    by (simp add: request_callback_def response_callback_def Let_def)
  moreover have "world_inv w'" using w'(2) by (simp add: handled_def)
  moreover have "conn_type (base_of ?x) = seen_type pr ConnType_Short ct" using x(2) by simp
  ultimately show ?thesis using w' wb room' bok by auto
qed

section \<open>Requests that cannot be served\<close>

text \<open>The connection is closed when the service or the method is unknown, or when the message
  does not parse.\<close>

text \<open>C29. A request for a service or method that is not registered, or whose body the
  application cannot parse, closes and frees the connection.\<close>

lemma call_refused:
  assumes o: "own e p c w" and a: "awaiting c" and r: "request_arrived w c j pr ct svc mth pl"
    and s: "find_service_method svc mth w = None \<or>
      (\<exists>s m. find_service_method svc mth w = Some (s, m) \<and> app s m pl = ParseFails)"
  shows "\<exists>w'. data_read_callback app now p w = Inr w' \<and> world_inv w' \<and>
    conns w' = (conns w)(p := None) \<and> fd c \<notin> open_fds w'"
proof -
  from request_parsed [OF o a r, of app now] obtain x b where
    run: "data_read_callback app now p w =
      request_callback app now p (put_conn p (c\<lparr>proto_idx := j, ctx := Some x, rbuf := b\<rparr>) w)"
    and o1: "own e p (c\<lparr>proto_idx := j, ctx := Some x, rbuf := b\<rparr>)
      (put_conn p (c\<lparr>proto_idx := j, ctx := Some x, rbuf := b\<rparr>) w)"
    and x: "service (base_of x) = svc" "method_name (base_of x) = mth"
      "view_str b (payload_view (base_of x)) = Inr pl"
    by blast
  let ?c1 = "c\<lparr>proto_idx := j, ctx := Some x, rbuf := b\<rparr>"
  let ?w1 = "put_conn p ?c1 w"
  have w1: "world_reg ?w1" "conns ?w1 p = Some ?c1" using o1 by (simp_all add: own_def)
  from close_callback_ok [OF w1] obtain w' where w': "close_callback p ?w1 = Inr w'" "world_reg w'"
    "conns w' = (conns ?w1)(p := None)" "fd ?c1 \<notin> open_fds w'" by blast
  have same: "find_service_method svc mth ?w1 = find_service_method svc mth w"
    by (simp add: find_service_method_def)
  have "request_callback app now p ?w1 = close_callback p ?w1"
    using s x same by (auto simp: request_callback_def)
  moreover have "world_inv w'" using w'(2,3) o by (auto simp: world_inv_def own_def split: if_splits)
  ultimately show ?thesis using run w' by auto
qed

text \<open>Input that no registered protocol claims closes and frees the connection.\<close>

lemma unknown_closed:
  assumes o: "own e p c w" and a: "awaiting c" and z: "proto_idx c = 0"
    and u: "\<forall>pr \<in> set (protocols w). proto_need pr \<le> length (unread (rbuf c)) \<and>
      \<not> proto_claims pr (unread (rbuf c))"
  shows "\<exists>w'. data_read_callback app now p w = Inr w' \<and> world_inv w' \<and>
    conns w' = (conns w)(p := None) \<and> fd c \<notin> open_fds w'"
proof -
  have ok: "buf_ok (rbuf c)" "ctx c = None" using a by (simp_all add: awaiting_def)
  have c: "conns w p = Some c" "conn_state c" using o by (simp_all add: own_def)
  note d = family.none_claims [OF ok(1) u]
  let ?c1 = "c\<lparr>proto_idx := length (protocols w), ctx := None, rbuf := rbuf c\<rparr>"
  let ?w1 = "put_conn p ?c1 w"
  have "world_reg ?w1"
    using o by (intro world_reg_put [of w p c]) (auto simp: own_def same_reg_def)
  from close_callback_ok [OF this, of p ?c1] obtain w' where w': "close_callback p ?w1 = Inr w'"
    "world_reg w'" "conns w' = (conns ?w1)(p := None)" "fd ?c1 \<notin> open_fds w'" by auto
  have "data_read_callback app now p w = conn_close p ?w1"
    using c(1) z ok(2) d by (simp add: data_read_callback_def Let_def)
  also have "\<dots> = close_callback p ?w1" using c(2) by (simp add: conn_close_def conn_state_def)
  finally have "data_read_callback app now p w = Inr w'" using w'(1) by simp
  moreover have "world_inv w'" using w'(2,3) o by (auto simp: world_inv_def own_def split: if_splits)
  ultimately show ?thesis using w' by auto
qed

text \<open>Too few bytes to tell change nothing but the protocols ruled out.\<close>

text \<open>Input too short for a protocol to decide waits at that protocol and changes nothing
  else.\<close>

lemma short_waits:
  assumes o: "own e p c w" and a: "awaiting c" and z: "proto_idx c = 0"
    and j: "j < length (protocols w)" "length (unread (rbuf c)) < proto_need (protocols w ! j)"
    and before: "\<forall>k < j. proto_need (protocols w ! k) \<le> length (unread (rbuf c)) \<and>
      \<not> proto_claims (protocols w ! k) (unread (rbuf c))"
  shows "data_read_callback app now p w = Inr (put_conn p (c\<lparr>proto_idx := j\<rparr>) w) \<and>
    awaiting (c\<lparr>proto_idx := j\<rparr>)"
proof -
  have ok: "buf_ok (rbuf c)" "ctx c = None" using a by (simp_all add: awaiting_def)
  have c: "conns w p = Some c" using o by (simp add: own_def)
  have same: "c\<lparr>proto_idx := j, ctx := None\<rparr> = c\<lparr>proto_idx := j\<rparr>"
    using ok(2) by (cases c) simp
  with family.waits [OF ok(1) j(1) before j(2)] c z ok(2) j(1)
  have "data_read_callback app now p w = Inr (put_conn p (c\<lparr>proto_idx := j\<rparr>) w)"
    by (simp add: data_read_callback_def Let_def same)
  then show ?thesis using a by (simp add: awaiting_def)
qed

section \<open>After the response\<close>

lemma write_complete_short:
  assumes o: "own e p c w" and x: "ctx c = Some x" "conn_type (base_of x) = ConnType_Short"
  shows "\<exists>w'. write_complete_callback now p w = Inr w' \<and> world_inv w' \<and>
    conns w' = (conns w)(p := None) \<and> fd c \<notin> open_fds w'"
proof -
  let ?c1 = "c\<lparr>ctx := None, rbuf := clear (rbuf c), wbuf := clear (wbuf c)\<rparr>"
  let ?w1 = "put_conn p ?c1 w"
  have "world_reg ?w1"
    using o by (intro world_reg_put [of w p c]) (auto simp: own_def same_reg_def)
  from close_callback_ok [OF this, of p ?c1] obtain w' where w': "close_callback p ?w1 = Inr w'"
    "world_reg w'" "conns w' = (conns ?w1)(p := None)" "fd ?c1 \<notin> open_fds w'" by auto
  have "write_complete_callback now p w = Inr w'"
    using o x w'(1) by (simp add: write_complete_callback_def own_def)
  moreover have "world_inv w'" using w'(2,3) o by (auto simp: world_inv_def own_def split: if_splits)
  ultimately show ?thesis using w' by auto
qed

text \<open>A connection that is kept waits for the next request with empty buffers: whatever the
  read buffer still held, a further request among it, is dropped.\<close>

lemma write_complete_kept:
  assumes o: "own e p c w" and x: "ctx c = Some x" "conn_type (base_of x) \<noteq> ConnType_Short"
    and b: "buf_ok (rbuf c)" "pack_room (clear (wbuf c)) [] []"
  shows "\<exists>w' d i. write_complete_callback now p w = Inr w' \<and> conns w' p = Some d \<and> awaiting d \<and>
    own e p d w' \<and> fd d = fd c \<and> unread (rbuf d) = [] \<and> proto_idx d = proto_idx c \<and>
    rbuf d = clear (rbuf c) \<and>
    el d = Some i \<and> interests (loops w' i) (fd d) = Some (EPOLLIN, ConnPtr p)"
proof -
  define c1 where "c1 = c\<lparr>ctx := None, rbuf := clear (rbuf c), wbuf := clear (wbuf c)\<rparr>"
  define w1 where "w1 = put_conn p c1 w"
  have w: "world_reg w" "conns w p = Some c" using o by (simp_all add: own_def)
  have reg1: "world_reg w1"
    unfolding w1_def by (rule world_reg_put [OF w]) (simp add: same_reg_def c1_def)
  have c1: "conns w1 p = Some c1" by (simp add: w1_def)
  define w2 where "w2 = put_conn p (c1\<lparr>event := EPOLLIN\<rparr>) w1"
  note e = set_event_ok [OF reg1 c1, of EPOLLIN, folded w2_def]
  have c2: "conns w2 p = Some (c1\<lparr>event := EPOLLIN\<rparr>)" by (simp add: w2_def)
  from world_regD [OF e(2) c2] obtain i where i: "el (c1\<lparr>event := EPOLLIN\<rparr>) = Some i" .
  define c3 where "c3 = c1\<lparr>event := EPOLLIN, sevent := EPOLLIN\<rparr>"
  from update_on_loop_ok(2,3) [OF e(2) c2 i] obtain w3 where w3: "update_conn p w2 = Inr w3"
    "world_reg w3" "conns w3 = (conns w2)(p \<mapsto> c3)"
    by (simp add: c3_def)
  have c3: "conns w3 p = Some c3" using w3(3) by simp
  from start_timer_ok [OF w3(2) c3, of now "read_timeout_ms w3" True] obtain w4 where w4:
    "start_timer p now (read_timeout_ms w3) True w3 = Inr w4" "world_reg w4"
    "conns w4 = (conns w3)(p \<mapsto> bump_timer c3)" by blast
  define w' where "w' = (if read_timeout_ms w3 > 0 then w4 else w3)"
  define d where "d = (if read_timeout_ms w3 > 0 then bump_timer c3 else c3)"
  have run: "write_complete_callback now p w = Inr w'"
    using w(2) x e(1) w3(1) w4(1)
    by (simp add: write_complete_callback_def Let_def w'_def flip: c1_def) (simp flip: w1_def)
  have d: "conns w' p = Some d" "world_reg w'" using w3 w4 by (simp_all add: w'_def d_def)
  have frame: "conns w' q = conns w q" if "q \<noteq> p" for q
    using that w3(3) w4(3) by (simp add: w'_def w2_def w1_def)
  have f: "event d = EPOLLIN" "sevent d = EPOLLIN" "ctx d = None" "rbuf d = clear (rbuf c)"
    "wbuf d = clear (wbuf c)" "proto_idx d = proto_idx c"
    by (simp_all add: d_def c3_def c1_def bump_timer_def)
  from world_regD [OF d(2,1)] obtain k where k: "el d = Some k"
    "registered (ConnPtr p) d (interests (loops w' k))" .
  then have "interests (loops w' k) (fd d) = Some (EPOLLIN, ConnPtr p)"
    using f(2) by (simp add: registered_def registration_def)
  moreover have "awaiting d" using f b clear_ok [OF b(1)] by (simp add: awaiting_def)
  moreover have "conn_state d" "el d = el c" "fd d = fd c"
    using o by (simp_all add: d_def c3_def c1_def conn_state_def own_def bump_timer_def)
  then have "own e p d w'" "fd d = fd c" using o d frame unfolding own_def by simp_all
  moreover have "unread (rbuf d) = []" using f(4) clear_ok [OF b(1)] by simp
  moreover note f(4)
  ultimately show ?thesis using run d(1) k(1) f(6) by blast
qed

section \<open>Time limits\<close>

text \<open>A time limit closes its connection when it is the latest one set, and does nothing when
  another one was set since, or when the connection is gone, even if another object is now at
  its address.\<close>

lemma timeout_fires:
  assumes w: "world_inv w" and c: "conns w p = Some c" "el c = Some i"
  shows "\<exists>w'. timeout_callback i p (conn_ts c) (timer_id c) r w = Inr w' \<and> world_inv w' \<and>
    conns w' = (conns w)(p := None) \<and> fd c \<notin> open_fds w'"
proof -
  have reg: "world_reg w" using w by (simp add: world_inv_def)
  from close_callback_ok [OF reg c(1)] obtain w' where w': "close_callback p w = Inr w'"
    "world_reg w'" "conns w' = (conns w)(p := None)" "fd c \<notin> open_fds w'" by blast
  have "channels (loops w i) p = Some (conn_ts c)" using world_regD [OF reg c(1)] c(2) by auto
  then have "timeout_callback i p (conn_ts c) (timer_id c) r w = Inr w'"
    using c(1) w'(1) by (simp add: timeout_callback_def)
  then show ?thesis using w' w by (simp add: world_inv_def)
qed

lemma timeout_stale:
  assumes w: "world_inv w"
    and s: "conns w p = None \<or> (\<exists>c. conns w p = Some c \<and> (conn_ts c \<noteq> t \<or> timer_id c \<noteq> tid))"
  shows "timeout_callback i p t tid r w = Inr w"
proof (cases "channels (loops w i) p = Some t")
  case True
  have reg: "world_reg w" using w by (simp add: world_inv_def)
  from world_reg_channel [OF reg True] s obtain c where "conns w p = Some c" "timer_id c \<noteq> tid" by auto
  with True show ?thesis by (simp add: timeout_callback_def)
qed (simp add: timeout_callback_def)

text \<open>A new limit gives the old ones a different number.\<close>

lemma bump_changes: "- (2 ^ 31) \<le> timer_id c \<Longrightarrow> timer_id c < 2 ^ 31 \<Longrightarrow> timer_id (bump_timer c) \<noteq> timer_id c"
  by (cases "timer_id c = 2 ^ 31 - 1") (auto simp: to_int32_def bump_timer_def)

section \<open>An application that answers later\<close>

text \<open>
  The connection of a call whose \<^verbatim>\<open>done\<close> is still to be run is not kept: when the peer closes it
  meanwhile, \<^verbatim>\<open>done\<close> writes into the deleted object.
\<close>

text \<open>C30. When the peer closes the connection before a deferred done runs, the done touches
  the freed connection.\<close>

lemma done_after_close:
  assumes w: "world_inv w" and c: "conns w p = Some c"
    and b: "buf_ok (rbuf c)" "0 < length (data (rbuf c))" "2 * length (data (rbuf c)) \<le> max_object"
  shows "\<exists>w'. conn_handle_events app now p EPOLLIN (Pending []) wa1 wa2 w = Inr w' \<and> world_inv w' \<and>
    conns w' p = None \<and> run_deferred later p (Some out) w' = Inl UseAfterFree"
proof -
  obtain n rb where "read_fd (Pending []) (rbuf c) = Inr (int n, rb)" "n \<le> length ([] :: byte list)"
    using read_fd_ok [OF b, of "[]"] by blast
  then have rb: "read_fd (Pending []) (rbuf c) = Inr (0, rb)" by simp
  have reg: "world_reg w" and states: "\<And>q d. conns w q = Some d \<Longrightarrow> conn_state d"
    using w unfolding world_inv_def by blast+
  have "close_cb c = Some CloseCb" using states [OF c] by (simp add: conn_state_def)
  then have ev: "tcp_handle_events EPOLLIN (Pending []) wa1 wa2 c = Inr (c\<lparr>rbuf := rb\<rparr>, [], Some CloseCb)"
    using rb by (simp add: tcp_handle_events_def)
  let ?w = "put_conn p (c\<lparr>rbuf := rb\<rparr>) (send_bytes (fd c) [] w)"
  have "world_reg (send_bytes (fd c) [] w)"
    using reg by (rule world_reg_same) (simp add: same_registry_def)
  then have reg': "world_reg ?w" by (rule world_reg_put [where c = c]) (simp_all add: c same_reg_def)
  have "conns ?w p = Some (c\<lparr>rbuf := rb\<rparr>)" by simp
  from close_callback_ok [OF reg' this] obtain w' where w':
    "close_callback p ?w = Inr w'" "world_reg w'" "conns w' = (conns ?w)(p := None)" by blast
  have "conn_handle_events app now p EPOLLIN (Pending []) wa1 wa2 w = Inr w'"
    using c ev w'(1) by (simp add: conn_handle_events_def run_callback_def)
  moreover have "conn_state d" if "conns w' q = Some d" for q d
    using that states [of q d] w'(3) by (cases "q = p") simp_all
  then have "world_inv w'" using w'(2) unfolding world_inv_def by blast
  moreover have "conns w' p = None" using w'(3) by simp
  ultimately show ?thesis by (simp add: run_deferred_def response_callback_def get_conn_def)
qed

section \<open>Protocols and services\<close>

lemma add_methods_ok:
  "distinct (map fst mds) \<Longrightarrow> dom ms \<inter> fst ` set mds = {} \<Longrightarrow>
    add_methods mds ms = (True, ms ++ map_of mds)"
proof (induction mds ms rule: add_methods.induct)
  case (2 n d rest ms)
  have new: "ms n = None" "map_of rest n = None" using 2(2,3) by (auto simp: map_of_eq_None_iff)
  have dist: "distinct (map fst rest)" "dom (ms(n \<mapsto> d)) \<inter> fst ` set rest = {}"
    using 2(2,3) by auto
  have "add_methods rest (ms(n \<mapsto> d)) = (True, ms(n \<mapsto> d) ++ map_of rest)"
    by (rule 2(1) [OF _ dist]) (simp add: new)
  moreover have "ms(n \<mapsto> d) ++ map_of rest = ms ++ (map_of rest)(n \<mapsto> d)"
    using new(2) by (simp add: fun_eq_iff map_add_def split: option.split)
  moreover have "map_of ((n, d) # rest) = (map_of rest)(n \<mapsto> d)" by (simp add: fun_upd_def)
  ultimately show ?case using new(1) by (simp only: add_methods.simps not_True_eq_False if_False simp_thms)
qed simp

text \<open>A new service is found by name with each of its methods, and other services are
  found as before.\<close>

lemma add_service_ok:
  assumes "services s name = None" and "distinct (map fst mds)"
  shows "\<exists>s'. add_service svc name mds s = (True, s') \<and>
    find_service_method name m s' = map_option (Pair svc) (map_of mds m) \<and>
    (\<forall>n. n \<noteq> name \<longrightarrow> find_service_method n m s' = find_service_method n m s)"
  using assms add_methods_ok [of mds Map.empty]
  by (simp add: add_service_def find_service_method_def map_option_case)

lemma add_service_taken: "services s name \<noteq> None \<Longrightarrow> add_service svc name mds s = (False, s)"
  by (simp add: add_service_def)

text \<open>A protocol is registered once, in the order of the first registrations.\<close>

definition registry_ok :: "'s pb_server_scheme \<Rightarrow> bool" where
  "registry_ok s \<longleftrightarrow> distinct (protocols s) \<and>
     (\<forall>n p. name2protocols s n = Some p \<longleftrightarrow> p \<in> set (protocols s) \<and> proto_name p = n)"

lemma proto_name_inj: "proto_name p = proto_name q \<Longrightarrow> p = q"
  by (cases p; cases q) simp_all

lemma add_protocol_ok:
  assumes "registry_ok s"
  shows "\<exists>s'. add_protocol p s = (p \<notin> set (protocols s), s') \<and> registry_ok s' \<and>
    protocols s' = (if p \<in> set (protocols s) then protocols s else protocols s @ [p])"
proof (cases "p \<in> set (protocols s)")
  case True
  with assms have "name2protocols s (proto_name p) = Some p" by (simp add: registry_ok_def)
  with True assms show ?thesis by (simp add: add_protocol_def)
next
  case False
  have "name2protocols s (proto_name p) = None"
  proof (cases "name2protocols s (proto_name p)")
    case (Some q)
    with assms have "q \<in> set (protocols s)" "proto_name q = proto_name p" by (simp_all add: registry_ok_def)
    with proto_name_inj False show ?thesis by metis
  qed simp
  with False assms proto_name_inj show ?thesis
    by (auto simp: add_protocol_def registry_ok_def)
qed

end
