(* ===== verification/Server_IO.thy ===== *)
theory Server_IO
  imports Server_Calls
begin

text \<open>
  A call as the sockets see it: the events of the kernel that bring a request in and take the
  response out, with the bytes that go over the wire.
\<close>

section \<open>The request comes in\<close>

lemma own_send: "own e p c w \<Longrightarrow> own e p c (send_bytes f bs w)"
  unfolding own_def
  by (auto intro!: world_reg_same [of w "send_bytes f bs w"] simp: same_registry_def)

lemma send_nothing [simp]: "send_bytes f [] w = w"
  by (simp add: send_bytes_def)

lemma receive_ok:
  assumes o: "own e p c w" and a: "awaiting c" and r: "unread (rbuf c) = []"
    and bs: "bs \<noteq> []" "length bs \<le> writeable (rbuf c)"
  shows "\<exists>b. conn_handle_events app now p EPOLLIN (Pending bs) wa1 wa2 w =
      data_read_callback app now p (put_conn p (c\<lparr>rbuf := b\<rparr>) w) \<and>
    own e p (c\<lparr>rbuf := b\<rparr>) (put_conn p (c\<lparr>rbuf := b\<rparr>) w) \<and> awaiting (c\<lparr>rbuf := b\<rparr>) \<and> unread b = bs \<and>
    length (data b) = length (data (rbuf c))"
proof -
  have c: "conns w p = Some c" "conn_state c" using o by (simp_all add: own_def)
  have "buf_ok (rbuf c)" using a by (simp add: awaiting_def)
  from read_fd_fits [OF this bs] r obtain b where b: "read_fd (Pending bs) (rbuf c) = Inr (int (length bs), b)"
    "buf_ok b" "unread b = bs" "length (data b) = length (data (rbuf c))" by auto
  have "tcp_handle_events EPOLLIN (Pending bs) wa1 wa2 c = Inr (c\<lparr>rbuf := b\<rparr>, [], Some DataReadCb)"
    using b(1) bs(1) c(2) by (simp add: tcp_handle_events_def conn_state_def)
  then have "conn_handle_events app now p EPOLLIN (Pending bs) wa1 wa2 w =
      data_read_callback app now p (put_conn p (c\<lparr>rbuf := b\<rparr>) w)"
    using c(1) by (simp add: conn_handle_events_def run_callback_def)
  moreover have "own e p (c\<lparr>rbuf := b\<rparr>) (put_conn p (c\<lparr>rbuf := b\<rparr>) w)"
    using own_put [OF o, of "c\<lparr>rbuf := b\<rparr>"] c(2) by (simp add: same_reg_def conn_state_def)
  moreover have "awaiting (c\<lparr>rbuf := b\<rparr>)" using a b(2) by (simp add: awaiting_def)
  ultimately show ?thesis using b(3,4) by blast
qed

section \<open>The response goes out\<close>

text \<open>The queued \<^verbatim>\<open>update_channel\<close> asks the kernel to report when the socket takes bytes.\<close>

lemma armed_ok:
  assumes w: "world_inv w" and c: "conns w p = Some c" "event c = EPOLLOUT" and i: "el c = Some i"
  shows "\<exists>w'. exec_task (UpdateChannel i p) w = Inr w' \<and> own (Some i) p (c\<lparr>sevent := EPOLLOUT\<rparr>) w' \<and>
    same_rest w w'"
proof -
  have o: "own (Some i) p c w" using own_inv [OF w c(1)] i by simp
  from update_task_handled [OF o i] obtain w' where w': "update_on_loop i p w = Inr w'" "world_inv w'"
    "conns w' = (conns w)(p \<mapsto> c\<lparr>sevent := event c\<rparr>)" by blast
  have "conns w' p = Some (c\<lparr>sevent := EPOLLOUT\<rparr>)" using w'(3) c(2) by simp
  from own_inv [OF w'(2) this] have "own (Some i) p (c\<lparr>sevent := EPOLLOUT\<rparr>) w'" using i by simp
  moreover have "same_rest w w'" by (rule rest_update_on_loop [OF w'(1)])
  ultimately show ?thesis using w'(1) by auto
qed

text \<open>Whatever the kernel takes of the payload, the connection is done with the call as soon as it
  has taken the head of the response.\<close>

lemma respond_ok:
  assumes o: "own e p c w" and c: "buf_ok (wbuf c)" and k: "readable (wbuf c) \<le> k"
  shows "\<exists>b. conn_handle_events app now p EPOLLOUT ra (Room k) (Room j) w =
      write_complete_callback now p (put_conn p (c\<lparr>wbuf := b\<rparr>)
        (send_bytes (fd c) (unread (wbuf c) @ take j (extra_left (wbuf c))) w)) \<and>
    own e p (c\<lparr>wbuf := b\<rparr>) (put_conn p (c\<lparr>wbuf := b\<rparr>)
        (send_bytes (fd c) (unread (wbuf c) @ take j (extra_left (wbuf c))) w)) \<and> buf_ok b \<and>
    length (data b) = length (data (wbuf c))"
proof -
  have c': "conns w p = Some c" "conn_state c" using o by (simp_all add: own_def)
  from write_fd_ok [OF c k, of j] obtain n b out where b: "write_fd (Room k) (Room j) (wbuf c) = Inr (int n, b, out)"
    "buf_ok b" "out @ extra_left b = unread (wbuf c) @ extra_left (wbuf c)" "unread b = []"
    "length (extra_left b) = length (extra_left (wbuf c)) - j" by blast
  have ll: "length out + length (extra_left b) = length (unread (wbuf c)) + length (extra_left (wbuf c))"
    using arg_cong [OF b(3), of length] by simp
  have "out = take (length out) (unread (wbuf c) @ extra_left (wbuf c))"
    using arg_cong [OF b(3), of "take (length out)"] by simp
  moreover have "length out = length (unread (wbuf c)) + min j (length (extra_left (wbuf c)))"
    using ll b(5) by simp
  ultimately have out: "out = unread (wbuf c) @ take j (extra_left (wbuf c))" by (simp add: min_def)
  have "readable b = 0" using b(2,4) by (simp add: readable_unread del: length_unread)
  then have "tcp_handle_events EPOLLOUT ra (Room k) (Room j) c = Inr (c\<lparr>wbuf := b\<rparr>, out, Some WriteCompleteCb)"
    using b(1) c'(2) by (simp add: tcp_handle_events_def conn_state_def)
  moreover have "length (data b) = length (data (wbuf c))"
    using b(1) by (auto simp: write_fd_def write_extra_def and_then_Inr_iff Let_def split: if_splits)
  moreover have "own e p (c\<lparr>wbuf := b\<rparr>) (put_conn p (c\<lparr>wbuf := b\<rparr>) (send_bytes (fd c) out w))"
    using own_put [OF own_send [OF o], of "c\<lparr>wbuf := b\<rparr>"] c'(2) by (simp add: same_reg_def conn_state_def)
  ultimately show ?thesis using c'(1) b(2) by (auto simp: conn_handle_events_def run_callback_def out)
qed

lemma room_again:
  assumes "pack_room (clear a) [] []" and "buf_ok b" and "length (data b) = length (data a)"
  shows "pack_room (clear b) [] []"
  using assms by (auto simp: pack_room_def clear_def buf_ok_def)

section \<open>The whole call\<close>

text \<open>What is known of a connection after its response: it is closed, or waits for the next request,
  with room for \<open>n\<close> bytes.\<close>

definition call_over :: "conn_type \<Rightarrow> nat option \<Rightarrow> nat \<Rightarrow> int \<Rightarrow> nat \<Rightarrow> nat \<Rightarrow> world \<Rightarrow> bool" where
  "call_over t e p f j n w \<longleftrightarrow>
     (if t = ConnType_Short then world_inv w \<and> conns w p = None \<and> f \<notin> open_fds w
      else \<exists>d. own e p d w \<and> awaiting d \<and> fd d = f \<and> unread (rbuf d) = [] \<and> proto_idx d = j \<and>
        n \<le> writeable (rbuf d))"

lemma response_sent:
  assumes o: "own e p d w" and x: "ctx d = Some x" "conn_type (base_of x) = t"
    and b: "buf_ok (rbuf d)" "buf_ok (wbuf d)" "pack_room (clear (wbuf d)) [] []"
    and k: "readable (wbuf d) \<le> k"
  shows "\<exists>w'. conn_handle_events app now p EPOLLOUT ra (Room k) (Room j) w = Inr w' \<and>
    sent w' = (sent w)(fd d := sent w (fd d) @ unread (wbuf d) @ take j (extra_left (wbuf d))) \<and>
    protocols w' = protocols w \<and> services w' = services w \<and>
    call_over t e p (fd d) (proto_idx d) (length (data (rbuf d))) w'"
proof -
  let ?s = "send_bytes (fd d) (unread (wbuf d) @ take j (extra_left (wbuf d))) w"
  from respond_ok [OF o b(2) k, of app now ra j] obtain wb where
    run: "conn_handle_events app now p EPOLLOUT ra (Room k) (Room j) w =
      write_complete_callback now p (put_conn p (d\<lparr>wbuf := wb\<rparr>) ?s)"
    and o': "own e p (d\<lparr>wbuf := wb\<rparr>) (put_conn p (d\<lparr>wbuf := wb\<rparr>) ?s)"
    and wb: "buf_ok wb" "length (data wb) = length (data (wbuf d))" by blast
  have sent: "sent (put_conn p (d\<lparr>wbuf := wb\<rparr>) ?s) =
      (sent w)(fd d := sent w (fd d) @ unread (wbuf d) @ take j (extra_left (wbuf d)))"
    by (simp add: send_bytes_def)
  have rest: "protocols (put_conn p (d\<lparr>wbuf := wb\<rparr>) ?s) = protocols w"
    "services (put_conn p (d\<lparr>wbuf := wb\<rparr>) ?s) = services w" by (simp_all add: send_bytes_def)
  have x': "ctx (d\<lparr>wbuf := wb\<rparr>) = Some x" using x(1) by simp
  show ?thesis
  proof (cases "t = ConnType_Short")
    case True
    with write_complete_short [OF o' x', of now] x(2) obtain w' where w':
      "write_complete_callback now p (put_conn p (d\<lparr>wbuf := wb\<rparr>) ?s) = Inr w'" "world_inv w'"
      "conns w' p = None" "fd d \<notin> open_fds w'" by auto
    with run sent rest rest_write_complete [OF w'(1)] True show ?thesis by (auto simp: call_over_def)
  next
    case False
    have r: "buf_ok (rbuf (d\<lparr>wbuf := wb\<rparr>))" "pack_room (clear (wbuf (d\<lparr>wbuf := wb\<rparr>))) [] []"
      using b(1) room_again [OF b(3) wb] by simp_all
    from write_complete_kept [OF o' x' _ r, of now] x(2) False obtain w' c' where w':
      "write_complete_callback now p (put_conn p (d\<lparr>wbuf := wb\<rparr>) ?s) = Inr w'"
      "own e p c' w'" "awaiting c'" "fd c' = fd d" "unread (rbuf c') = []" "proto_idx c' = proto_idx d"
      "rbuf c' = clear (rbuf d)" by auto
    have "writeable (rbuf c') = length (data (rbuf d))"
      using w'(3,7) by (simp add: awaiting_def writeable_ok) (simp add: clear_def)
    with run sent rest rest_write_complete [OF w'(1)] False w'(1-6) show ?thesis by (auto simp: call_over_def)
  qed
qed

text \<open>The protocol number \<open>j\<close> is the first of those the connection has not ruled out that is \<open>pr\<close>, and
  the path and the sizes can be sent with it.\<close>

definition can_call :: "world \<Rightarrow> conn \<Rightarrow> nat \<Rightarrow> protocol \<Rightarrow> string \<Rightarrow> string \<Rightarrow> byte list \<Rightarrow> bool" where
  "can_call w c j pr svc mth pl \<longleftrightarrow> path_ok pr svc mth \<and> message_fits svc mth pl \<and>
     proto_idx c \<le> j \<and> j < length (protocols w) \<and> protocols w ! j = pr \<and>
     (\<forall>k \<in> {proto_idx c..<j}. protocols w ! k \<noteq> pr)"

lemma served_over_sockets:
  assumes o: "own e p c w" and a: "awaiting c" and r: "unread (rbuf c) = []"
    and can: "can_call w c j pr svc mth pl"
    and fits: "length (request_wire pr ct svc mth pl) \<le> writeable (rbuf c)"
    and s: "find_service_method svc mth w = Some (s, m)" "app s m pl = Replies (Some out)" "length out < 2 ^ 31"
    and k: "length (response_wire pr (seen_type pr ConnType_Short ct) RpcStatus_OK out) \<le> k"
      "length (response_wire pr (seen_type pr ConnType_Short ct) RpcStatus_OK out) \<le> n"
  shows "\<exists>i w1 w2 w3.
    conn_handle_events app now p EPOLLIN (Pending (request_wire pr ct svc mth pl)) wa1 wa2 w = Inr w1 \<and>
    e = Some i \<and> UpdateChannel i p \<in> set (funcs (loops w1 i)) \<and> exec_task (UpdateChannel i p) w1 = Inr w2 \<and>
    conn_handle_events app later p EPOLLOUT ra (Room k) (Room n) w2 = Inr w3 \<and>
    sent w3 (fd c) = sent w (fd c) @ response_wire pr (seen_type pr ConnType_Short ct) RpcStatus_OK out \<and>
    protocols w3 = protocols w \<and> services w3 = services w \<and>
    call_over (seen_type pr ConnType_Short ct) e p (fd c) j (length (data (rbuf c))) w3"
proof -
  let ?req = "request_wire pr ct svc mth pl"
  let ?t = "seen_type pr ConnType_Short ct"
  let ?resp = "response_wire pr ?t RpcStatus_OK out"
  have "?req \<noteq> []" using wire_claims(2) [of HTTPProtocol pr ct svc mth pl] by auto
  from receive_ok [OF o a r this fits, of app now wa1 wa2] obtain b where
    recv: "conn_handle_events app now p EPOLLIN (Pending ?req) wa1 wa2 w =
      data_read_callback app now p (put_conn p (c\<lparr>rbuf := b\<rparr>) w)"
    and o1: "own e p (c\<lparr>rbuf := b\<rparr>) (put_conn p (c\<lparr>rbuf := b\<rparr>) w)" and a1: "awaiting (c\<lparr>rbuf := b\<rparr>)"
    and b: "unread b = ?req" "length (data b) = length (data (rbuf c))" by blast
  have arrived: "request_arrived (put_conn p (c\<lparr>rbuf := b\<rparr>) w) (c\<lparr>rbuf := b\<rparr>) j pr ct svc mth pl"
    using can b by (simp add: request_arrived_def can_call_def)
  have "find_service_method svc mth (put_conn p (c\<lparr>rbuf := b\<rparr>) w) = Some (s, m)"
    using s(1) by (simp add: find_service_method_def)
  from call_served [where now = now and app = app, OF o1 a1 arrived this s(2,3)] obtain w1 d i x where
    w1: "data_read_callback app now p (put_conn p (c\<lparr>rbuf := b\<rparr>) w) = Inr w1" "world_inv w1"
      "conns w1 p = Some d" "event d = EPOLLOUT" "same_rest (put_conn p (c\<lparr>rbuf := b\<rparr>) w) w1"
    and d: "buf_ok (wbuf d)" "unread (wbuf d) @ extra_left (wbuf d) = ?resp" "fd d = fd (c\<lparr>rbuf := b\<rparr>)" "proto_idx d = j"
      "buf_ok (rbuf d)" "pack_room (clear (wbuf d)) [] []" "ctx d = Some x" "conn_type (base_of x) = ?t"
      "el d = Some i" "UpdateChannel i p \<in> set (funcs (loops w1 i))" "el d = el (c\<lparr>rbuf := b\<rparr>)"
      "data (rbuf d) = data (rbuf (c\<lparr>rbuf := b\<rparr>))"
    by blast
  from armed_ok [OF w1(2-4) d(9)] obtain w2 where w2: "exec_task (UpdateChannel i p) w1 = Inr w2"
    "own (Some i) p (d\<lparr>sevent := EPOLLOUT\<rparr>) w2" "same_rest w1 w2" by blast
  have len: "length (unread (wbuf d)) + length (extra_left (wbuf d)) = length ?resp"
    using arg_cong [OF d(2), of length] by simp
  then have k': "readable (wbuf (d\<lparr>sevent := EPOLLOUT\<rparr>)) \<le> k" and all: "take n (extra_left (wbuf d)) = extra_left (wbuf d)"
    using k d(1) by (simp_all add: readable_unread del: length_unread)
  from response_sent [OF w2(2) _ _ _ _ _ k', of x ?t app later ra n] d(1-8) all obtain w3 where
    w3: "conn_handle_events app later p EPOLLOUT ra (Room k) (Room n) w2 = Inr w3"
      "sent w3 (fd c) = sent w2 (fd c) @ ?resp" "protocols w3 = protocols w2" "services w3 = services w2"
      "call_over ?t (Some i) p (fd c) j (length (data (rbuf d))) w3" by auto
  have "e = Some i" using o d(9,11) by (simp add: own_def)
  then show ?thesis using recv w1 w2 w3 d(10,12) b(2) by auto
qed

end
