(* ===== verification/Pb_Client.thy ===== *)
theory Pb_Client
  imports Connections Lifetime
begin

text \<open>
  \<^verbatim>\<open>net/pb_client.h\<close>, \<^verbatim>\<open>net/pb_client.cpp\<close>: the RPC client, a connection with a protocol and the
  session of the call in progress. Without an event loop a call blocks in its two loops;
  with one it is driven by the callbacks.
\<close>

section \<open>State\<close>

datatype client_cb = ClientConnCb | ClientDataReadCb | ClientWriteCompleteCb | ClientCloseCb

text \<open>A session: \<open>response\<close> holds the bytes \<^verbatim>\<open>ParseFromString\<close> was given, \<open>done_id\<close> the number of the
  closure, \<open>None\<close> when it is null.\<close>

record session =
  response :: "byte list option"
  done_id :: "nat option"
  read_response_done :: bool

record pb_client = "client_cb tcp_connection" +
  client_protocol :: "protocol option"
  client_session :: "session option"

text \<open>The client with the queue of functions and the interest list of its loop, the bytes the
  kernel has taken, and the closures that were run, each with the response it found.\<close>

record client_world =
  client :: pb_client
  client_loop :: "unit event_loop"
  client_sent :: "byte list"
  done_runs :: "(nat \<times> byte list) list"

definition on_client :: "(pb_client \<Rightarrow> pb_client) \<Rightarrow> client_world \<Rightarrow> client_world" where
  "on_client f w = w\<lparr>client := f (client w)\<rparr>"

text \<open>
  \<^verbatim>\<open>_el->update_channel(this)\<close>. A client without a loop calls it through a null pointer: the
  member function touches the loop only when the registration has to change.
\<close>

definition client_update :: "client_world \<Rightarrow> client_world result" where
  "client_update w =
     (if el (client w) = None \<and> sevent (client w) \<noteq> event (client w) then Inl NullDeref
      else and_then (update_channel (ConnPtr 0) (client w) (interests (client_loop w))) (\<lambda>(c, k).
        Inr (w\<lparr>client := c, client_loop := (client_loop w)\<lparr>interests := k\<rparr>\<rparr>)))"

section \<open>Construction\<close>

datatype connect_answer = ConnectOk | ConnectErr errno

definition new_pb_client :: "nat option \<Rightarrow> int \<Rightarrow> timestamp \<Rightarrow> pb_client" where
  "new_pb_client e f now =
     tcp_connection.extend (new_tcp_connection f e False now)
       \<lparr>client_protocol = None, client_session = None\<rparr>"

text \<open>The constructors: \<open>addr_ok\<close> and \<open>nb\<close> say that \<^verbatim>\<open>inet_pton\<close> and \<^verbatim>\<open>set_nonblocking\<close> succeed,
  \<open>f\<close> is what \<^verbatim>\<open>socket\<close> returns and \<open>answer\<close> what \<^verbatim>\<open>connect\<close> does.\<close>

definition pb_client_connect ::
  "nat option \<Rightarrow> bool \<Rightarrow> int \<Rightarrow> bool \<Rightarrow> timestamp \<Rightarrow> connect_answer \<Rightarrow> unit event_loop \<Rightarrow> client_world result"
where
  "pb_client_connect e addr_ok f nb now answer l =
     (let w = \<lparr>client = new_pb_client e f now, client_loop = l, client_sent = [], done_runs = []\<rparr> in
      if \<not> addr_ok then Inl Aborted
      else if f = -1 then Inl Aborted
      else if e \<noteq> None then
        if \<not> nb then Inl Aborted
        else
          let w1 = on_client (\<lambda>c. c\<lparr>close_cb := Some ClientCloseCb, data_read_cb := Some ClientDataReadCb,
                write_complete_cb := Some ClientWriteCompleteCb, client_conn_cb := Some ClientConnCb\<rparr>) w
          in (case answer of
                ConnectErr err \<Rightarrow>
                  if err = EINPROGRESS then
                    Inr ((on_client (\<lambda>c. c\<lparr>event := EPOLLOUT\<rparr>) w1)
                      \<lparr>client_loop := add_func () (client_loop w1)\<rparr>)
                  else Inl Aborted
              | ConnectOk \<Rightarrow> Inr (on_client (\<lambda>c. c\<lparr>connected := True\<rparr>) w1))
      else
        (case answer of
           ConnectErr err \<Rightarrow> if err = ETIMEDOUT \<or> err = ECONNREFUSED then Inr w else Inl Aborted
         | ConnectOk \<Rightarrow> Inr (on_client (\<lambda>c. c\<lparr>connected := True\<rparr>) w)))"

definition set_protocol :: "protocol option \<Rightarrow> client_world \<Rightarrow> client_world" where
  "set_protocol p = on_client (\<lambda>c. c\<lparr>client_protocol := p\<rparr>)"

section \<open>Callbacks\<close>

text \<open>\<open>answer\<close> is the value \<^verbatim>\<open>getsockopt\<close> stores in \<^verbatim>\<open>so_error\<close>, \<open>None\<close> when it fails.\<close>

definition client_conn_callback :: "int option \<Rightarrow> client_world \<Rightarrow> client_world result" where
  "client_conn_callback answer w =
     (case answer of
        None \<Rightarrow> Inl Aborted
      | Some so_error \<Rightarrow>
          let w1 = (if so_error = 0 then on_client (\<lambda>c. c\<lparr>connected := True\<rparr>) w else w)
          in client_update (on_client (\<lambda>c. c\<lparr>event := 0\<rparr>) w1))"

definition client_close_callback :: "client_world \<Rightarrow> client_world result" where
  "client_close_callback w = client_update (on_client (\<lambda>c. c\<lparr>event := 0\<rparr>) w)"

definition client_write_complete :: "client_world \<Rightarrow> client_world result" where
  "client_write_complete w = client_update (on_client (\<lambda>c. c\<lparr>event := EPOLLIN\<rparr>) w)"

definition client_response_callback :: "client_world \<Rightarrow> client_world result" where
  "client_response_callback w =
     (case (ctx (client w), client_session (client w)) of
        (Some x, Some s) \<Rightarrow>
          and_then (view_str (rbuf (client w)) (payload_view (base_of x))) (\<lambda>str.
          let w1 = on_client (\<lambda>c. c\<lparr>client_session := Some (s\<lparr>response := Some str\<rparr>)\<rparr>) w;
              w2 = (case done_id s of
                      None \<Rightarrow> w1
                    | Some d \<Rightarrow> on_client (\<lambda>c. c\<lparr>ctx := None, client_session := None\<rparr>)
                        (w1\<lparr>done_runs := done_runs w1 @ [(d, str)]\<rparr>))
          in client_close_callback w2)
      | _ \<Rightarrow> Inl NullDeref)"

definition client_data_read :: "client_world \<Rightarrow> client_world result" where
  "client_data_read w =
     (case ctx (client w) of
        None \<Rightarrow> Inl NullDeref
      | Some x \<Rightarrow>
          and_then (ctx_parse_response x (rbuf (client w))) (\<lambda>(ret, x', b).
          let w1 = on_client (\<lambda>c. c\<lparr>ctx := Some x', rbuf := b\<rparr>) w in
          if ret = ParseProtocol_Error then Inr w1
          else if ret = ParseProtocol_Success then
            (case client_session (client w1) of
               None \<Rightarrow> Inl NullDeref
             | Some s \<Rightarrow> client_response_callback
                 (on_client (\<lambda>c. c\<lparr>client_session := Some (s\<lparr>read_response_done := True\<rparr>)\<rparr>) w1))
          else Inr w1))"

section \<open>Events\<close>

text \<open>\<^verbatim>\<open>TCPConnection::handle_events\<close> of the client, with the callbacks the constructor has set.\<close>

definition run_client_callback :: "int option \<Rightarrow> client_cb option \<Rightarrow> client_world \<Rightarrow> client_world result" where
  "run_client_callback so_error cb w =
     (case cb of
        None \<Rightarrow> Inr w
      | Some ClientConnCb \<Rightarrow> client_conn_callback so_error w
      | Some ClientDataReadCb \<Rightarrow> client_data_read w
      | Some ClientWriteCompleteCb \<Rightarrow> client_write_complete w
      | Some ClientCloseCb \<Rightarrow> client_close_callback w)"

definition client_handle_events ::
  "32 word \<Rightarrow> read_answer \<Rightarrow> write_answer \<Rightarrow> write_answer \<Rightarrow> int option \<Rightarrow> client_world \<Rightarrow> client_world result"
where
  "client_handle_events events ra wa1 wa2 so_error w =
     and_then (tcp_handle_events events ra wa1 wa2 (tcp_connection.truncate (client w))) (\<lambda>(c, out, cb).
       run_client_callback so_error cb
         ((on_client (\<lambda>d. tcp_connection.extend c (tcp_connection.more d)) w)
           \<lparr>client_sent := client_sent w @ out\<rparr>))"

section \<open>Calls\<close>

text \<open>The part of \<^verbatim>\<open>CallMethod\<close> before it splits: the buffers are cleared, a context and a session
  are made, and the request is packed. The result tells whether it went on.\<close>

definition call_setup ::
  "conn_type \<Rightarrow> string \<Rightarrow> string \<Rightarrow> byte list \<Rightarrow> nat option \<Rightarrow> client_world \<Rightarrow> (bool \<times> client_world) result"
where
  "call_setup ct svc mth serialised d w =
     (case client_protocol (client w) of
        None \<Rightarrow> Inl NullDeref
      | Some pr \<Rightarrow>
          let x = on_base (\<lambda>b. b\<lparr>conn_type := ct, service := svc, method_name := mth,
                payload := serialised\<rparr>) (new_context pr);
              w1 = on_client (\<lambda>c. c\<lparr>rbuf := clear (rbuf c), wbuf := clear (wbuf c), ctx := Some x,
                client_session := Some \<lparr>response = None, done_id = d, read_response_done = False\<rparr>\<rparr>) w
          in if length serialised > 2 ^ 32 - 1 then Inr (False, w1)
             else and_then (ctx_pack_request x (wbuf (client w1))) (\<lambda>(ok, b).
               Inr (True, on_client (\<lambda>c. c\<lparr>wbuf := b\<rparr>) w1)))"

text \<open>An asynchronous call.\<close>

definition call_async :: "client_world \<Rightarrow> client_world" where
  "call_async w =
     (on_client (\<lambda>c. c\<lparr>event := EPOLLOUT\<rparr>) w)\<lparr>client_loop := add_func () (client_loop w)\<rparr>"

text \<open>
  The two loops of a synchronous call, over the kernel's answers. \<open>None\<close> means that the loop is
  still running when the answers are used up.
\<close>

fun sync_write :: "(write_answer \<times> write_answer) list \<Rightarrow> client_world \<Rightarrow> client_world option result" where
  "sync_write answers w =
     (if readable (wbuf (client w)) \<noteq> 0 \<or> extraable (wbuf (client w)) \<noteq> 0 then
        (case answers of
           [] \<Rightarrow> Inr None
         | (a1, a2) # rest \<Rightarrow>
             and_then (write_fd a1 a2 (wbuf (client w))) (\<lambda>(n, b, out).
               sync_write rest ((on_client (\<lambda>c. c\<lparr>wbuf := b\<rparr>) w)\<lparr>client_sent := client_sent w @ out\<rparr>)))
      else Inr (Some w))"

fun sync_read :: "read_answer list \<Rightarrow> client_world \<Rightarrow> client_world option result" where
  "sync_read answers w =
     (case client_session (client w) of
        None \<Rightarrow> Inl NullDeref
      | Some s \<Rightarrow>
          if read_response_done s then Inr (Some w)
          else
            (case answers of
               [] \<Rightarrow> Inr None
             | a # rest \<Rightarrow>
                 and_then (read_fd a (rbuf (client w))) (\<lambda>(n, b).
                 and_then (client_data_read (on_client (\<lambda>c. c\<lparr>rbuf := b\<rparr>) w)) (sync_read rest))))"

text \<open>\<^verbatim>\<open>CallMethod\<close>: the response of a synchronous call is the first component.\<close>

definition call_method ::
  "conn_type \<Rightarrow> string \<Rightarrow> string \<Rightarrow> byte list \<Rightarrow> nat option \<Rightarrow> (write_answer \<times> write_answer) list \<Rightarrow>
   read_answer list \<Rightarrow> client_world \<Rightarrow> (byte list option \<times> client_world) option result"
where
  "call_method ct svc mth serialised d was ras w =
     and_then (call_setup ct svc mth serialised d w) (\<lambda>(go, w1).
     if \<not> go then Inr (Some (None, w1))
     else if d \<noteq> None \<and> el (client w1) \<noteq> None then Inr (Some (None, call_async w1))
     else
       and_then (sync_write was w1) (\<lambda>r. case r of None \<Rightarrow> Inr None | Some w2 \<Rightarrow>
       and_then (sync_read ras w2) (\<lambda>r. case r of None \<Rightarrow> Inr None | Some w3 \<Rightarrow>
         Inr (Some (case client_session (client w3) of None \<Rightarrow> None | Some s \<Rightarrow> response s,
           on_client (\<lambda>c. c\<lparr>ctx := None, client_session := None\<rparr>) w3)))))"

declare sync_write.simps [simp del] sync_read.simps [simp del]

end
