(* ===== verification/Client_Calls.thy ===== *)
theory Client_Calls
  imports Pb_Client
begin

text \<open>
  What a call of the client does: a synchronous call sends the request and returns the bytes of
  the response; an asynchronous one runs its closure once, with the response. When the peer
  closes the stream, or the socket is not connected, a synchronous call does not return.
\<close>

lemma client_frame [simp]: "client (on_client f w) = f (client w)"
  "client_loop (on_client f w) = client_loop w" "client_sent (on_client f w) = client_sent w"
  "done_runs (on_client f w) = done_runs w"
  by (simp_all add: on_client_def)

section \<open>Sending\<close>

lemma write_fd_data: "write_fd a1 a2 b = Inr (n, b', out) \<Longrightarrow> data b' = data b"
  by (auto simp: write_fd_def write_extra_def and_then_Inr_iff Let_def split: if_splits write_answer.splits)

lemma sync_write_all:
  assumes ok: "buf_ok (wbuf (client w))"
    and room: "readable (wbuf (client w)) \<le> k" "extraable (wbuf (client w)) \<le> j"
    and some: "unread (wbuf (client w)) @ extra_left (wbuf (client w)) \<noteq> []"
  shows "\<exists>b. sync_write ((Room k, Room j) # rest) w =
      Inr (Some ((on_client (\<lambda>c. c\<lparr>wbuf := b\<rparr>) w)
        \<lparr>client_sent := client_sent w @ unread (wbuf (client w)) @ extra_left (wbuf (client w))\<rparr>)) \<and>
    buf_ok b \<and> data b = data (wbuf (client w))"
proof -
  let ?b = "wbuf (client w)"
  from write_fd_ok [OF ok room(1), of j] obtain n b out where
    b: "write_fd (Room k) (Room j) ?b = Inr (int n, b, out)" "buf_ok b"
      "out @ extra_left b = unread ?b @ extra_left ?b" "unread b = []"
      "length (extra_left b) = length (extra_left ?b) - j" by blast
  have "extra_left b = []" using b(5) room(2) ok by (simp add: extraable_left)
  then have out: "out = unread ?b @ extra_left ?b" and empty: "readable b = 0" "extraable b = 0"
    using b by (simp_all add: readable_unread extraable_left)
  have busy: "readable ?b \<noteq> 0 \<or> extraable ?b \<noteq> 0"
    using some ok by (auto simp: readable_unread extraable_left simp del: length_unread)
  have last: "sync_write rest ((on_client (\<lambda>c. c\<lparr>wbuf := b\<rparr>) w)\<lparr>client_sent := s\<rparr>) =
      Inr (Some ((on_client (\<lambda>c. c\<lparr>wbuf := b\<rparr>) w)\<lparr>client_sent := s\<rparr>))" for s
    using empty by (subst sync_write.simps) (simp add: on_client_def)
  have "sync_write ((Room k, Room j) # rest) w =
      Inr (Some ((on_client (\<lambda>c. c\<lparr>wbuf := b\<rparr>) w)\<lparr>client_sent := client_sent w @ out\<rparr>))"
    by (subst sync_write.simps) (use busy b(1) last in auto)
  with b(2) write_fd_data [OF b(1)] show ?thesis unfolding out by blast
qed

text \<open>A broken socket: \<^verbatim>\<open>write_fd\<close> returns and nothing changes, so the loop goes on for ever.\<close>

lemma sync_write_spins:
  assumes "readable (wbuf (client w)) \<noteq> 0 \<or> extraable (wbuf (client w)) \<noteq> 0"
  shows "sync_write (replicate n (WriteErr EPIPE, WriteErr EPIPE)) w = Inr None"
proof (induction n)
  case 0
  then show ?case using assms by (subst sync_write.simps) simp
next
  case (Suc n)
  have "write_fd (WriteErr EPIPE) (WriteErr EPIPE) (wbuf (client w)) = Inr (0, wbuf (client w), [])"
    using assms by (auto simp: write_fd_def write_extra_def transient_def)
  moreover have same: "(on_client (\<lambda>c. c\<lparr>wbuf := wbuf (client w)\<rparr>) w)\<lparr>client_sent := client_sent w\<rparr> = w"
    by (simp add: on_client_def)
  ultimately show ?case
    using assms Suc by (subst sync_write.simps) (simp add: same)
qed

section \<open>Receiving\<close>

text \<open>A client at rest: no event asked for, none registered.\<close>

definition idle_client :: "client_world \<Rightarrow> bool" where
  "idle_client w \<longleftrightarrow> sevent (client w) = event (client w) \<and> event (client w) = 0"

lemma idle_close:
  "idle_client w \<Longrightarrow> client_close_callback w = Inr (on_client (\<lambda>c. c\<lparr>event := 0\<rparr>) w)"
  by (simp add: client_close_callback_def client_update_def idle_client_def update_channel_def on_client_def)

text \<open>When the response is complete it is handed to the caller, and the closure is run.\<close>

lemma data_read_response:
  assumes x: "ctx (client w) = Some x" "unparsed x" and s: "client_session (client w) = Some s"
    and ok: "buf_ok (rbuf (client w))"
    and u: "unread (rbuf (client w)) = response_wire (proto_owner x) ct st out" and len: "length out < 2 ^ 31"
  shows "\<exists>y b. client_data_read w = client_close_callback
    (case done_id s of
       None \<Rightarrow> on_client (\<lambda>c. c\<lparr>ctx := Some y, rbuf := b,
         client_session := Some (s\<lparr>read_response_done := True, response := Some out\<rparr>)\<rparr>) w
     | Some d \<Rightarrow> on_client (\<lambda>c. c\<lparr>rbuf := b, ctx := None, client_session := None\<rparr>)
         (w\<lparr>done_runs := done_runs w @ [(d, out)]\<rparr>)) \<and>
    buf_ok b \<and> data b = data (rbuf (client w))"
proof -
  from response_parsed [OF ok u len x(2)] obtain y b where
    p: "ctx_parse_response x (rbuf (client w)) = Inr (ParseProtocol_Success, y, b)"
      "view_str b (payload_view (base_of y)) = Inr out" "buf_ok b" "data b = data (rbuf (client w))" by blast
  have "client_data_read w = client_close_callback
    (case done_id s of
       None \<Rightarrow> on_client (\<lambda>c. c\<lparr>ctx := Some y, rbuf := b,
         client_session := Some (s\<lparr>read_response_done := True, response := Some out\<rparr>)\<rparr>) w
     | Some d \<Rightarrow> on_client (\<lambda>c. c\<lparr>rbuf := b, ctx := None, client_session := None\<rparr>)
         (w\<lparr>done_runs := done_runs w @ [(d, out)]\<rparr>))"
    using x s p
    by (cases "done_id s")
       (simp_all add: client_data_read_def client_response_callback_def Let_def on_client_def)
  with p(3,4) show ?thesis by blast
qed

lemma sync_read_response:
  assumes x: "ctx (client w) = Some x" "unparsed x"
    and s: "client_session (client w) = Some s" "\<not> read_response_done s" "done_id s = None"
    and ok: "buf_ok (rbuf (client w))" "unread (rbuf (client w)) = []" and idle: "idle_client w"
    and fits: "length (response_wire (proto_owner x) ct st out) \<le> writeable (rbuf (client w))"
    and len: "length out < 2 ^ 31"
  shows "\<exists>w'. sync_read (Pending (response_wire (proto_owner x) ct st out) # rest) w = Inr (Some w') \<and>
    client_session (client w') = Some (s\<lparr>read_response_done := True, response := Some out\<rparr>) \<and>
    client_sent w' = client_sent w \<and> idle_client w' \<and> client_protocol (client w') = client_protocol (client w) \<and>
    el (client w') = el (client w) \<and> wbuf (client w') = wbuf (client w) \<and> buf_ok (rbuf (client w')) \<and>
    length (data (rbuf (client w'))) = length (data (rbuf (client w)))"
proof -
  let ?wire = "response_wire (proto_owner x) ct st out"
  have ne: "?wire \<noteq> []"
    by (cases "proto_owner x") (simp_all add: simple_response_wire_def http_response_wire_def int32_wire_def be_bytes_def)
  from read_fd_fits [OF ok(1) ne fits] obtain b where b:
    "read_fd (Pending ?wire) (rbuf (client w)) = Inr (int (length ?wire), b)" "buf_ok b" "unread b = ?wire"
    "length (data b) = length (data (rbuf (client w)))"
    using ok(2) by auto
  let ?w1 = "on_client (\<lambda>c. c\<lparr>rbuf := b\<rparr>) w"
  obtain y b' where d: "client_data_read ?w1 = client_close_callback
      (on_client (\<lambda>c. c\<lparr>ctx := Some y, rbuf := b',
        client_session := Some (s\<lparr>read_response_done := True, response := Some out\<rparr>)\<rparr>) ?w1)"
    and b': "buf_ok b'" "data b' = data b"
    using data_read_response [of ?w1 x s ct st out] x s b len by auto
  define w2 where "w2 = on_client (\<lambda>c. c\<lparr>event := 0\<rparr>) (on_client (\<lambda>c. c\<lparr>ctx := Some y, rbuf := b',
        client_session := Some (s\<lparr>read_response_done := True, response := Some out\<rparr>)\<rparr>) ?w1)"
  have "client_data_read ?w1 = Inr w2"
    unfolding d w2_def by (rule idle_close) (use idle in \<open>simp add: idle_client_def\<close>)
  moreover have "sync_read rest w2 = Inr (Some w2)"
    by (subst sync_read.simps) (simp add: w2_def)
  ultimately have "sync_read (Pending ?wire # rest) w = Inr (Some w2)"
    using s b(1) by (subst sync_read.simps) simp
  with b' b(4) idle show ?thesis by (simp add: w2_def idle_client_def)
qed

section \<open>A synchronous call\<close>

lemma call_setup_ok:
  assumes pr: "client_protocol (client w) = Some pr" and room: "pack_room (clear (wbuf (client w))) svc mth"
    and fits: "message_fits svc mth pl"
  shows "\<exists>x b. call_setup ct svc mth pl d w = Inr (True, on_client (\<lambda>c. c\<lparr>rbuf := clear (rbuf c),
      wbuf := b, ctx := Some x,
      client_session := Some \<lparr>response = None, done_id = d, read_response_done = False\<rparr>\<rparr>) w) \<and>
    proto_owner x = pr \<and> unparsed x \<and> buf_ok b \<and> unread b @ extra_left b = request_wire pr ct svc mth pl \<and>
    pack_room (clear b) [] [] \<and> length (data (wbuf (client w))) \<le> length (data b)"
proof -
  let ?x = "on_base (\<lambda>b. b\<lparr>conn_type := ct, service := svc, method_name := mth, payload := pl\<rparr>) (new_context pr)"
  have ow: "proto_owner ?x = pr" by (cases pr) simp_all
  from ctx_pack_request_ok [of "clear (wbuf (client w))" ?x] room fits ow obtain b where
    b: "ctx_pack_request ?x (clear (wbuf (client w))) = Inr (True, b)" "buf_ok b"
      "unread b @ extra_left b = request_wire pr ct svc mth pl" by auto
  have again: "pack_room (clear b) [] [] \<and> length (data (wbuf (client w))) \<le> length (data b)"
    using ctx_pack_request_room [OF b(1)] room fits by (simp add: clear_def)
  have "\<not> length pl > 2 ^ 32 - 1" using fits by (simp add: message_fits_def)
  then have "call_setup ct svc mth pl d w = Inr (True, on_client (\<lambda>c. c\<lparr>rbuf := clear (rbuf c),
      wbuf := b, ctx := Some ?x,
      client_session := Some \<lparr>response = None, done_id = d, read_response_done = False\<rparr>\<rparr>) w)"
    using pr b(1) by (simp add: call_setup_def Let_def on_client_def)
  then show ?thesis using b ow again by (intro exI conjI) (assumption | simp)+
qed

text \<open>What is left of a call that does not go through the loop once the socket has taken the request.\<close>

lemma request_sent:
  assumes pr: "client_protocol (client w) = Some pr" and sync: "el (client w) = None" "idle_client w"
    and room: "pack_room (clear (wbuf (client w))) svc mth" and fits: "message_fits svc mth pl"
    and send: "length (request_wire pr ct svc mth pl) \<le> k" "length (request_wire pr ct svc mth pl) \<le> j"
    and rb: "buf_ok (rbuf (client w))"
  shows "\<exists>x w2. (\<forall>rs. call_method ct svc mth pl d ((Room k, Room j) # ws) rs w =
      and_then (sync_read rs w2) (\<lambda>r. case r of None \<Rightarrow> Inr None | Some w3 \<Rightarrow>
        Inr (Some (case client_session (client w3) of None \<Rightarrow> None | Some s \<Rightarrow> response s,
          on_client (\<lambda>c. c\<lparr>ctx := None, client_session := None\<rparr>) w3)))) \<and>
    ctx (client w2) = Some x \<and> proto_owner x = pr \<and> unparsed x \<and> idle_client w2 \<and>
    client_session (client w2) = Some \<lparr>response = None, done_id = d, read_response_done = False\<rparr> \<and>
    rbuf (client w2) = clear (rbuf (client w)) \<and> buf_ok (rbuf (client w2)) \<and> unread (rbuf (client w2)) = [] \<and>
    writeable (rbuf (client w2)) = length (data (rbuf (client w))) \<and>
    client_sent w2 = client_sent w @ request_wire pr ct svc mth pl \<and>
    client_protocol (client w2) = Some pr \<and> el (client w2) = None \<and>
    length (data (rbuf (client w2))) = length (data (rbuf (client w))) \<and>
    pack_room (clear (wbuf (client w2))) [] [] \<and> length (data (wbuf (client w))) \<le> length (data (wbuf (client w2)))"
proof -
  define s where "s = \<lparr>response = None, done_id = d, read_response_done = False\<rparr>"
  define v where "v b x = on_client (\<lambda>c. c\<lparr>rbuf := clear (rbuf c), wbuf := b, ctx := Some x,
    client_session := Some s\<rparr>) w" for b x
  from call_setup_ok [OF pr room fits, of ct d] obtain x b where
    su: "call_setup ct svc mth pl d w = Inr (True, v b x)"
    and x: "proto_owner x = pr" "unparsed x"
    and b: "buf_ok b" "unread b @ extra_left b = request_wire pr ct svc mth pl"
    and again: "pack_room (clear b) [] []" "length (data (wbuf (client w))) \<le> length (data b)"
    unfolding v_def s_def by blast
  have "request_wire pr ct svc mth pl \<noteq> []"
    using wire_claims(2) [of SimpleProtocol pr ct svc mth pl] by auto
  moreover have lens: "length (unread b) + length (extra_left b) = length (request_wire pr ct svc mth pl)"
    by (simp flip: b(2) del: length_unread)
  moreover have "readable b \<le> k" "extraable b \<le> j"
    using lens send b(1) by (simp_all add: readable_unread extraable_left del: length_unread)
  ultimately obtain b' where sent: "sync_write ((Room k, Room j) # ws) (v b x) =
      Inr (Some ((on_client (\<lambda>c. c\<lparr>wbuf := b'\<rparr>) (v b x))
        \<lparr>client_sent := client_sent w @ request_wire pr ct svc mth pl\<rparr>))" "buf_ok b'" "data b' = data b"
    using sync_write_all [of "v b x" k j ws] b by (auto simp: v_def)
  define w2 where "w2 = (on_client (\<lambda>c. c\<lparr>wbuf := b'\<rparr>) (v b x))
        \<lparr>client_sent := client_sent w @ request_wire pr ct svc mth pl\<rparr>"
  have clr: "buf_ok (clear (rbuf (client w)))" "unread (clear (rbuf (client w))) = []"
    using clear_ok [OF rb] by simp_all
  then have "writeable (clear (rbuf (client w))) = length (data (rbuf (client w)))"
    by (simp add: writeable_ok) (simp add: clear_def)
  moreover have "call_method ct svc mth pl d ((Room k, Room j) # ws) rs w =
      and_then (sync_read rs w2) (\<lambda>r. case r of None \<Rightarrow> Inr None | Some w3 \<Rightarrow>
        Inr (Some (case client_session (client w3) of None \<Rightarrow> None | Some s \<Rightarrow> response s,
          on_client (\<lambda>c. c\<lparr>ctx := None, client_session := None\<rparr>) w3)))" for rs
  proof -
    have "el (client (v b x)) = None" using sync(1) by (simp add: v_def)
    then show ?thesis using su sent(1) by (simp add: call_method_def flip: w2_def)
  qed
  moreover have "client w2 = (client w)\<lparr>rbuf := clear (rbuf (client w)), wbuf := b', ctx := Some x,
      client_session := Some s\<rparr>" "client_sent w2 = client_sent w @ request_wire pr ct svc mth pl"
    by (simp_all add: w2_def v_def)
  moreover have "pack_room (clear b') [] []" "length (data (wbuf (client w))) \<le> length (data b')"
    using again sent(2,3) by (auto simp: pack_room_def clear_def buf_ok_def)
  ultimately show ?thesis
    using x clr sync pr by (intro exI [of _ x] exI [of _ w2]) (simp add: idle_client_def s_def clear_def)
qed

lemma response_not_empty: "response_wire pr ct st out \<noteq> []"
  by (cases pr) (simp_all add: simple_response_wire_def http_response_wire_def int32_wire_def be_bytes_def)

text \<open>A client between two synchronous calls: it has a protocol and no loop, waits for nothing, its
  read buffer has \<open>n\<close> bytes, and its write buffer, cleared, takes paths of up to \<open>m\<close>.\<close>

definition client_ready :: "protocol \<Rightarrow> nat \<Rightarrow> nat \<Rightarrow> client_world \<Rightarrow> bool" where
  "client_ready pr n m w \<longleftrightarrow> client_protocol (client w) = Some pr \<and> el (client w) = None \<and> idle_client w \<and>
     buf_ok (rbuf (client w)) \<and> length (data (rbuf (client w))) = n \<and>
     pack_room (clear (wbuf (client w))) [] [] \<and> m \<le> length (data (wbuf (client w)))"

lemma sync_call_ok:
  assumes pr: "client_protocol (client w) = Some pr" and sync: "el (client w) = None" "idle_client w"
    and room: "pack_room (clear (wbuf (client w))) svc mth" and fits: "message_fits svc mth pl"
    and send: "length (request_wire pr ct svc mth pl) \<le> k" "length (request_wire pr ct svc mth pl) \<le> j"
    and rb: "buf_ok (rbuf (client w))" "length (response_wire pr rct st out) \<le> length (data (rbuf (client w)))"
    and out: "length out < 2 ^ 31"
  shows "\<exists>w'. call_method ct svc mth pl None ((Room k, Room j) # ws)
      (Pending (response_wire pr rct st out) # rs) w = Inr (Some (Some out, w')) \<and>
    client_sent w' = client_sent w @ request_wire pr ct svc mth pl \<and>
    ctx (client w') = None \<and> client_session (client w') = None \<and>
    client_ready pr (length (data (rbuf (client w)))) (length (data (wbuf (client w)))) w'"
proof -
  from request_sent [OF pr sync room fits send rb(1), of None ws] obtain x w2 where
    run: "\<And>rs. call_method ct svc mth pl None ((Room k, Room j) # ws) rs w =
      and_then (sync_read rs w2) (\<lambda>r. case r of None \<Rightarrow> Inr None | Some w3 \<Rightarrow>
        Inr (Some (case client_session (client w3) of None \<Rightarrow> None | Some s \<Rightarrow> response s,
          on_client (\<lambda>c. c\<lparr>ctx := None, client_session := None\<rparr>) w3)))"
    and x: "ctx (client w2) = Some x" "unparsed x" "proto_owner x = pr" and idle: "idle_client w2"
    and s: "client_session (client w2) = Some \<lparr>response = None, done_id = None, read_response_done = False\<rparr>"
    and b: "buf_ok (rbuf (client w2))" "unread (rbuf (client w2)) = []"
      "writeable (rbuf (client w2)) = length (data (rbuf (client w)))"
    and sent: "client_sent w2 = client_sent w @ request_wire pr ct svc mth pl"
    and kept: "client_protocol (client w2) = Some pr" "el (client w2) = None"
      "length (data (rbuf (client w2))) = length (data (rbuf (client w)))" "pack_room (clear (wbuf (client w2))) [] []"
      "length (data (wbuf (client w))) \<le> length (data (wbuf (client w2)))"
    by blast
  have "length (response_wire (proto_owner x) rct st out) \<le> writeable (rbuf (client w2))" using rb(2) x(3) b(3) by simp
  from sync_read_response [OF x(1,2) s _ _ b(1,2) idle this out, of rs] x(3) obtain w3 where w3:
    "sync_read (Pending (response_wire pr rct st out) # rs) w2 = Inr (Some w3)"
    "client_session (client w3) = Some \<lparr>response = Some out, done_id = None, read_response_done = True\<rparr>"
    "client_sent w3 = client_sent w2" "idle_client w3" "client_protocol (client w3) = Some pr" "el (client w3) = None"
    "wbuf (client w3) = wbuf (client w2)" "buf_ok (rbuf (client w3))"
    "length (data (rbuf (client w3))) = length (data (rbuf (client w2)))" using kept(1,2) by auto
  let ?w = "on_client (\<lambda>c. c\<lparr>ctx := None, client_session := None\<rparr>) w3"
  have "client_ready pr (length (data (rbuf (client w)))) (length (data (wbuf (client w)))) ?w"
    using w3(4-9) kept(3-5) by (simp add: client_ready_def idle_client_def)
  then show ?thesis using w3(1-3) sent unfolding run by (intro exI [of _ ?w]) simp
qed

text \<open>The next call of a client that is kept.\<close>

lemma client_next_call:
  assumes "client_ready pr n m w" and "length svc \<le> m" "length mth \<le> m" and "message_fits svc mth pl"
    and "length (request_wire pr ct svc mth pl) \<le> k" and "length (response_wire pr rct st out) \<le> n"
    and "length out < 2 ^ 31"
  shows "\<exists>w'. call_method ct svc mth pl None ((Room k, Room k) # ws) (Pending (response_wire pr rct st out) # rs) w =
      Inr (Some (Some out, w')) \<and> client_ready pr n m w' \<and>
    client_sent w' = client_sent w @ request_wire pr ct svc mth pl"
proof -
  have "pack_room (clear (wbuf (client w))) svc mth"
    using assms(1-3) by (auto simp: client_ready_def pack_room_def clear_def)
  with assms obtain w' where "call_method ct svc mth pl None ((Room k, Room k) # ws)
      (Pending (response_wire pr rct st out) # rs) w = Inr (Some (Some out, w'))"
    "client_ready pr n (length (data (wbuf (client w)))) w'"
    "client_sent w' = client_sent w @ request_wire pr ct svc mth pl"
    using sync_call_ok [of w pr svc mth pl ct k k rct st out ws rs] by (auto simp: client_ready_def)
  moreover have "m \<le> length (data (wbuf (client w)))" using assms(1) by (simp add: client_ready_def)
  ultimately show ?thesis by (auto simp: client_ready_def)
qed

section \<open>Calls that do not end\<close>

lemma response_empty:
  assumes "unparsed x" and "buf_ok b" and "unread b = []"
  shows "ctx_parse_response x b = Inr (ParseProtocol_NoEnoughData, x, b)"
proof (cases x)
  case (SimpleCtx c)
  then show ?thesis
    using assms simple_response_return [of c b ParseProtocol_NoEnoughData c b]
    by (simp add: simple_response_step_def readable_unread lift_ctx_def)
next
  case (HttpCtx c)
  have "http_step parse_response_line c b = Inr (Some ParseProtocol_NoEnoughData, c, b)"
    using assms HttpCtx by (simp add: http_step_def http_advance_def parse_response_line_def readable_unread)
  then have "http_parse_response c b = Inr (ParseProtocol_NoEnoughData, c, b)"
    by (subst http_parse_response.simps) simp
  then show ?thesis using HttpCtx by (simp add: lift_ctx_def)
qed

text \<open>The peer has closed the stream: every read returns nothing, and the loop goes on.\<close>

lemma sync_read_spins:
  assumes x: "ctx (client w) = Some x" "unparsed x"
    and s: "client_session (client w) = Some s" "\<not> read_response_done s"
    and b: "buf_ok (rbuf (client w))" "unread (rbuf (client w)) = []" "writeable (rbuf (client w)) \<noteq> 0"
  shows "sync_read (replicate n (Pending [])) w = Inr None"
proof (induction n)
  case 0
  show ?case using s by (subst sync_read.simps) simp
next
  case (Suc n)
  let ?b = "rbuf (client w)"
  have "windex ?b < 2 ^ 64" "in_bounds ?b (windex ?b) 0" using b(1) by (auto simp: buf_ok_def in_bounds_def)
  then have read: "read_fd (Pending []) ?b = Inr (0, ?b)"
    using b(3) by (simp add: read_fd_def Let_def)
  have same: "on_client (\<lambda>c. c\<lparr>rbuf := ?b\<rparr>) w = w" "on_client (\<lambda>c. c\<lparr>ctx := Some x, rbuf := ?b\<rparr>) w = w"
    using x(1) by (simp_all add: on_client_def)
  have "client_data_read w = Inr w"
    using x response_empty [OF x(2) b(1,2)] same by (simp add: client_data_read_def Let_def)
  then show ?case using s read Suc by (subst sync_read.simps) (simp add: same(1))
qed

section \<open>A closure without a loop\<close>

text \<open>A closure given to a client without a loop: the call reads its response, forgets the
  session, and then looks into it.\<close>

lemma closure_without_loop:
  assumes "client_session (client w) = None"
  shows "sync_read answers w = Inl NullDeref"
  using assms by (subst sync_read.simps) simp

lemma sync_call_with_closure:
  assumes x: "ctx (client w) = Some x" "unparsed x"
    and s: "client_session (client w) = Some s" "\<not> read_response_done s" "done_id s = Some d"
    and ok: "buf_ok (rbuf (client w))" "unread (rbuf (client w)) = []" and idle: "idle_client w"
    and fits: "length (response_wire (proto_owner x) ct st out) \<le> writeable (rbuf (client w))"
    and len: "length out < 2 ^ 31"
  shows "sync_read (Pending (response_wire (proto_owner x) ct st out) # rest) w = Inl NullDeref"
proof -
  let ?wire = "response_wire (proto_owner x) ct st out"
  have ne: "?wire \<noteq> []"
    by (cases "proto_owner x") (simp_all add: simple_response_wire_def http_response_wire_def int32_wire_def be_bytes_def)
  from read_fd_fits [OF ok(1) ne fits] obtain b where b:
    "read_fd (Pending ?wire) (rbuf (client w)) = Inr (int (length ?wire), b)" "buf_ok b" "unread b = ?wire"
    using ok(2) by auto
  let ?w1 = "on_client (\<lambda>c. c\<lparr>rbuf := b\<rparr>) w"
  obtain b' where "client_data_read ?w1 = client_close_callback
      (on_client (\<lambda>c. c\<lparr>rbuf := b', ctx := None, client_session := None\<rparr>)
        (?w1\<lparr>done_runs := done_runs ?w1 @ [(d, out)]\<rparr>))" (is "_ = client_close_callback ?v")
    using data_read_response [of ?w1 x s ct st out] x s b len by auto
  then have "client_data_read ?w1 = Inr (on_client (\<lambda>c. c\<lparr>event := 0\<rparr>) ?v)"
    using idle_close [of ?v] idle by (simp add: idle_client_def)
  then show ?thesis
    using s b(1) by (subst sync_read.simps) (simp add: closure_without_loop)
qed

text \<open>The same at the level of the call.\<close>

text \<open>A closure given to a client without a loop makes the call dereference its null
  session.\<close>

lemma closure_without_loop_faults:
  assumes pr: "client_protocol (client w) = Some pr" and sync: "el (client w) = None" "idle_client w"
    and room: "pack_room (clear (wbuf (client w))) svc mth" and fits: "message_fits svc mth pl"
    and send: "length (request_wire pr ct svc mth pl) \<le> k" "length (request_wire pr ct svc mth pl) \<le> j"
    and rb: "buf_ok (rbuf (client w))" "length (response_wire pr rct st out) \<le> length (data (rbuf (client w)))"
    and out: "length out < 2 ^ 31"
  shows "call_method ct svc mth pl (Some d) ((Room k, Room j) # ws)
      (Pending (response_wire pr rct st out) # rs) w = Inl NullDeref"
proof -
  from request_sent [OF pr sync room fits send rb(1), of "Some d" ws] obtain x w2 where
    run: "\<And>rs. call_method ct svc mth pl (Some d) ((Room k, Room j) # ws) rs w =
      and_then (sync_read rs w2) (\<lambda>r. case r of None \<Rightarrow> Inr None | Some w3 \<Rightarrow>
        Inr (Some (case client_session (client w3) of None \<Rightarrow> None | Some s \<Rightarrow> response s,
          on_client (\<lambda>c. c\<lparr>ctx := None, client_session := None\<rparr>) w3)))"
    and x: "ctx (client w2) = Some x" "unparsed x" "proto_owner x = pr" and idle: "idle_client w2"
    and s: "client_session (client w2) = Some \<lparr>response = None, done_id = Some d, read_response_done = False\<rparr>"
    and b: "buf_ok (rbuf (client w2))" "unread (rbuf (client w2)) = []"
      "writeable (rbuf (client w2)) = length (data (rbuf (client w)))"
    by blast
  have "length (response_wire (proto_owner x) rct st out) \<le> writeable (rbuf (client w2))" using rb(2) x(3) b(3) by simp
  from sync_call_with_closure [OF x(1,2) s _ _ b(1,2) idle this out, of d rs] x(3)
  show ?thesis unfolding run by simp
qed

text \<open>C28. A synchronous call does not return while the peer has closed the connection (end of
  file) or its end is broken (EPIPE), however long it polls.\<close>

lemma call_hangs:
  assumes pr: "client_protocol (client w) = Some pr" and sync: "el (client w) = None" "idle_client w"
    and room: "pack_room (clear (wbuf (client w))) svc mth" and fits: "message_fits svc mth pl"
    and send: "length (request_wire pr ct svc mth pl) \<le> k" "length (request_wire pr ct svc mth pl) \<le> j"
    and rb: "buf_ok (rbuf (client w))" "data (rbuf (client w)) \<noteq> []"
  shows "call_method ct svc mth pl None ((Room k, Room j) # ws) (replicate n (Pending [])) w = Inr None \<and>
    call_method ct svc mth pl None (replicate n (WriteErr EPIPE, WriteErr EPIPE)) rs w = Inr None"
proof
  from request_sent [OF pr sync room fits send rb(1), of None ws] obtain x w2 where
    run: "\<And>rs. call_method ct svc mth pl None ((Room k, Room j) # ws) rs w =
      and_then (sync_read rs w2) (\<lambda>r. case r of None \<Rightarrow> Inr None | Some w3 \<Rightarrow>
        Inr (Some (case client_session (client w3) of None \<Rightarrow> None | Some s \<Rightarrow> response s,
          on_client (\<lambda>c. c\<lparr>ctx := None, client_session := None\<rparr>) w3)))"
    and x: "ctx (client w2) = Some x" "unparsed x"
    and s: "client_session (client w2) = Some \<lparr>response = None, done_id = None, read_response_done = False\<rparr>"
    and b: "buf_ok (rbuf (client w2))" "unread (rbuf (client w2)) = []"
      "writeable (rbuf (client w2)) = length (data (rbuf (client w)))"
    by blast
  have "sync_read (replicate n (Pending [])) w2 = Inr None"
    using sync_read_spins [OF x s _ b(1,2)] b(3) rb(2) by simp
  then show "call_method ct svc mth pl None ((Room k, Room j) # ws) (replicate n (Pending [])) w = Inr None"
    unfolding run by simp
next
  from call_setup_ok [OF pr room fits, of ct None] obtain x b where
    su: "call_setup ct svc mth pl None w = Inr (True, on_client (\<lambda>c. c\<lparr>rbuf := clear (rbuf c),
      wbuf := b, ctx := Some x,
      client_session := Some \<lparr>response = None, done_id = None, read_response_done = False\<rparr>\<rparr>) w)"
      (is "_ = Inr (True, ?v)")
    and b: "buf_ok b" "unread b @ extra_left b = request_wire pr ct svc mth pl" by blast
  have "request_wire pr ct svc mth pl \<noteq> []"
    using wire_claims(2) [of SimpleProtocol pr ct svc mth pl] by auto
  then have "readable (wbuf (client ?v)) \<noteq> 0 \<or> extraable (wbuf (client ?v)) \<noteq> 0"
    using b by (auto simp: readable_unread extraable_left simp del: length_unread)
  from sync_write_spins [OF this, of n] show
    "call_method ct svc mth pl None (replicate n (WriteErr EPIPE, WriteErr EPIPE)) rs w = Inr None"
    using su sync(1) by (simp add: call_method_def)
qed

end
