(* ===== verification/Client_Async.thy ===== *)
theory Client_Async
  imports Client_Calls
begin

text \<open>
  The life of an asynchronous call: the call queues a change of the registration, the socket
  takes the request, the response comes in and the closure is run.
\<close>

section \<open>The registration of the client\<close>

text \<open>A client of a loop that is in the interest list as its \<^verbatim>\<open>_sevent\<close> says.\<close>

definition in_loop :: "client_world \<Rightarrow> bool" where
  "in_loop w \<longleftrightarrow> el (client w) \<noteq> None \<and> registered (ConnPtr 0) (client w) (interests (client_loop w))"

lemma client_update_ok:
  assumes "in_loop w"
  shows "\<exists>w'. client_update w = Inr w' \<and> in_loop w' \<and> client w' = (client w)\<lparr>sevent := event (client w)\<rparr> \<and>
    interests (client_loop w') (fd (client w)) = registration (ConnPtr 0) (event (client w)) \<and>
    client_sent w' = client_sent w \<and> done_runs w' = done_runs w"
proof -
  have r: "registered (ConnPtr 0) (client w) (interests (client_loop w))" using assms by (simp add: in_loop_def)
  from update_channel_ok [OF r] assms show ?thesis
    by (simp add: client_update_def in_loop_def registered_def)
qed

lemma in_loop_on_client:
  "in_loop w \<Longrightarrow> el (f (client w)) = el (client w) \<Longrightarrow> fd (f (client w)) = fd (client w) \<Longrightarrow>
     sevent (f (client w)) = sevent (client w) \<Longrightarrow> in_loop (on_client f w)"
  by (simp add: in_loop_def registered_def)

section \<open>Events\<close>

lemma client_part:
  fixes c :: pb_client
  shows "tcp_connection.extend (tcp_connection.truncate c) (tcp_connection.more c) = c"
    and "tcp_connection.extend ((tcp_connection.truncate c)\<lparr>rbuf := b\<rparr>) (tcp_connection.more c) = c\<lparr>rbuf := b\<rparr>"
    and "tcp_connection.extend ((tcp_connection.truncate c)\<lparr>wbuf := b\<rparr>) (tcp_connection.more c) = c\<lparr>wbuf := b\<rparr>"
    and "rbuf (tcp_connection.truncate c) = rbuf c" "wbuf (tcp_connection.truncate c) = wbuf c"
    and "connected (tcp_connection.truncate c) = connected c"
    and "data_read_cb (tcp_connection.truncate c) = data_read_cb c"
    and "write_complete_cb (tcp_connection.truncate c) = write_complete_cb c"
    and "close_cb (tcp_connection.truncate c) = close_cb c"
    and "client_conn_cb (tcp_connection.truncate c) = client_conn_cb c"
  by (cases c rule: tcp_connection.cases_scheme; simp add: tcp_connection.defs)+

lemma client_writes:
  assumes c: "connected (client w)" "write_complete_cb (client w) = Some ClientWriteCompleteCb"
    and b: "buf_ok (wbuf (client w))" "readable (wbuf (client w)) \<le> k" "extraable (wbuf (client w)) \<le> j"
  shows "\<exists>b. client_handle_events EPOLLOUT ra (Room k) (Room j) so w =
    client_write_complete ((on_client (\<lambda>c. c\<lparr>wbuf := b\<rparr>) w)
      \<lparr>client_sent := client_sent w @ unread (wbuf (client w)) @ extra_left (wbuf (client w))\<rparr>)"
proof -
  let ?b = "wbuf (client w)"
  from write_fd_ok [OF b(1,2), of j] obtain n b' out where
    b': "write_fd (Room k) (Room j) ?b = Inr (int n, b', out)" "buf_ok b'"
      "out @ extra_left b' = unread ?b @ extra_left ?b" "unread b' = []"
      "length (extra_left b') = length (extra_left ?b) - j" by blast
  have "extra_left b' = []" using b'(5) b(1,3) by (simp add: extraable_left)
  then have out: "out = unread ?b @ extra_left ?b" and empty: "readable b' = 0"
    using b' by (simp_all add: readable_unread)
  then show ?thesis
    using b'(1) c
    by (auto simp: client_handle_events_def tcp_handle_events_def client_part run_client_callback_def on_client_def)
qed

lemma client_reads:
  assumes c: "data_read_cb (client w) = Some ClientDataReadCb"
    and b: "buf_ok (rbuf (client w))" "unread (rbuf (client w)) = []"
    and bs: "bs \<noteq> []" "length bs \<le> writeable (rbuf (client w))"
  shows "\<exists>b. client_handle_events EPOLLIN (Pending bs) wa1 wa2 so w =
    client_data_read (on_client (\<lambda>c. c\<lparr>rbuf := b\<rparr>) w) \<and> buf_ok b \<and> unread b = bs"
proof -
  from read_fd_fits [OF b(1) bs] b(2) obtain b' where "read_fd (Pending bs) (rbuf (client w)) = Inr (int (length bs), b')"
    "buf_ok b'" "unread b' = bs" by auto
  then show ?thesis using c bs(1)
    by (auto simp: client_handle_events_def tcp_handle_events_def client_part run_client_callback_def on_client_def)
qed

section \<open>The parts of a call\<close>

text \<open>A call is under way: the client is registered for \<open>ev\<close>, with its context and its session.\<close>

definition call_waits :: "32 word \<Rightarrow> protocol \<Rightarrow> nat \<Rightarrow> client_world \<Rightarrow> bool" where
  "call_waits ev pr d w \<longleftrightarrow> in_loop w \<and> event (client w) = ev \<and> sevent (client w) = ev \<and>
     connected (client w) \<and> write_complete_cb (client w) = Some ClientWriteCompleteCb \<and>
     data_read_cb (client w) = Some ClientDataReadCb \<and>
     (\<exists>x. ctx (client w) = Some x \<and> proto_owner x = pr \<and> unparsed x) \<and>
     client_session (client w) = Some \<lparr>response = None, done_id = Some d, read_response_done = False\<rparr> \<and>
     buf_ok (rbuf (client w)) \<and> unread (rbuf (client w)) = []"

lemma call_waits_interest:
  "call_waits ev pr d w \<Longrightarrow> ev \<noteq> 0 \<Longrightarrow> interests (client_loop w) (fd (client w)) = Some (ev, ConnPtr 0)"
  by (simp add: call_waits_def in_loop_def registered_def registration_def)

lemma call_starts:
  assumes pr: "client_protocol (client w) = Some pr" and l: "in_loop w"
    and c: "connected (client w)" "write_complete_cb (client w) = Some ClientWriteCompleteCb"
      "data_read_cb (client w) = Some ClientDataReadCb"
    and room: "pack_room (clear (wbuf (client w))) svc mth" and fits: "message_fits svc mth pl"
    and rb: "buf_ok (rbuf (client w))"
  shows "\<exists>w1 w2. call_method ct svc mth pl (Some d) ws rs w = Inr (Some (None, w1)) \<and>
    client_sent w1 = client_sent w \<and> client_update w1 = Inr w2 \<and> call_waits EPOLLOUT pr d w2 \<and>
    fd (client w2) = fd (client w) \<and> client_sent w2 = client_sent w \<and> done_runs w2 = done_runs w \<and>
    buf_ok (wbuf (client w2)) \<and>
    unread (wbuf (client w2)) @ extra_left (wbuf (client w2)) = request_wire pr ct svc mth pl \<and>
    writeable (rbuf (client w2)) = length (data (rbuf (client w))) \<and>
    funcs (client_loop w1) = funcs (client_loop w) @ [()]"
proof -
  let ?s = "\<lparr>response = None, done_id = Some d, read_response_done = False\<rparr>"
  from call_setup_ok [OF pr room fits, of ct "Some d"] obtain x b where
    set: "call_setup ct svc mth pl (Some d) w = Inr (True, on_client (\<lambda>c. c\<lparr>rbuf := clear (rbuf c),
      wbuf := b, ctx := Some x, client_session := Some ?s\<rparr>) w)"
    and x: "proto_owner x = pr" "unparsed x"
    and b: "buf_ok b" "unread b @ extra_left b = request_wire pr ct svc mth pl" by blast
  let ?w1 = "call_async (on_client (\<lambda>c. c\<lparr>rbuf := clear (rbuf c), wbuf := b, ctx := Some x,
    client_session := Some ?s\<rparr>) w)"
  have w1: "call_method ct svc mth pl (Some d) ws rs w = Inr (Some (None, ?w1))"
    using set l by (simp add: call_method_def in_loop_def)
  have cl: "client ?w1 = (client w)\<lparr>rbuf := clear (rbuf (client w)), wbuf := b, ctx := Some x,
      client_session := Some ?s, event := EPOLLOUT\<rparr>"
    and more: "client_sent ?w1 = client_sent w" "done_runs ?w1 = done_runs w"
      "interests (client_loop ?w1) = interests (client_loop w)"
    by (simp_all add: call_async_def)
  have "in_loop ?w1" using l cl more by (simp add: in_loop_def registered_def)
  from client_update_ok [OF this] cl more obtain w2 where w2: "client_update ?w1 = Inr w2" "in_loop w2"
    "client w2 = (client w)\<lparr>rbuf := clear (rbuf (client w)), wbuf := b, ctx := Some x,
      client_session := Some ?s, event := EPOLLOUT, sevent := EPOLLOUT\<rparr>"
    "client_sent w2 = client_sent w" "done_runs w2 = done_runs w" by auto
  have clr: "buf_ok (clear (rbuf (client w)))" "unread (clear (rbuf (client w))) = []" using clear_ok [OF rb] by simp_all
  then have "writeable (clear (rbuf (client w))) = length (data (rbuf (client w)))"
    by (simp add: writeable_ok) (simp add: clear_def)
  moreover have "call_waits EPOLLOUT pr d w2" using w2(2,3) c x clr by (simp add: call_waits_def)
  moreover have "funcs (client_loop ?w1) = funcs (client_loop w) @ [()]"
    by (simp add: call_async_def add_func_def push_func_def wakeup_def)
  ultimately show ?thesis using w1 more(1) w2(1,3-5) b by (intro exI [of _ ?w1] exI [of _ w2]) simp
qed

lemma call_written:
  assumes c: "call_waits EPOLLOUT pr d w" and b: "buf_ok (wbuf (client w))"
      "unread (wbuf (client w)) @ extra_left (wbuf (client w)) = bs" and k: "length bs \<le> k" "length bs \<le> j"
  shows "\<exists>w'. client_handle_events EPOLLOUT ra (Room k) (Room j) so w = Inr w' \<and> call_waits EPOLLIN pr d w' \<and>
    fd (client w') = fd (client w) \<and> rbuf (client w') = rbuf (client w) \<and>
    client_sent w' = client_sent w @ bs \<and> done_runs w' = done_runs w"
proof -
  note c' = c [unfolded call_waits_def]
  have len: "length (unread (wbuf (client w))) + length (extra_left (wbuf (client w))) = length bs"
    using arg_cong [OF b(2), of length] by simp
  have cb: "connected (client w)" "write_complete_cb (client w) = Some ClientWriteCompleteCb" using c' by simp_all
  have r: "readable (wbuf (client w)) \<le> k" "extraable (wbuf (client w)) \<le> j"
    using len k b(1) by (simp_all add: readable_unread extraable_left del: length_unread)
  from client_writes [OF cb b(1) r, of ra so] obtain b' where run:
    "client_handle_events EPOLLOUT ra (Room k) (Room j) so w = client_write_complete
      ((on_client (\<lambda>c. c\<lparr>wbuf := b'\<rparr>) w)\<lparr>client_sent := client_sent w @ bs\<rparr>)" using b(2) by auto
  define v where "v = on_client (\<lambda>c. c\<lparr>event := EPOLLIN\<rparr>)
    ((on_client (\<lambda>c. c\<lparr>wbuf := b'\<rparr>) w)\<lparr>client_sent := client_sent w @ bs\<rparr>)"
  have v: "client v = (client w)\<lparr>wbuf := b', event := EPOLLIN\<rparr>" "client_sent v = client_sent w @ bs"
    "done_runs v = done_runs w" "interests (client_loop v) = interests (client_loop w)"
    by (simp_all add: v_def on_client_def)
  have "in_loop v" using c' v by (simp add: in_loop_def registered_def)
  from client_update_ok [OF this] v obtain w' where w': "client_update v = Inr w'" "in_loop w'"
    "client w' = (client w)\<lparr>wbuf := b', event := EPOLLIN, sevent := EPOLLIN\<rparr>"
    "client_sent w' = client_sent w @ bs" "done_runs w' = done_runs w" by auto
  moreover have "call_waits EPOLLIN pr d w'" using w'(2,3) c' by (simp add: call_waits_def)
  ultimately show ?thesis using run by (simp add: client_write_complete_def flip: v_def)
qed

lemma call_answered:
  assumes c: "call_waits EPOLLIN pr d w"
    and fits: "length (response_wire pr rct st out) \<le> writeable (rbuf (client w))" and out: "length out < 2 ^ 31"
  shows "\<exists>w'. client_handle_events EPOLLIN (Pending (response_wire pr rct st out)) wa1 wa2 so w = Inr w' \<and>
    done_runs w' = done_runs w @ [(d, out)] \<and> ctx (client w') = None \<and> client_session (client w') = None \<and>
    interests (client_loop w') (fd (client w)) = None \<and> client_sent w' = client_sent w"
proof -
  let ?resp = "response_wire pr rct st out"
  note c' = c [unfolded call_waits_def]
  then obtain x where x: "ctx (client w) = Some x" "proto_owner x = pr" "unparsed x" by blast
  have ne: "?resp \<noteq> []"
    by (cases pr) (simp_all add: simple_response_wire_def http_response_wire_def int32_wire_def be_bytes_def)
  have cb: "data_read_cb (client w) = Some ClientDataReadCb" "buf_ok (rbuf (client w))" "unread (rbuf (client w)) = []"
    using c' by simp_all
  from client_reads [OF cb ne fits, of wa1 wa2 so] obtain b where
    b: "client_handle_events EPOLLIN (Pending ?resp) wa1 wa2 so w = client_data_read (on_client (\<lambda>c. c\<lparr>rbuf := b\<rparr>) w)"
      "buf_ok b" "unread b = ?resp" by blast
  let ?v = "on_client (\<lambda>c. c\<lparr>rbuf := b\<rparr>) w"
  have f: "ctx (client ?v) = Some x" "client_session (client ?v) =
      Some \<lparr>response = None, done_id = Some d, read_response_done = False\<rparr>" "buf_ok (rbuf (client ?v))"
    "unread (rbuf (client ?v)) = response_wire (proto_owner x) rct st out"
    using x b c' by simp_all
  from data_read_response [OF f(1) x(3) f(2-4) out] obtain b' where
    r: "client_data_read ?v = client_close_callback
      (on_client (\<lambda>c. c\<lparr>rbuf := b', ctx := None, client_session := None\<rparr>)
        (?v\<lparr>done_runs := done_runs ?v @ [(d, out)]\<rparr>))" (is "_ = client_close_callback ?u") by auto
  have "in_loop (on_client (\<lambda>c. c\<lparr>event := 0\<rparr>) ?u)" using c' by (simp add: in_loop_def registered_def)
  from client_update_ok [OF this] obtain w' where w': "client_close_callback ?u = Inr w'"
    "client w' = (client (on_client (\<lambda>c. c\<lparr>event := 0\<rparr>) ?u))\<lparr>sevent := 0\<rparr>"
    "interests (client_loop w') (fd (client w)) = None" "done_runs w' = done_runs w @ [(d, out)]"
    "client_sent w' = client_sent w"
    by (auto simp: client_close_callback_def registration_def)
  have "ctx (client w') = None" "client_session (client w') = None" using w'(2) by simp_all
  then show ?thesis using b(1) r w' by auto
qed

section \<open>The whole call\<close>

text \<open>C16. An asynchronous call in an event loop sends the request when the socket is writable,
  then waits for input, runs the closure once with the payload of the response and gives up its
  session and its registration.\<close>

lemma async_call_served:
  assumes pr: "client_protocol (client w) = Some pr" and l: "in_loop w"
    and c: "connected (client w)" "write_complete_cb (client w) = Some ClientWriteCompleteCb"
      "data_read_cb (client w) = Some ClientDataReadCb"
    and room: "pack_room (clear (wbuf (client w))) svc mth" and fits: "message_fits svc mth pl"
    and send: "length (request_wire pr ct svc mth pl) \<le> k" "length (request_wire pr ct svc mth pl) \<le> j"
    and rb: "buf_ok (rbuf (client w))" "length (response_wire pr rct st out) \<le> length (data (rbuf (client w)))"
    and out: "length out < 2 ^ 31"
  shows "\<exists>w1 w2 w3 w4. call_method ct svc mth pl (Some d) ws rs w = Inr (Some (None, w1)) \<and>
    client_sent w1 = client_sent w \<and> client_update w1 = Inr w2 \<and>
    interests (client_loop w2) (fd (client w)) = Some (EPOLLOUT, ConnPtr 0) \<and>
    client_handle_events EPOLLOUT ra (Room k) (Room j) so w2 = Inr w3 \<and>
    client_sent w3 = client_sent w @ request_wire pr ct svc mth pl \<and> done_runs w3 = done_runs w \<and>
    interests (client_loop w3) (fd (client w)) = Some (EPOLLIN, ConnPtr 0) \<and>
    client_handle_events EPOLLIN (Pending (response_wire pr rct st out)) wa1 wa2 so w3 = Inr w4 \<and>
    done_runs w4 = done_runs w @ [(d, out)] \<and> ctx (client w4) = None \<and> client_session (client w4) = None \<and>
    interests (client_loop w4) (fd (client w)) = None"
proof -
  from call_starts [OF pr l c room fits rb(1), of ct d ws rs] obtain w1 w2 where
    s: "call_method ct svc mth pl (Some d) ws rs w = Inr (Some (None, w1))" "client_sent w1 = client_sent w"
      "client_update w1 = Inr w2" and w2: "call_waits EPOLLOUT pr d w2" "fd (client w2) = fd (client w)"
      "client_sent w2 = client_sent w" "done_runs w2 = done_runs w" "buf_ok (wbuf (client w2))"
      "unread (wbuf (client w2)) @ extra_left (wbuf (client w2)) = request_wire pr ct svc mth pl"
      "writeable (rbuf (client w2)) = length (data (rbuf (client w)))" by blast
  from call_written [OF w2(1,5,6) send, of ra so] obtain w3 where
    w3: "client_handle_events EPOLLOUT ra (Room k) (Room j) so w2 = Inr w3" "call_waits EPOLLIN pr d w3"
      "fd (client w3) = fd (client w2)" "rbuf (client w3) = rbuf (client w2)"
      "client_sent w3 = client_sent w2 @ request_wire pr ct svc mth pl" "done_runs w3 = done_runs w2" by blast
  have "length (response_wire pr rct st out) \<le> writeable (rbuf (client w3))" using rb(2) w2(7) w3(4) by simp
  from call_answered [OF w3(2) this out, of wa1 wa2 so] obtain w4 where
    w4: "client_handle_events EPOLLIN (Pending (response_wire pr rct st out)) wa1 wa2 so w3 = Inr w4"
      "done_runs w4 = done_runs w3 @ [(d, out)]" "ctx (client w4) = None" "client_session (client w4) = None"
      "interests (client_loop w4) (fd (client w3)) = None" by blast
  show ?thesis using s w2(2-4) w3 w4 call_waits_interest [OF w2(1)] call_waits_interest [OF w3(2)] by auto
qed

end
