(* ===== verification/Samples.thy ===== *)
theory Samples
  imports Server_IO Client_Async Server_Steps
begin

text \<open>
  Concrete objects at which the properties are instantiated: a buffer with given contents, a
  server with one connection on its main loop, and a client.
\<close>

section \<open>Buffers\<close>

definition filled :: "byte list \<Rightarrow> buffer" where
  "filled bs = \<lparr>rindex = 0, windex = length bs, data = bs @ replicate 1024 NUL, extra_index = 0,
     extra_data = []\<rparr>"

lemma filled_simps [simp]:
  "rindex (filled bs) = 0" "windex (filled bs) = length bs" "length (data (filled bs)) = length bs + 1024"
  "extra_index (filled bs) = 0" "extra_data (filled bs) = []" "unread (filled bs) = bs"
  "extra_left (filled bs) = []"
  by (simp_all add: filled_def unread_def extra_left_def)

lemma filled_data [simp]: "data (filled bs) \<noteq> []"
  by (simp add: filled_def)

lemma filled_ok [simp]: "length bs < 2 ^ 20 \<Longrightarrow> buf_ok (filled bs)"
  by (simp add: buf_ok_def)

lemma filled_room [simp]: "length bs < 2 ^ 20 \<Longrightarrow> writeable (filled bs) = 1024"
  by (simp add: writeable_ok)

lemma filled_readable [simp]: "length bs < 2 ^ 20 \<Longrightarrow> readable (filled bs) = length bs"
  by (simp add: readable_unread)

lemma filled_pack_room [simp]:
  "length svc < 1024 \<Longrightarrow> length mth < 1024 \<Longrightarrow> pack_room (filled []) svc mth"
  by (simp add: pack_room_def)

lemma clear_filled [simp]: "clear (filled []) = filled []"
  by (simp add: clear_def filled_def)

section \<open>A server\<close>

definition sample_conn :: "buffer \<Rightarrow> buffer \<Rightarrow> conn" where
  "sample_conn rb wb = (new_tcp_connection 7 (Some 0) True (TimeStamp 0 0))
     \<lparr>event := EPOLLIN, sevent := EPOLLIN, data_read_cb := Some DataReadCb,
      write_complete_cb := Some WriteCompleteCb, close_cb := Some CloseCb, rbuf := rb, wbuf := wb\<rparr>"

definition sample_loop :: "32 word \<Rightarrow> task event_loop" where
  "sample_loop ev = blank_loop\<lparr>is_stop := False, channels := [1 \<mapsto> TimeStamp 0 0],
     interests := [3 \<mapsto> (EPOLLIN, WakeUperPtr), 4 \<mapsto> (EPOLLIN, AcceptorPtr), 7 \<mapsto> (ev, ConnPtr 1)]\<rparr>"

definition sample_world :: "conn \<Rightarrow> world" where
  "sample_world c = \<lparr>thread_num = 0, main_joinable = True, next_el = -1, sub_els = None, sub_threads = [],
     read_timeout_ms = 2000, write_timeout_ms = 2000, protocols = [SimpleProtocol, HTTPProtocol],
     name2protocols = [''simple_proto'' \<mapsto> SimpleProtocol, ''HTTP'' \<mapsto> HTTPProtocol],
     services = [''Echo'' \<mapsto> (5, [''echo'' \<mapsto> 6])],
     loops = (\<lambda>_. blank_loop)(0 := sample_loop (sevent c)), conns = [1 \<mapsto> c], deferred = [],
     open_fds = {3, 4, 7}, close_calls = [], sent = (\<lambda>_. [])\<rparr>"

definition echo_app :: app where
  "echo_app svc md bs = Replies (Some bs)"

definition sample_like :: "conn \<Rightarrow> bool" where
  "sample_like c \<longleftrightarrow> fd c = 7 \<and> el c = Some 0 \<and> conn_ts c = TimeStamp 0 0 \<and> sevent c \<noteq> 0"

lemma sample_loops [simp]:
  "funcs (loops (sample_world c) i) = []"
  "timers (loops (sample_world c) i) = new_timer_manager"
  "channels (loops (sample_world c) i) = (if i = 0 then [1 \<mapsto> TimeStamp 0 0] else Map.empty)"
  "interests (loops (sample_world c) i) = (if i = 0 then [3 \<mapsto> (EPOLLIN, WakeUperPtr),
     4 \<mapsto> (EPOLLIN, AcceptorPtr), 7 \<mapsto> (sevent c, ConnPtr 1)] else Map.empty)"
  by (simp_all add: sample_world_def sample_loop_def blank_loop_def)

lemma sample_fields [simp]:
  "conns (sample_world c) = [1 \<mapsto> c]" "open_fds (sample_world c) = {3, 4, 7}"
  "deferred (sample_world c) = []" "protocols (sample_world c) = [SimpleProtocol, HTTPProtocol]"
  "services (sample_world c) = [''Echo'' \<mapsto> (5, [''echo'' \<mapsto> 6])]"
  "sent (sample_world c) f = []"
  by (simp_all add: sample_world_def)

lemma sample_world_reg: "sample_like c \<Longrightarrow> world_reg (sample_world c)"
proof (rule world_regI, goal_cases)
  case 1
  show ?case by (simp add: sample_world_def pool_ok_def MaxThreadNum_def)
next
  case (2 p d)
  then show ?case
    by (auto simp: conn_known_def sample_like_def registered_def registration_def split: if_splits)
next
  case (7 i t)
  then show ?case by (simp add: timers_of_def new_timer_manager_def)
qed (auto simp: sample_like_def split: if_splits)

lemma sample_world_inv: "sample_like c \<Longrightarrow> conn_state c \<Longrightarrow> world_inv (sample_world c)"
  using sample_world_reg by (simp add: world_inv_def)

lemma sample_own: "sample_like c \<Longrightarrow> conn_state c \<Longrightarrow> own (Some 0) 1 c (sample_world c)"
  using own_inv [OF sample_world_inv, of c 1 c] by (simp add: sample_like_def)

lemma sample_conn_simps [simp]:
  "sample_like (sample_conn rb wb)" "conn_state (sample_conn rb wb)" "rbuf (sample_conn rb wb) = rb"
  "wbuf (sample_conn rb wb) = wb" "proto_idx (sample_conn rb wb) = 0" "ctx (sample_conn rb wb) = None"
  "event (sample_conn rb wb) = EPOLLIN" "sevent (sample_conn rb wb) = EPOLLIN" "fd (sample_conn rb wb) = 7"
  "el (sample_conn rb wb) = Some 0" "conn_ts (sample_conn rb wb) = TimeStamp 0 0"
  "timer_id (sample_conn rb wb) = 0"
  by (simp_all add: sample_conn_def new_tcp_connection_def sample_like_def conn_state_def)

lemma sample_awaiting: "length bs < 2 ^ 20 \<Longrightarrow> awaiting (sample_conn (filled bs) (filled []))"
  by (simp add: awaiting_def)

lemma sample_service [simp]:
  "find_service_method ''Echo'' ''echo'' (sample_world c) = Some (5, 6)"
  "find_service_method ''Echo'' ''none'' (sample_world c) = None"
  by (simp_all add: find_service_method_def)

section \<open>A client\<close>

definition sample_client :: "nat option \<Rightarrow> client_world" where
  "sample_client e = \<lparr>client = (new_pb_client e 5 (TimeStamp 0 0))\<lparr>connected := True,
     client_protocol := Some SimpleProtocol, close_cb := Some ClientCloseCb,
     data_read_cb := Some ClientDataReadCb, write_complete_cb := Some ClientWriteCompleteCb,
     client_conn_cb := Some ClientConnCb, rbuf := filled [], wbuf := filled []\<rparr>,
     client_loop = \<lparr>is_stop = False, wake_count = 0, funcs = [], timers = new_timer_manager,
       channels = Map.empty, interests = Map.empty\<rparr>, client_sent = [], done_runs = []\<rparr>"

lemma sample_client_simps [simp]:
  "client_protocol (client (sample_client e)) = Some SimpleProtocol" "el (client (sample_client e)) = e"
  "event (client (sample_client e)) = 0" "sevent (client (sample_client e)) = 0"
  "connected (client (sample_client e))" "rbuf (client (sample_client e)) = filled []"
  "wbuf (client (sample_client e)) = filled []" "client_sent (sample_client e) = []"
  "done_runs (sample_client e) = []" "fd (client (sample_client e)) = 5"
  "write_complete_cb (client (sample_client e)) = Some ClientWriteCompleteCb"
  "data_read_cb (client (sample_client e)) = Some ClientDataReadCb"
  "interests (client_loop (sample_client e)) = Map.empty"
  by (simp_all add: sample_client_def new_pb_client_def new_tcp_connection_def tcp_connection.defs)

lemma sample_client_idle: "idle_client (sample_client e)"
  by (simp add: idle_client_def)

lemma sample_client_in_loop: "in_loop (sample_client (Some 0))"
  by (simp add: in_loop_def registered_def registration_def)

section \<open>A server at rest\<close>

lemma sample_system_ok:
  assumes "sample_like c" and "conn_state c" and "sevent c = event c"
  shows "system_ok (sample_world c, \<lambda>_. Idle)"
  using sample_world_inv [OF assms(1,2)] assms(3)
  by (auto simp: system_ok_def loop_ok_def pending_def split: if_splits)

text \<open>The connection once its response is packed: an answer to a call over HTTP, to be closed after it.\<close>

definition answered_conn :: "byte list \<Rightarrow> byte list \<Rightarrow> conn" where
  "answered_conn head body = (sample_conn (filled []) ((filled head)\<lparr>extra_data := body\<rparr>))
     \<lparr>event := EPOLLOUT, sevent := EPOLLOUT, ctx := Some (HttpCtx new_http_ctx)\<rparr>"

lemma answered_conn_simps [simp]:
  "sample_like (answered_conn h b)" "conn_state (answered_conn h b)" "fd (answered_conn h b) = 7"
  "rbuf (answered_conn h b) = filled []" "wbuf (answered_conn h b) = (filled h)\<lparr>extra_data := b\<rparr>"
  "ctx (answered_conn h b) = Some (HttpCtx new_http_ctx)"
  by (simp_all add: answered_conn_def sample_conn_def new_tcp_connection_def sample_like_def conn_state_def)

lemma filled_extra [simp]:
  "length h < 2 ^ 20 \<Longrightarrow> length b \<le> max_object \<Longrightarrow> buf_ok ((filled h)\<lparr>extra_data := b\<rparr>)"
  "unread ((filled h)\<lparr>extra_data := b\<rparr>) = h" "extra_left ((filled h)\<lparr>extra_data := b\<rparr>) = b"
  "length h < 2 ^ 20 \<Longrightarrow> readable ((filled h)\<lparr>extra_data := b\<rparr>) = length h"
  by (simp_all add: buf_ok_def filled_def unread_def extra_left_def readable_def sz_sub_def)

lemma filled_extra_room: "length h < 2 ^ 20 \<Longrightarrow> length b \<le> max_object \<Longrightarrow>
    pack_room (clear ((filled h)\<lparr>extra_data := b\<rparr>)) [] []"
  by (simp add: pack_room_def clear_def filled_def buf_ok_def)

end
