(* ===== verification/Reach_Sample.thy ===== *)
theory Reach_Sample
  imports Context_Types Samples
begin

text \<open>
  A concrete run of a server, from its construction to a connection whose context has read the first
  four bytes of a request.
\<close>


text \<open>A server on one loop, without time limits, as it is started.\<close>

definition idle_server :: "world" where
  "idle_server = \<lparr>thread_num = 0, main_joinable = True, next_el = -1, sub_els = None, sub_threads = [],
     read_timeout_ms = 0, write_timeout_ms = 0, protocols = [SimpleProtocol],
     name2protocols = [''simple_proto'' \<mapsto> SimpleProtocol], services = Map.empty,
     loops = (\<lambda>_. blank_loop)(0 := blank_loop\<lparr>is_stop := False,
       interests := [3 \<mapsto> (EPOLLIN, WakeUperPtr), 4 \<mapsto> (EPOLLIN, AcceptorPtr)]\<rparr>),
     conns = Map.empty, deferred = [], open_fds = {3, 4}, close_calls = [], sent = (\<lambda>_. [])\<rparr>"

lemma idle_server_started:
  "\<exists>w0. new_pb_world 3 4 = Inr w0 \<and> start_pb wfds (configured 0 0 0 [SimpleProtocol] [] w0) = Inr idle_server"
  by (auto simp: new_pb_world_def new_event_loop_ok update_channel_def do_epoll_ctl_def new_channel_def
      configured_def set_thread_num_def MaxThreadNum_def add_protocol_def start_pb_def start_server_def
      on_loop_def idle_server_def blank_loop_def new_tcp_server_def fun_eq_iff)

lemma on_loop_same: "on_loop i (\<lambda>_. loops w i) w = w"
  by (simp add: on_loop_def)

lemma round_over:
  assumes r: "server_reachable app w0 (w, ph)" and p: "ph = (\<lambda>_. Idle)(0 := Events [])"
    and l: "funcs (loops w 0) = []" "queue (timers (loops w 0)) = []"
  shows "server_reachable app w0 (w, \<lambda>_. Idle)"
proof -
  have f: "swap_funcs (loops w 0) = ([], loops w 0)" using l(1) by (simp add: swap_funcs_def)
  have d: "due_timers (TimeStamp 0 0) (loops w 0) = Inr ([], loops w 0)"
    using l(2) by (simp add: due_timers_def take_due.simps tm_empty_def)
  have "server_step app (w, ph) (Inr (w, ph(0 := Funcs [])))"
    using server_step.swap [OF _ f, of ph app] p by (simp add: on_loop_same)
  from server_reachable.step [OF r this] have a: "server_reachable app w0 (w, ph(0 := Funcs []))" .
  have "server_step app (w, ph(0 := Funcs [])) (Inr (w, (ph(0 := Funcs []))(0 := Timers [])))"
    using server_step.collect [OF _ d, of "ph(0 := Funcs [])" app] by (simp add: on_loop_same)
  from server_reachable.step [OF a this] have b: "server_reachable app w0 (w, (ph(0 := Funcs []))(0 := Timers []))" .
  have "server_step app (w, (ph(0 := Funcs []))(0 := Timers [])) (Inr (w, ((ph(0 := Funcs []))(0 := Timers []))(0 := Idle)))"
    by (rule server_step.round) simp
  from server_reachable.step [OF b this] show ?thesis by (simp add: p fun_upd_idem)
qed

text \<open>A connection that arrived, and its first bytes.\<close>

definition accepted_server :: "world" where
  "accepted_server = idle_server
     \<lparr>conns := [1 \<mapsto> (new_tcp_connection 7 (Some 0) True (TimeStamp 0 0))\<lparr>event := EPOLLIN, sevent := EPOLLIN,
        data_read_cb := Some DataReadCb, close_cb := Some CloseCb, write_complete_cb := Some WriteCompleteCb\<rparr>],
      loops := (loops idle_server)(0 := (loops idle_server 0)\<lparr>channels := [1 \<mapsto> TimeStamp 0 0],
        interests := [3 \<mapsto> (EPOLLIN, WakeUperPtr), 4 \<mapsto> (EPOLLIN, AcceptorPtr), 7 \<mapsto> (EPOLLIN, ConnPtr 1)]\<rparr>),
      open_fds := {3, 4, 7}\<rparr>"

lemma connection_accepted:
  "acceptor_handle_events (TimeStamp 0 0) EPOLLIN (Accepted 7) 1 True idle_server = Inr accepted_server"
  by (auto simp: acceptor_handle_events_def new_connection_callback_def get_next_el_def idle_server_def put_conn_def
      on_loop_def add_channel_def set_event_def update_conn_def update_on_loop_def get_conn_def loop_of_def
      new_tcp_connection_def update_channel_def do_epoll_ctl_def accepted_server_def blank_loop_def Let_def fun_eq_iff)

lemma accepted_reachable:
  "server_reachable app idle_server (accepted_server, \<lambda>_. Idle)"
proof -
  have "server_step app (idle_server, \<lambda>_. Idle) (Inr (idle_server, (\<lambda>_. Idle)(0 := Events [(AcceptorPtr, EPOLLIN)])))"
    by (rule server_step.poll) (auto simp: idle_server_def reported_def intro: exI [of _ 4])
  from server_reachable.step [OF server_reachable.start this]
  have a: "server_reachable app idle_server (idle_server, (\<lambda>_. Idle)(0 := Events [(AcceptorPtr, EPOLLIN)]))" .
  have "server_step app (idle_server, (\<lambda>_. Idle)(0 := Events [(AcceptorPtr, EPOLLIN)]))
     (outcome ((\<lambda>_. Idle)(0 := Events [(AcceptorPtr, EPOLLIN)])) 0 (Events [])
       (handle_io app 0 (TimeStamp 0 0) (AcceptIO EPOLLIN (Accepted 7) 1 True) idle_server))"
    by (rule server_step.event [where q = AcceptorPtr and ev = EPOLLIN]) (simp_all add: idle_server_def)
  then have "server_step app (idle_server, (\<lambda>_. Idle)(0 := Events [(AcceptorPtr, EPOLLIN)]))
     (Inr (accepted_server, (\<lambda>_. Idle)(0 := Events [])))"
    by (simp add: outcome_def connection_accepted del: One_nat_def)
  from server_reachable.step [OF a this] show ?thesis
    by (rule round_over) (simp_all add: accepted_server_def idle_server_def blank_loop_def new_timer_manager_def)
qed


definition magic :: "byte list" where
  "magic = uint32_wire 0x19951028"

lemma greeting_read:
  "\<exists>w c b. conn_handle_events app (TimeStamp 0 0) 1 EPOLLIN (Pending magic) (Room 0) (Room 0) accepted_server = Inr w \<and>
     conns w 1 = Some c \<and> ctx c = Some (SimpleCtx (new_simple_ctx\<lparr>s_stage := 1\<rparr>)) \<and> rbuf c = retrieve 4 b"
proof -
  obtain c where c: "conns accepted_server 1 = Some c" "rbuf c = new_buffer InitialBufferSize" "ctx c = None" "proto_idx c = 0"
    "data_read_cb c = Some DataReadCb"
    by (simp add: accepted_server_def new_tcp_connection_def)
  have m: "length magic = 4" by (simp add: magic_def)
  have n: "buf_ok (new_buffer InitialBufferSize)" "unread (new_buffer InitialBufferSize) = []"
     "writeable (new_buffer InitialBufferSize) = 1024"
    by (simp_all add: new_buffer_def InitialBufferSize_def buf_ok_def unread_def writeable_def sz_sub_def)
  have "magic \<noteq> []" using m by auto
  from read_fd_fits [OF n(1) this] m n obtain b where b:
    "read_fd (Pending magic) (new_buffer InitialBufferSize) = Inr (4, b)" "buf_ok b" "unread b = magic" by auto
  have r: "readable b = 4" using b m by (simp add: readable_unread)
  have peek: "peek_int32 b = Inr MAGIC_NUM"
    using bufq.peek_i [OF b(2)] b(3) m by (simp add: magic_def uint32_wire_def MAGIC_NUM_def)
  have ps: "protocols accepted_server = [SimpleProtocol]" by (simp add: accepted_server_def idle_server_def)
  have left: "readable (retrieve 4 b) = 0"
    using retrieve_ok [OF b(2), of 4] b(3) m by (simp add: readable_unread)
  let ?x = "SimpleCtx (new_simple_ctx\<lparr>s_stage := 1\<rparr>)"
  have "simple_parse_request new_simple_ctx b =
      Inr (ParseProtocol_NoEnoughData, new_simple_ctx\<lparr>s_stage := 1\<rparr>, retrieve 4 b)"
    using r peek left
    by (simp add: simple_parse_request.simps simple_request_step_def new_simple_ctx_def)
  then have "dispatch protocol_parse [SimpleProtocol] 0 None b =
      Inr (0, Some ParseProtocol_NoEnoughData, Some ?x, retrieve 4 b)"
    using r peek by (simp add: dispatch.simps protocol_parse_defs)
  then show ?thesis
    using c b ps
    by (simp add: conn_handle_events_def get_conn_def tcp_handle_events_def run_callback_def data_read_callback_def
      put_conn_def send_bytes_def) blast
qed

lemma greeted_reachable:
  "\<exists>s c. server_reachable app idle_server s \<and> conns (fst s) 1 = Some c \<and>
     ctx c = Some (SimpleCtx (new_simple_ctx\<lparr>s_stage := 1\<rparr>))"
proof -
  let ?ph = "(\<lambda>_. Idle)(0 := Events [(ConnPtr 1, EPOLLIN)])"
  from greeting_read obtain w c where w: "conns w 1 = Some c" "ctx c = Some (SimpleCtx (new_simple_ctx\<lparr>s_stage := 1\<rparr>))"
    "conn_handle_events app (TimeStamp 0 0) 1 EPOLLIN (Pending magic) (Room 0) (Room 0) accepted_server = Inr w" by blast
  have "server_step app (accepted_server, \<lambda>_. Idle) (Inr (accepted_server, ?ph))"
    by (rule server_step.poll) (auto simp: accepted_server_def idle_server_def reported_def intro: exI [of _ 7])
  from server_reachable.step [OF accepted_reachable this] have a: "server_reachable app idle_server (accepted_server, ?ph)" .
  have "server_step app (accepted_server, ?ph)
     (outcome ?ph 0 (Events [])
       (handle_io app 0 (TimeStamp 0 0) (ConnIO 1 EPOLLIN (Pending magic) (Room 0) (Room 0)) accepted_server))"
    by (rule server_step.event [where q = "ConnPtr 1" and ev = EPOLLIN]) simp_all
  then have "server_step app (accepted_server, ?ph) (Inr (w, ?ph(0 := Events [])))"
    by (simp add: outcome_def w(3) del: One_nat_def)
  from server_reachable.step [OF a this] w(1,2) show ?thesis by (metis fst_conv)
qed

theorem contexts_typed_witness:
  "\<exists>s c. server_reachable echo_app idle_server s \<and> conns (fst s) 1 = Some c \<and>
     protocols (fst s) ! proto_idx c = SimpleProtocol \<and>
     (\<exists>str. print_ctx (rbuf c) (SimpleCtx (new_simple_ctx\<lparr>s_stage := 1\<rparr>)) = Inr str)"
proof -
  from idle_server_started obtain w0 where w0: "new_pb_world 3 4 = Inr w0"
    "start_pb (\<lambda>_. 0) (configured 0 0 0 [SimpleProtocol] [] w0) = Inr idle_server" by blast
  from greeted_reachable obtain s c where s: "server_reachable echo_app idle_server s" "conns (fst s) 1 = Some c"
     "ctx c = Some (SimpleCtx (new_simple_ctx\<lparr>s_stage := 1\<rparr>))" by blast
  from contexts_typed [OF w0 s] s show ?thesis by (metis proto_owner.simps(1))
qed

end
