(* ===== verification/Server_Rounds.thy ===== *)
theory Server_Rounds
  imports Server_Steps
begin

text \<open>
  \<^verbatim>\<open>EventLoop::loop\<close> of one thread is a sequence of steps of the server: an iteration reports
  events, handles them, runs the queued functions and the due timers, and leaves the invariant
  of the whole system.
\<close>

section \<open>What the kernel may answer\<close>

fun report_of :: "io_event \<Rightarrow> chan_ptr \<times> 32 word" where
  "report_of (ConnIO p ev ra wa1 wa2) = (ConnPtr p, ev)"
| "report_of (AcceptIO ev answer a nb) = (AcceptorPtr, ev)"
| "report_of (WakeIO ev) = (WakeUperPtr, ev)"

lemma event_of_report: "event_of (fst (report_of e)) (snd (report_of e)) e"
  by (cases e) simp_all

text \<open>Each \<^verbatim>\<open>accept\<close> of the iteration returns a new descriptor, each \<^verbatim>\<open>new\<close> a free address.\<close>

fun answers_ok :: "app \<Rightarrow> nat \<Rightarrow> timestamp \<Rightarrow> io_event list \<Rightarrow> world \<Rightarrow> bool" where
  "answers_ok app i now [] w \<longleftrightarrow> True"
| "answers_ok app i now (e # es) w \<longleftrightarrow> answers_fresh e w \<and>
     (case handle_io app i now e w of Inl _ \<Rightarrow> True | Inr w' \<Rightarrow> answers_ok app i now es w')"

definition poll_ok_for :: "app \<Rightarrow> nat \<Rightarrow> io_event poll_answer \<Rightarrow> timestamp \<Rightarrow> world \<Rightarrow> bool" where
  "poll_ok_for app i answer now w \<longleftrightarrow>
     (case answer of PollErr e \<Rightarrow> True
      | Ready es \<Rightarrow> reported w i (map report_of es) \<and> answers_ok app i now es w)"

fun polls_ok :: "app \<Rightarrow> nat \<Rightarrow> (io_event poll_answer \<times> timestamp) list \<Rightarrow> world \<Rightarrow> bool" where
  "polls_ok app i [] w \<longleftrightarrow> True"
| "polls_ok app i ((a, now) # rest) w \<longleftrightarrow> poll_ok_for app i a now w \<and>
     (case server_round app i a now w of Inl _ \<Rightarrow> True | Inr w' \<Rightarrow> polls_ok app i rest w')"

section \<open>An iteration\<close>

lemma safe_outcome:
  "safe system_ok (outcome ph i x r) \<longleftrightarrow> safe (\<lambda>w. system_ok (w, ph(i := x))) r"
  by (cases r) (simp_all add: outcome_def safe_def)

lemma events_safe:
  assumes "system_ok (w, ph(i := Events (map report_of es)))" and "sync_app app" and "answers_ok app i now es w"
  shows "safe (\<lambda>w'. system_ok (w', ph(i := Events []))) (run_all (handle_io app i now) es w)"
  using assms
proof (induction es arbitrary: w)
  case Nil
  then show ?case by (simp add: safe_def)
next
  case (Cons e es)
  let ?ph = "ph(i := Events (map report_of (e # es)))"
  have "?ph i = Events ((fst (report_of e), snd (report_of e)) # map report_of es)" by simp
  from server_step.event [of ?ph i "fst (report_of e)" "snd (report_of e)" "map report_of es" e w app now,
      OF this event_of_report] Cons.prems(3)
  have "server_step app (w, ?ph) (outcome ?ph i (Events (map report_of es)) (handle_io app i now e w))" by simp
  from step_ok [OF this Cons.prems(1,2)]
  have "safe (\<lambda>w'. system_ok (w', ph(i := Events (map report_of es)))) (handle_io app i now e w)"
    by (simp add: safe_outcome)
  then show ?case
    unfolding run_all.simps
  proof (rule safe_bind)
    fix w1
    assume "handle_io app i now e w = Inr w1" and "system_ok (w1, ph(i := Events (map report_of es)))"
    with Cons.IH [of w1] Cons.prems(2,3)
    show "safe (\<lambda>w'. system_ok (w', ph(i := Events []))) (run_all (handle_io app i now) es w1)"
      by (simp del: fun_upd_apply)
  qed
qed

lemma funcs_safe:
  assumes "system_ok (w, ph(i := Funcs ts))" and "sync_app app"
  shows "safe (\<lambda>w'. system_ok (w', ph(i := Funcs []))) (run_all exec_task ts w)"
  using assms
proof (induction ts arbitrary: w)
  case Nil
  then show ?case by (simp add: safe_def)
next
  case (Cons t ts)
  let ?ph = "ph(i := Funcs (t # ts))"
  have "server_step app (w, ?ph) (outcome ?ph i (Funcs ts) (exec_task t w))" by (rule server_step.func) simp
  from step_ok [OF this Cons.prems]
  have "safe (\<lambda>w'. system_ok (w', ph(i := Funcs ts))) (exec_task t w)" by (simp add: safe_outcome)
  then show ?case
    unfolding run_all.simps by (rule safe_bind) (rule Cons.IH [OF _ Cons.prems(2)])
qed

lemma timers_safe:
  assumes "system_ok (w, ph(i := Timers ts))" and "sync_app app"
  shows "safe (\<lambda>w'. system_ok (w', ph(i := Timers []))) (run_all exec_task ts w)"
  using assms
proof (induction ts arbitrary: w)
  case Nil
  then show ?case by (simp add: safe_def)
next
  case (Cons t ts)
  let ?ph = "ph(i := Timers (t # ts))"
  have "server_step app (w, ?ph) (outcome ?ph i (Timers ts) (exec_task t w))" by (rule server_step.timer) simp
  from step_ok [OF this Cons.prems]
  have "safe (\<lambda>w'. system_ok (w', ph(i := Timers ts))) (exec_task t w)" by (simp add: safe_outcome)
  then show ?case
    unfolding run_all.simps by (rule safe_bind) (rule Cons.IH [OF _ Cons.prems(2)])
qed

lemma round_safe:
  assumes ok: "system_ok (w, ph)" and ph: "ph i = Idle" and run: "\<not> is_stop (loops w i)" and app: "sync_app app"
    and poll: "poll_ok_for app i answer now w"
  shows "safe (\<lambda>w'. system_ok (w', ph)) (server_round app i answer now w)"
proof (cases answer)
  case (PollErr e)
  then show ?thesis using ok by (simp add: server_round_def loop_body_def safe_def lifetime_fault_def)
next
  case (Ready es)
  have rep: "reported w i (map report_of es)" and ans: "answers_ok app i now es w"
    using poll Ready by (simp_all add: poll_ok_for_def)
  have upd: "(ph(i := x))(i := y) = ph(i := y)" "ph(i := Idle) = ph" for x y using ph by auto
  have "system_ok (w, ph(i := Events (map report_of es)))"
    using step_ok [OF server_step.poll [of ph i w _ app, OF ph run rep] ok app] by (simp add: safe_def)
  from events_safe [OF this app ans]
  have ev: "safe (\<lambda>w1. system_ok (w1, ph(i := Events []))) (run_all (handle_io app i now) es w)" .
  have fs: "safe (\<lambda>w2. system_ok (w2, ph(i := Funcs [])))
      (run_all exec_task (fst (swap_funcs (loops w1 i))) (on_loop i (\<lambda>_. snd (swap_funcs (loops w1 i))) w1))"
    if "system_ok (w1, ph(i := Events []))" for w1
  proof -
    have "server_step app (w1, ph(i := Events []))
        (Inr (on_loop i (\<lambda>_. snd (swap_funcs (loops w1 i))) w1, ph(i := Funcs (fst (swap_funcs (loops w1 i))))))"
      using server_step.swap [of "ph(i := Events [])" i w1 _ _ app] by (simp add: upd)
    from step_ok [OF this that app]
    have "system_ok (on_loop i (\<lambda>_. snd (swap_funcs (loops w1 i))) w1, ph(i := Funcs (fst (swap_funcs (loops w1 i)))))"
      by (simp add: safe_def)
    then show ?thesis by (rule funcs_safe [OF _ app])
  qed
  have ts: "safe (\<lambda>w3. system_ok (w3, ph)) (and_then (due_timers now (loops w2 i)) (\<lambda>(ts, l2).
      run_all exec_task ts (on_loop i (\<lambda>_. l2) w2)))"
    if ok2: "system_ok (w2, ph(i := Funcs []))" for w2
  proof -
    from due_timers_ok [of now "loops w2 i"] obtain ts l where d: "due_timers now (loops w2 i) = Inr (ts, l)" by blast
    have "server_step app (w2, ph(i := Funcs [])) (Inr (on_loop i (\<lambda>_. l) w2, ph(i := Timers ts)))"
      using server_step.collect [OF _ d, of "ph(i := Funcs [])" app] by (simp add: upd)
    from step_ok [OF this ok2 app] have "system_ok (on_loop i (\<lambda>_. l) w2, ph(i := Timers ts))" by (simp add: safe_def)
    from timers_safe [OF this app]
    have t: "safe (\<lambda>w3. system_ok (w3, ph(i := Timers []))) (run_all exec_task ts (on_loop i (\<lambda>_. l) w2))" .
    have "system_ok (w3, ph)" if "system_ok (w3, ph(i := Timers []))" for w3
    proof -
      have "server_step app (w3, ph(i := Timers [])) (Inr (w3, ph))"
        using server_step.round [of "ph(i := Timers [])" i app w3] by (simp add: upd)
      from step_ok [OF this that app] show ?thesis by (simp add: safe_def)
    qed
    with t show ?thesis by (auto simp: d safe_def split: sum.splits)
  qed
  show ?thesis
    unfolding server_round_def loop_body_def Ready poll_answer.case
    by (rule safe_bind [OF ev], unfold Let_def split_beta, rule safe_bind [OF fs], assumption)
      (rule ts [unfolded split_beta])
qed

section \<open>The loop\<close>

lemma loop_safe_gen:
  assumes "system_ok (w, ph)" and "ph i = Idle" and "sync_app app" and "polls_ok app i inputs w"
  shows "safe (\<lambda>w'. system_ok (w', ph)) (loop (\<lambda>w. loops w i) (server_round app i) inputs w)"
  using assms
proof (induction inputs arbitrary: w)
  case Nil
  then show ?case by (simp add: safe_def)
next
  case (Cons x rest)
  obtain a now where x: "x = (a, now)" by (cases x)
  show ?case
  proof (cases "is_stop (loops w i)")
    case True
    then show ?thesis using Cons.prems(1) x by (simp add: safe_def)
  next
    case False
    from Cons.prems(4) x have "poll_ok_for app i a now w" by simp
    note r = round_safe [OF Cons.prems(1,2) False Cons.prems(3) this]
    have "safe (\<lambda>w'. system_ok (w', ph))
        (and_then (server_round app i a now w) (loop (\<lambda>w. loops w i) (server_round app i) rest))"
      by (rule safe_bind [OF r]) (use Cons x in auto)
    then show ?thesis using x False by simp
  qed
qed

end
