(* ===== verification/Parser_Limits.thy ===== *)
theory Parser_Limits
  imports Protocols
begin

text \<open>
  The edges of the parsers: lines that are too long, lengths that are no number or negative, and
  the reads of the simple protocol past the bytes that have arrived.
\<close>

section \<open>Lines without an end\<close>

lemma no_crlf:
  assumes ok: "buf_ok b" and long: "65536 \<le> length (unread b)"
    and none: "index_of_crlf (take 65536 (unread b)) = None"
  shows "min (readable b) 65536 = 65536" and "find_crlf 65536 b = Inr (-1)"
proof -
  show "min (readable b) 65536 = 65536" using ok long by (simp add: readable_unread del: length_unread)
  show "find_crlf 65536 b = Inr (-1)" using find_crlf_unread [OF ok long] none by simp
qed

text \<open>A request line, status line or header of 65536 bytes without a line end is an error, for
  requests and responses alike, and neither the context nor the buffer changes.\<close>

lemma http_line_limit:
  assumes ok: "buf_ok b" and long: "65536 \<le> length (unread b)"
    and none: "index_of_crlf (take 65536 (unread b)) = None" and c: "h_stage c = 0 \<or> h_stage c = 1"
  shows "http_parse_request c b = Inr (ParseProtocol_Error, c, b) \<and>
    http_parse_response c b = Inr (ParseProtocol_Error, c, b)"
proof -
  note line = no_crlf [OF ok long none]
  note defs = MaxHeadlineSize_def MaxHeaderSize_def Let_def
  have "parse_request_line c b = Inr (ParseProtocol_Error, c, b)"
    "parse_response_line c b = Inr (ParseProtocol_Error, c, b)"
    using line by (simp_all add: parse_request_line_def parse_response_line_def defs)
  moreover have "header_step c b = Inr (Some ParseProtocol_Error, c, b)"
    using line by (simp add: header_step_def defs)
  then have "parse_headers c b = Inr (ParseProtocol_Error, c, b)" by (subst parse_headers.simps) simp
  ultimately show ?thesis
    using c by (subst http_parse_request.simps, subst http_parse_response.simps)
      (auto simp: http_step_def http_advance_def)
qed

section \<open>The length of a body\<close>

text \<open>C34. A negative \<^verbatim>\<open>Content-Length\<close> passes \<^verbatim>\<open>_parse_body\<close>: the request is accepted, and reading
  its payload throws \<^verbatim>\<open>std::length_error\<close>, which nothing catches.\<close>

theorem negative_length_accepted:
  assumes ok: "buf_ok b" and small: "length (unread b) < 2 ^ 31"
    and c: "h_stage c = 2" "body_size c < 0" "- (2 ^ 31) \<le> body_size c"
  shows "\<exists>c'. http_parse_request c b = Inr (ParseProtocol_Success, c', b) \<and>
    view_str b (payload_view c') = Inl LengthError"
proof -
  let ?v = "view_at (rindex b) (to_size (body_size c))"
  let ?c = "c\<lparr>payload_view := ?v, h_stage := 3\<rparr>"
  have "to_int32 (int (readable b)) = int (length (unread b))"
    using ok small by (simp add: readable_unread to_int32_small del: length_unread)
  then have "parse_body c b = Inr (ParseProtocol_PartSuccess, c\<lparr>payload_view := ?v\<rparr>, b)"
    using c(2) by (simp add: parse_body_def)
  then have "http_step parse_request_line c b = Inr (None, ?c, b)"
    using c(1) by (simp add: http_step_def http_advance_def)
  from http_request_loop [OF this] have run: "http_parse_request c b = Inr (ParseProtocol_Success, ?c, b)"
    by (simp add: http_done)
  have r: "rindex b \<le> max_object" using ok by (simp add: buf_ok_def)
  have s: "int (to_size (body_size c)) = body_size c + 2 ^ 64"
  proof -
    have "body_size c mod 2 ^ 64 = (body_size c + 2 ^ 64) mod 2 ^ 64" by simp
    also have "\<dots> = body_size c + 2 ^ 64" using c(2,3) by (intro mod_pos_pos_trivial) auto
    finally show ?thesis using c(3) by (simp add: to_size_def)
  qed
  have "view_size ?v = to_size (body_size c)"
  proof -
    have "int (sz_add (rindex b) (to_size (body_size c))) = (int (rindex b) + body_size c) mod 2 ^ 64"
      by (simp add: sz_add_def zmod_int s add.assoc [symmetric] del: add.assoc)
    then have "view_size ?v = nat (((int (rindex b) + body_size c) mod 2 ^ 64 - int (rindex b)) mod 2 ^ 64)"
      by (simp add: view_size_def sz_sub_def view_at_def)
    also have "((int (rindex b) + body_size c) mod 2 ^ 64 - int (rindex b)) mod 2 ^ 64 = body_size c mod 2 ^ 64"
      by (simp add: mod_diff_left_eq)
    finally show ?thesis by (simp add: to_size_def)
  qed
  then have "view_str b ?v = Inl LengthError"
    using s c(3) by (auto simp: view_str_def view_at_def)
  with run show ?thesis by auto
qed

text \<open>A \<^verbatim>\<open>Content-Length\<close> that \<^verbatim>\<open>std::stoi\<close> cannot read throws out of the parser, in requests and
  responses alike; nothing between the parser and the thread catches it.\<close>

theorem bad_length_throws:
  assumes ok: "buf_ok b" and u: "unread b = ''Content-Length: '' @ v @ CR # LF # rest"
    and v: "v \<noteq> []" "plain v" "length v < 1000" and e: "stoi v = Inl e"
    and c: "h_stage c = 1" "headers c ''Content-Length'' = None"
  shows "http_parse_request c b = Inl e \<and> http_parse_response c b = Inl e"
proof -
  have "unread b = ''Content-Length'' @ CHR '':'' # CHR '' '' # v @ CR # LF # rest" using u by simp
  from header_step_line(1) [OF ok this _ _ _ v(2), of c] v(3)
  have "header_step c b = and_then (store_header ''Content-Length'' v c)
      (\<lambda>c'. Inr (None, c', retrieve (length ''Content-Length'' + length v + 4) b))"
    by (simp add: plain_def)
  moreover have "store_header ''Content-Length'' v c = Inl e"
    using v(1) e c(2) by (simp add: store_header_def)
  ultimately have "parse_headers c b = Inl e" by (subst parse_headers.simps) simp
  then show ?thesis
    using c(1) by (subst http_parse_request.simps, subst http_parse_response.simps) (simp add: http_step_def)
qed

section \<open>The simple protocol reads past its input\<close>


end
