(* ===== verification/Http_Resume.thy ===== *)
theory Http_Resume
  imports Http_Safety
begin

text \<open>
  Bytes arrive in pieces. The parsers of \<^verbatim>\<open>protocols/http.cpp\<close> are run on what is there and run
  again when more has come, with the context and the buffer they left. Here the outcome is
  shown not to depend on where the pieces end: waiting on a prefix and going on gives what one
  run over all bytes gives.
\<close>

section \<open>A buffer that has grown\<close>

text \<open>\<open>B\<close> holds the bytes of \<open>b\<close>, of which no vector is left, and more after them.\<close>

definition grown :: "buffer \<Rightarrow> buffer \<Rightarrow> bool" where
  "grown b B \<longleftrightarrow> buf_ok b \<and> buf_ok B \<and> rindex B = rindex b \<and> windex b = length (data b) \<and>
     windex b \<le> windex B \<and> windex B < 2 ^ 31 \<and> (\<exists>ys. data B = data b @ ys)"

definition agrees :: "'a result \<Rightarrow> 'a result \<Rightarrow> bool" where
  "agrees m M \<longleftrightarrow> m = Inl OutOfBounds \<or> M = m"

text \<open>An outcome over \<open>b\<close> and the outcome over \<open>B\<close>, of which the same bytes have been taken.\<close>

definition at_rindex :: "buffer \<Rightarrow> 'r \<times> 'c \<times> buffer \<Rightarrow> 'r \<times> 'c \<times> buffer" where
  "at_rindex B = (\<lambda>(r, c, b). (r, c, B\<lparr>rindex := rindex b\<rparr>))"

definition follows :: "buffer \<Rightarrow> ('r \<times> 'c \<times> buffer) result \<Rightarrow> ('r \<times> 'c \<times> buffer) result \<Rightarrow> bool" where
  "follows B m M \<longleftrightarrow> m = Inl OutOfBounds \<or> M = and_then m (\<lambda>x. Inr (at_rindex B x))"

lemma grown_rindex: "grown b B \<Longrightarrow> rindex B = rindex b"
  by (simp add: grown_def)

lemma grown_unread:
  assumes "grown b B"
  shows "unread B = unread b @ drop (windex b - rindex b) (unread B)"
proof -
  from assms obtain ys where ys: "data B = data b @ ys" by (auto simp: grown_def)
  have "take (windex b - rindex b) (unread B) = unread b"
    using assms by (auto simp: unread_def grown_def ys buf_ok_def min_def)
  then show ?thesis by (metis append_take_drop_id)
qed

lemma grown_moved:
  "grown b B \<Longrightarrow> buf_ok b' \<Longrightarrow> data b' = data b \<Longrightarrow> windex b' = windex b \<Longrightarrow>
     grown b' (B\<lparr>rindex := rindex b'\<rparr>)"
  by (auto simp: grown_def buf_ok_def)

lemma agrees_same [intro, simp]: "agrees m m"
  by (simp add: agrees_def)

lemma follows_bind:
  "agrees m M \<Longrightarrow> (\<And>x. m = Inr x \<Longrightarrow> follows B (k x) (K x)) \<Longrightarrow> follows B (and_then m k) (and_then M K)"
  by (cases m) (auto simp: agrees_def follows_def)

lemma agrees_bind:
  "agrees m M \<Longrightarrow> (\<And>x. m = Inr x \<Longrightarrow> agrees (k x) (K x)) \<Longrightarrow> agrees (and_then m k) (and_then M K)"
  by (cases m) (auto simp: agrees_def)

lemma follows_stay: "grown b B \<Longrightarrow> follows B (Inr (r, c, b)) (Inr (r, c, B))"
  by (cases B) (simp add: follows_def at_rindex_def grown_def)

lemma follows_retrieve:
  "grown b B \<Longrightarrow> follows B (Inr (r, c, retrieve n b)) (Inr (r, c, retrieve n B))"
  by (simp add: follows_def at_rindex_def retrieve_def grown_def)

lemma follows_option:
  "(x = None \<Longrightarrow> follows B m M) \<Longrightarrow> (\<And>y. x = Some y \<Longrightarrow> follows B (k y) (K y)) \<Longrightarrow>
     follows B (case x of None \<Rightarrow> m | Some y \<Rightarrow> k y) (case x of None \<Rightarrow> M | Some y \<Rightarrow> K y)"
  by (cases x) simp_all

section \<open>Reads\<close>

lemma index_of_more: "index_of c xs = Some k \<Longrightarrow> index_of c (xs @ ys) = Some k"
  by (induction xs arbitrary: k) (auto split: if_splits)

lemma index_of_crlf_more: "index_of_crlf xs = Some k \<Longrightarrow> index_of_crlf (xs @ ys) = Some k"
  by (induction xs arbitrary: k rule: index_of_crlf.induct) (auto split: if_splits)

lemma take_inside: "p + n \<le> length xs \<Longrightarrow> take n (drop p (xs @ ys)) = take n (drop p xs)"
  by simp

lemma mem_read_agrees: "grown b B \<Longrightarrow> agrees (mem_read b p n) (mem_read B p n)"
  by (auto simp: agrees_def mem_read_def in_bounds_def grown_def buf_ok_def)

lemma mem_byte_agrees: "grown b B \<Longrightarrow> agrees (mem_byte b p) (mem_byte B p)"
  by (auto simp: agrees_def mem_byte_def in_bounds_def grown_def buf_ok_def nth_append)

lemma mem_chr_agrees: "grown b B \<Longrightarrow> agrees (mem_chr b p c n) (mem_chr B p c n)"
proof (cases "index_of c (take n (drop p (data b)))")
  case (Some k)
  assume g: "grown b B"
  then obtain ys where ys: "data B = data b @ ys" by (auto simp: grown_def)
  have "index_of c (take n (drop p (data B))) = Some k"
    using index_of_more [OF Some] by (simp add: ys)
  with Some show ?thesis by (simp add: agrees_def mem_chr_def)
next
  case None
  assume g: "grown b B"
  then obtain ys where ys: "data B = data b @ ys" by (auto simp: grown_def)
  show ?thesis
  proof (cases "in_bounds b p n")
    case True
    with g ys have "take n (drop p (data B)) = take n (drop p (data b))" "in_bounds B p n"
      by (auto simp: in_bounds_def grown_def buf_ok_def)
    with None True show ?thesis by (simp add: agrees_def mem_chr_def del: index_of_None)
  qed (simp add: agrees_def mem_chr_def None del: index_of_None)
qed

lemma strncmp_eq_more: "strncmp_eq xs s = Inr r \<Longrightarrow> strncmp_eq (xs @ ys) s = Inr r"
  by (induction xs s rule: strncmp_eq.induct) (auto split: if_splits)

lemma strncmp_eq_fault: "strncmp_eq xs s = Inl e \<Longrightarrow> e = OutOfBounds"
  by (induction xs s rule: strncmp_eq.induct) (auto split: if_splits)

lemma match_method_more: "agrees (match_method xs i) (match_method (xs @ ys) i)"
proof (induction xs i rule: match_method.induct)
  case (1 xs i)
  have "agrees (strncmp_eq xs (HTTPMethod_Name i)) (strncmp_eq (xs @ ys) (HTTPMethod_Name i))"
    using strncmp_eq_more strncmp_eq_fault by (cases "strncmp_eq xs (HTTPMethod_Name i)") (auto simp: agrees_def)
  then show ?case
    using "1.IH" by (subst (1 2) match_method.simps) (auto intro: agrees_bind)
qed

text \<open>The search for the end of a line: either it fails on \<open>b\<close> for want of bytes, or it has the same
  outcome on both.\<close>

lemma line_follows:
  assumes g: "grown b B" and x: "x = min (readable b) 65536" and X: "X = min (readable B) 65536"
  obtains (wait) "windex B \<noteq> windex b" "x = 0 \<or> x \<noteq> 65536 \<and> find_crlf x b = Inr (-1)"
  | (same) "find_crlf X B = find_crlf x b" "X = 0 \<longleftrightarrow> x = 0" "find_crlf x b = Inr (-1) \<longrightarrow> X = x"
proof -
  have ok: "buf_ok b" "buf_ok B" using g by (simp_all add: grown_def)
  let ?u = "unread b" and ?U = "unread B"
  obtain ys where ys: "?U = ?u @ ys" using grown_unread [OF g] by blast
  have x': "x = min (length ?u) 65536" "X = min (length ?U) 65536"
    using ok x X by (simp_all add: readable_unread del: length_unread)
  have le: "x \<le> length ?u" "x \<le> 65536" "X \<le> length ?U" "X \<le> 65536" using x' by simp_all
  have f: "find_crlf x b = Inr (case index_of_crlf (take x ?u) of None \<Rightarrow> -1 | Some k \<Rightarrow> int k)"
    "find_crlf X B = Inr (case index_of_crlf (take X ?U) of None \<Rightarrow> -1 | Some k \<Rightarrow> int k)"
    using find_crlf_unread [OF ok(1) le(1,2)] find_crlf_unread [OF ok(2) le(3,4)] by simp_all
  consider "ys = [] \<or> x = 65536" | k where "index_of_crlf (take x ?u) = Some k" "ys \<noteq> []"
    | "ys \<noteq> []" "x \<noteq> 65536" "index_of_crlf (take x ?u) = None" by fastforce
  then show thesis
  proof cases
    case 1
    then have "X = x" "take X ?U = take x ?u" using x' ys by (auto simp: min_def split: if_splits)
    then show thesis using f by (intro same) simp_all
  next
    case 2
    have "\<exists>zs. take X ?U = take x ?u @ zs" using x' ys by (auto simp: min_def take_append)
    then have "index_of_crlf (take X ?U) = Some k" using index_of_crlf_more [OF 2(1)] by auto
    moreover have "x \<noteq> 0" using 2(1) by (cases "x = 0") simp_all
    ultimately show thesis using f 2 x' ys by (intro same) auto
  next
    case 3
    have "length ?U = windex B - rindex b" "length ?u = windex b - rindex b" using ok g by (simp_all add: grown_def)
    then have "windex B \<noteq> windex b" using 3(1) ys by auto
    then show thesis using 3 f by (intro wait) auto
  qed
qed

section \<open>The parts of a message\<close>

text \<open>On the longer buffer a part has the same outcome, unless it asked for more bytes (\<open>ne\<close>) on the
  shorter one; then going on from where it stopped is the same as starting again.\<close>

definition regular_at ::
  "'r \<Rightarrow> (http_ctx \<Rightarrow> buffer \<Rightarrow> ('r \<times> http_ctx \<times> buffer) result) \<Rightarrow> http_ctx \<Rightarrow> buffer \<Rightarrow> bool"
where
  "regular_at ne f c b \<longleftrightarrow> (\<forall>B. grown b B \<longrightarrow>
     (windex B = windex b \<or> (\<forall>c' b'. f c b \<noteq> Inr (ne, c', b')) \<longrightarrow> follows B (f c b) (f c B)) \<and>
     (\<forall>c' b'. f c b = Inr (ne, c', b') \<longrightarrow> f c B = f c' (B\<lparr>rindex := rindex b'\<rparr>)))"

lemma regular_atI:
  assumes "\<And>B. grown b B \<Longrightarrow> follows B (f c b) (f c B) \<or> windex B \<noteq> windex b \<and> f c b = Inr (ne, c, b)"
    and "\<And>c' b'. f c b = Inr (ne, c', b') \<Longrightarrow> c' = c \<and> b' = b"
  shows "regular_at ne f c b"
  unfolding regular_at_def
proof (intro allI impI conjI, goal_cases)
  case (1 B)
  with assms(1) show ?case by blast
next
  case (2 B c' b')
  have "B\<lparr>rindex := rindex b\<rparr> = B" using 2(1) by (cases B) (simp add: grown_def)
  with assms(2) [OF 2(2)] show ?case by simp
qed

lemma regular_atD:
  assumes "regular_at ne f c b" and "grown b B"
  shows "windex B = windex b \<or> (\<forall>c' b'. f c b \<noteq> Inr (ne, c', b')) \<Longrightarrow> follows B (f c b) (f c B)"
    and "f c b = Inr (ne, c', b') \<Longrightarrow> f c B = f c' (B\<lparr>rindex := rindex b'\<rparr>)"
  using assms by (auto simp: regular_at_def)

lemma service_method_agrees:
  "grown b B \<Longrightarrow> agrees (parse_service_method c b off t) (parse_service_method c B off t)"
  unfolding parse_service_method_def grown_rindex
  by (rule agrees_bind, erule mem_chr_agrees)
     (auto intro!: agrees_bind mem_read_agrees split: option.splits)

lemma version_follows:
  "grown b B \<Longrightarrow> follows B (parse_version c b off n) (parse_version c B off n)"
  unfolding parse_version_def grown_rindex
  by (rule follows_bind, erule mem_chr_agrees) (auto intro!: follows_stay follows_retrieve)

lemma url_follows: "grown b B \<Longrightarrow> follows B (parse_url c b off n) (parse_url c B off n)"
  unfolding parse_url_def Let_def grown_rindex
  by (rule follows_bind, erule mem_chr_agrees)
     (auto intro!: follows_option follows_bind mem_byte_agrees service_method_agrees version_follows follows_stay)

lemma url_decides: "parse_url c b off n = Inr (st, c', b') \<Longrightarrow> st \<noteq> ParseProtocol_NoEnoughData"
  by (auto simp: parse_url_def parse_version_def Let_def and_then_Inr_iff split: if_splits option.splits)

lemma request_line_regular: "regular_at ParseProtocol_NoEnoughData parse_request_line c b"
proof (rule regular_atI)
  show "c' = c \<and> b' = b" if "parse_request_line c b = Inr (ParseProtocol_NoEnoughData, c', b')" for c' b'
    using that by (auto simp: parse_request_line_def Let_def and_then_Inr_iff dest: url_decides
        split: if_splits option.splits)
next
  fix B assume g: "grown b B"
  obtain ys where ys: "data B = data b @ ys" using g by (auto simp: grown_def)
  have r: "rindex B = rindex b" "rindex b \<le> length (data b)" using g by (auto simp: grown_def buf_ok_def)
  define x X where "x = min (readable b) 65536" and "X = min (readable B) 65536"
  have mm: "agrees (match_method (drop (rindex b) (data b)) HTTPMethod_MIN)
      (match_method (drop (rindex B) (data B)) HTTPMethod_MIN)"
    using match_method_more [of "drop (rindex b) (data b)"] r ys by simp
  note defs = parse_request_line_def Let_def MaxHeadlineSize_def
  from g x_def X_def show "follows B (parse_request_line c b) (parse_request_line c B) \<or>
     windex B \<noteq> windex b \<and> parse_request_line c b = Inr (ParseProtocol_NoEnoughData, c, b)"
  proof (cases rule: line_follows)
    case wait
    then show ?thesis by (auto simp: defs simp flip: x_def)
  next
    case same
    have "follows B (parse_request_line c b) (parse_request_line c B)"
      unfolding defs x_def [symmetric] X_def [symmetric] same(1,2)
      using g mm same(3) r
      by (auto intro!: follows_bind mem_byte_agrees url_follows follows_stay)
    then show ?thesis ..
  qed
qed

lemma response_line_regular: "regular_at ParseProtocol_NoEnoughData parse_response_line c b"
proof (rule regular_atI)
  show "c' = c \<and> b' = b" if "parse_response_line c b = Inr (ParseProtocol_NoEnoughData, c', b')" for c' b'
    using that by (auto simp: parse_response_line_def Let_def and_then_Inr_iff split: if_splits)
next
  fix B assume g: "grown b B"
  define x X where "x = min (readable b) 65536" and "X = min (readable B) 65536"
  have r: "rindex B = rindex b" using g by (rule grown_rindex)
  note defs = parse_response_line_def Let_def MaxHeadlineSize_def
  from g x_def X_def show "follows B (parse_response_line c b) (parse_response_line c B) \<or>
     windex B \<noteq> windex b \<and> parse_response_line c b = Inr (ParseProtocol_NoEnoughData, c, b)"
  proof (cases rule: line_follows)
    case wait
    then show ?thesis by (auto simp: defs simp flip: x_def)
  next
    case same
    have "follows B (parse_response_line c b) (parse_response_line c B)"
      unfolding defs x_def [symmetric] X_def [symmetric] same(1,2)
      using g same(3) r by (auto intro!: follows_bind follows_stay follows_retrieve)
    then show ?thesis ..
  qed
qed

lemma header_step_regular: "regular_at (Some ParseProtocol_NoEnoughData) header_step c b"
proof (rule regular_atI)
  show "c' = c \<and> b' = b" if "header_step c b = Inr (Some ParseProtocol_NoEnoughData, c', b')" for c' b'
    using that by (auto simp: header_step_def Let_def and_then_Inr_iff split: if_splits option.splits)
next
  fix B assume g: "grown b B"
  define x X where "x = min (readable b) 65536" and "X = min (readable B) 65536"
  have r: "rindex B = rindex b" using g by (rule grown_rindex)
  note defs = header_step_def Let_def MaxHeadlineSize_def MaxHeaderSize_def
  from g x_def X_def show "follows B (header_step c b) (header_step c B) \<or>
     windex B \<noteq> windex b \<and> header_step c b = Inr (Some ParseProtocol_NoEnoughData, c, b)"
  proof (cases rule: line_follows)
    case wait
    then show ?thesis by (auto simp: defs simp flip: x_def)
  next
    case same
    have "follows B (header_step c b) (header_step c B)"
      unfolding defs x_def [symmetric] X_def [symmetric] same(1,2) r
      using g same(3) r
      by (auto intro!: follows_bind follows_option mem_chr_agrees mem_read_agrees
          follows_stay follows_retrieve)
    then show ?thesis ..
  qed
qed

lemma body_regular: "regular_at ParseProtocol_NoEnoughData parse_body c b"
proof (rule regular_atI)
  show "c' = c \<and> b' = b" if "parse_body c b = Inr (ParseProtocol_NoEnoughData, c', b')" for c' b'
    using that by (auto simp: parse_body_def split: if_splits)
next
  fix B assume g: "grown b B"
  then have r: "readable b = windex b - rindex b" "readable B = windex B - rindex b" "windex b \<le> windex B"
    by (auto simp: grown_def readable_def buf_ok_def sz_sub_small)
  have "windex b < 2 ^ 31" "windex B < 2 ^ 31" using g by (auto simp: grown_def)
  with r have int: "to_int32 (int (readable b)) = int (readable b)" "to_int32 (int (readable B)) = int (readable B)"
    by (auto intro!: to_int32_small)
  note body = parse_body_def int grown_rindex [OF g]
  consider "body_size c \<le> int (readable b)" | "windex B = windex b"
    | "\<not> body_size c \<le> int (readable b)" "windex B \<noteq> windex b" by blast
  then show "follows B (parse_body c b) (parse_body c B) \<or>
     windex B \<noteq> windex b \<and> parse_body c b = Inr (ParseProtocol_NoEnoughData, c, b)"
  proof cases
    case 1
    then have "body_size c \<le> int (readable B)" using r by linarith
    with 1 show ?thesis using follows_stay [OF g] by (simp add: body)
  next
    case 2
    then have "readable B = readable b" using r by simp
    then show ?thesis by (auto simp: body intro: follows_stay [OF g])
  next
    case 3
    then show ?thesis by (simp add: body)
  qed
qed

section \<open>Loops\<close>

text \<open>A loop of parts: the loop over the headers, and the loop over the parts of a message.\<close>

lemma loop_regular:
  assumes L: "\<And>c b. L c b = and_then (s c b) (\<lambda>(r, c', b').
      case r of Some st \<Rightarrow> Inr (st, c', b') | None \<Rightarrow> L c' b')"
    and safe: "\<And>c b. buf_ok b \<Longrightarrow> safe_result b (s c b)"
    and s: "regular_at (Some ne) s c b"
    and rec: "\<And>c' b'. s c b = Inr (None, c', b') \<Longrightarrow> regular_at ne L c' b'"
  shows "regular_at ne L c b"
  unfolding regular_at_def
proof (intro allI impI)
  fix B assume g: "grown b B"
  note L1 = L [of c b] L [of c B] and sD = regular_atD [OF s g]
  have at: "at_rindex (B\<lparr>rindex := k\<rparr>) x = at_rindex B x" for k and x :: "'r \<times> 'c \<times> buffer"
    by (simp add: at_rindex_def split: prod.splits)
  show "(windex B = windex b \<or> (\<forall>c' b'. L c b \<noteq> Inr (ne, c', b')) \<longrightarrow> follows B (L c b) (L c B)) \<and>
     (\<forall>c' b'. L c b = Inr (ne, c', b') \<longrightarrow> L c B = L c' (B\<lparr>rindex := rindex b'\<rparr>))"
  proof (cases "s c b")
    case (Inl e)
    then have "follows B (s c b) (s c B)" by (intro sD(1)) simp
    with Inl L1 show ?thesis by (auto simp: follows_def)
  next
    case (Inr x)
    obtain r c1 b1 where x: "x = (r, c1, b1)" by (cases x)
    define B1 where "B1 = B\<lparr>rindex := rindex b1\<rparr>"
    have sB: "s c B = Inr (r, c1, B1)" if "windex B = windex b \<or> r \<noteq> Some ne"
      using sD(1) that Inr x by (auto simp: follows_def at_rindex_def B1_def)
    show ?thesis
    proof (cases r)
      case (Some st)
      have "L c B = L c1 B1" if "st = ne"
        using sD(2) [of c1 b1] L1 L [of c1 B1] that Some Inr x by (simp add: B1_def)
      then show ?thesis
        using Inr x sB L1 Some by (auto simp: follows_def at_rindex_def B1_def)
    next
      case None
      have b1: "buf_ok b1" "data b1 = data b" "windex b1 = windex b"
        using safe [of b c] g Inr x by (auto simp: grown_def safe_result_def)
      then have "grown b1 B1" unfolding B1_def by (rule grown_moved [OF g])
      moreover have "regular_at ne L c1 b1" using rec Inr x None by simp
      moreover have "L c b = L c1 b1" "L c B = L c1 B1" using Inr x None sB L1 by simp_all
      ultimately show ?thesis using b1(3) regular_atD [of ne L c1 b1 B1]
        by (simp add: follows_def at B1_def)
    qed
  qed
qed

lemma headers_regular: "buf_ok b \<Longrightarrow> regular_at ParseProtocol_NoEnoughData parse_headers c b"
proof (induction c b rule: parse_headers.induct)
  case (1 c b)
  show ?case
    by (rule loop_regular [OF parse_headers.simps header_step_safe header_step_regular])
       (use 1 header_step_safe [of b c] in \<open>auto simp: safe_result_def\<close>)
qed

lemma follows_advance: "follows B m M \<Longrightarrow> follows B (and_then m http_advance) (and_then M http_advance)"
  by (cases m) (auto simp: follows_def http_advance_def at_rindex_def split: if_splits)

lemma part_regular:
  assumes f: "regular_at ParseProtocol_NoEnoughData f c b"
    and st: "\<And>c' b'. f c b = Inr (ParseProtocol_NoEnoughData, c', b') \<Longrightarrow> h_stage c' = h_stage c"
    and g: "\<And>c' b. h_stage c' = h_stage c \<Longrightarrow> g c' b = and_then (f c' b) http_advance"
  shows "regular_at (Some ParseProtocol_NoEnoughData) g c b"
  unfolding regular_at_def
proof (intro allI impI conjI, goal_cases)
  case (1 B)
  have "follows B (f c b) (f c B)"
    using 1(2) by (intro regular_atD(1) [OF f 1(1)]) (auto simp: g http_advance_def)
  then show ?case using follows_advance g by simp
next
  case (2 B c' b')
  then have w: "f c b = Inr (ParseProtocol_NoEnoughData, c', b')" by (simp add: g http_advance_Some)
  from regular_atD(2) [OF f 2(1) w] st [OF w] show ?case by (simp add: g)
qed

lemma http_step_regular:
  assumes "\<And>c. regular_at ParseProtocol_NoEnoughData first_line c b"
    and "\<And>c c' b'. first_line c b = Inr (ParseProtocol_NoEnoughData, c', b') \<Longrightarrow> h_stage c' = h_stage c" and "buf_ok b"
  shows "regular_at (Some ParseProtocol_NoEnoughData) (http_step first_line) c b"
proof -
  consider "h_stage c = 0" | "h_stage c = 1" | "h_stage c = 2" | "h_stage c \<notin> {0, 1, 2}" by auto
  then show ?thesis
  proof cases
    case 1
    then show ?thesis by (intro part_regular [OF assms(1,2)]) (simp_all add: http_step_def)
  next
    case 2
    then show ?thesis
      by (intro part_regular [OF headers_regular [OF assms(3)] parse_headers_stage]) (simp_all add: http_step_def)
  next
    case 3
    then show ?thesis
      by (intro part_regular [OF body_regular]) (auto simp: http_step_def dest: parse_body_frame)
  next
    case 4
    then show ?thesis by (intro regular_atI) (auto simp: http_step_def follows_stay split: if_splits)
  qed
qed

lemma http_request_regular: "buf_ok b \<Longrightarrow> regular_at ParseProtocol_NoEnoughData http_parse_request c b"
proof (induction c b rule: http_parse_request.induct)
  case (1 c b)
  have safe: "safe_result b (http_step parse_request_line c b)" if "buf_ok b" for c b
    using that by (intro http_step_safe parse_request_line_safe)
  show ?case
    by (rule loop_regular [OF http_parse_request.simps safe http_step_regular [OF request_line_regular]])
       (use 1 safe [of b c] parse_request_line_stage in \<open>auto simp: safe_result_def\<close>)
qed

lemma http_response_regular: "buf_ok b \<Longrightarrow> regular_at ParseProtocol_NoEnoughData http_parse_response c b"
proof (induction c b rule: http_parse_response.induct)
  case (1 c b)
  have safe: "safe_result b (http_step parse_response_line c b)" if "buf_ok b" for c b
    using that by (intro http_step_safe parse_response_line_safe)
  show ?case
    by (rule loop_regular [OF http_parse_response.simps safe http_step_regular [OF response_line_regular]])
       (use 1 safe [of b c] parse_response_line_stage in \<open>auto simp: safe_result_def\<close>)
qed

section \<open>Buffers whose vector is larger than their bytes\<close>

text \<open>The vector of \<open>b\<close> cut off after its bytes; \<open>b\<close> is one of the buffers that have grown from it.\<close>

definition trimmed :: "buffer \<Rightarrow> buffer" where
  "trimmed b = b\<lparr>data := take (windex b) (data b)\<rparr>"

text \<open>\<open>B\<close> is \<open>b\<close> after some bytes were read into it.\<close>

definition received :: "buffer \<Rightarrow> buffer \<Rightarrow> bool" where
  "received b B \<longleftrightarrow> buf_ok b \<and> buf_ok B \<and> rindex B = rindex b \<and> windex b \<le> windex B \<and> windex B < 2 ^ 31 \<and>
     take (windex b) (data B) = take (windex b) (data b)"

lemma trimmed_grown: "received b B \<Longrightarrow> grown (trimmed b) B"
  unfolding received_def grown_def trimmed_def
  by (auto simp: buf_ok_def intro!: exI [of _ "drop (windex b) (data B)"])
     (metis append_take_drop_id)

lemma received_self: "buf_ok b \<Longrightarrow> windex b < 2 ^ 31 \<Longrightarrow> received b b"
  by (simp add: received_def)

lemma regular_received:
  assumes reg: "\<And>c b. buf_ok b \<Longrightarrow> regular_at ne f c b" and safe: "\<And>c b. buf_ok b \<Longrightarrow> safe_result b (f c b)"
    and r: "received b B"
  shows "\<forall>c' b'. f c b \<noteq> Inr (ne, c', b') \<Longrightarrow> f c B = and_then (f c b) (\<lambda>x. Inr (at_rindex B x))"
    and "f c b = Inr (ne, c', b') \<Longrightarrow> f c B = f c' (B\<lparr>rindex := rindex b'\<rparr>)"
    and "f c b = and_then (f c b) (\<lambda>x. Inr (at_rindex b x))"
proof -
  let ?b = "trimmed b"
  have s: "received b b" using r by (auto simp: received_def)
  have g: "grown ?b B" "grown ?b b" using r s by (simp_all add: trimmed_grown)
  then have ok: "buf_ok ?b" by (simp add: grown_def)
  have no: "f c ?b \<noteq> Inl OutOfBounds" using safe [OF ok, of c] by (auto simp: safe_result_def)
  note B = regular_atD [OF reg [OF ok, of c] g(1)]
  have "follows b (f c ?b) (f c b)"
    by (rule regular_atD(1) [OF reg [OF ok] g(2)]) (simp add: trimmed_def)
  with no have b: "f c b = and_then (f c ?b) (\<lambda>x. Inr (at_rindex b x))" by (simp add: follows_def)
  show "f c B = and_then (f c b) (\<lambda>x. Inr (at_rindex B x))" if "\<forall>c' b'. f c b \<noteq> Inr (ne, c', b')"
  proof -
    have "\<forall>c' b'. f c ?b \<noteq> Inr (ne, c', b')" using that b by (auto simp: at_rindex_def)
    with B(1) no have "f c B = and_then (f c ?b) (\<lambda>x. Inr (at_rindex B x))" by (auto simp: follows_def)
    then show ?thesis using b by (cases "f c ?b") (auto simp: at_rindex_def)
  qed
  show "f c B = f c' (B\<lparr>rindex := rindex b'\<rparr>)" if "f c b = Inr (ne, c', b')"
    using that b B(2) by (cases "f c ?b") (auto simp: at_rindex_def)
  show "f c b = and_then (f c b) (\<lambda>x. Inr (at_rindex b x))"
    using b by (cases "f c ?b") (auto simp: at_rindex_def)
qed

section \<open>Messages in pieces\<close>

text \<open>What \<^verbatim>\<open>TCPConnection::handle_events\<close> and \<^verbatim>\<open>data_read_callback\<close> do with the pieces of a message: each
  is read into the buffer, and the parser runs on what is there, until it has decided.\<close>

fun feed ::
  "(http_ctx \<Rightarrow> buffer \<Rightarrow> (parse_status \<times> http_ctx \<times> buffer) result) \<Rightarrow>
   http_ctx \<Rightarrow> buffer \<Rightarrow> byte list list \<Rightarrow> (parse_status \<times> http_ctx \<times> buffer) result"
where
  "feed parse c b [] = Inr (ParseProtocol_NoEnoughData, c, b)"
| "feed parse c b (s # ss) =
     and_then (read_fd (Pending s) b) (\<lambda>(n, b1).
     and_then (parse c b1) (\<lambda>(st, c', b').
       if st = ParseProtocol_NoEnoughData then feed parse c' b' ss else Inr (st, c', b')))"

definition fill :: "byte list \<Rightarrow> buffer \<Rightarrow> buffer" where
  "fill s b = b\<lparr>data := take (windex b) (data b) @ s @ drop (windex b + length s) (data b),
     windex := windex b + length s\<rparr>"

definition has_room :: "buffer \<Rightarrow> nat \<Rightarrow> bool" where
  "has_room b n \<longleftrightarrow> buf_ok b \<and> windex b + n < length (data b) \<and> length (data b) < 2 ^ 31"

lemma read_fd_fill: "has_room b (length s) \<Longrightarrow> read_fd (Pending s) b = Inr (int (length s), fill s b)"
  by (auto simp: has_room_def read_fd_def writeable_ok in_bounds_def fill_def buf_ok_def sz_add_small Let_def)

lemma fill_fill: "has_room b (length s + length t) \<Longrightarrow> fill t (fill s b) = fill (s @ t) b"
  by (auto simp: fill_def has_room_def buf_ok_def ac_simps)

lemma fill_received: "has_room b (length s) \<Longrightarrow> received b (fill s b)"
  by (auto simp: received_def fill_def has_room_def buf_ok_def min_def)

lemma fill_room: "has_room b (length s + n) \<Longrightarrow> has_room (fill s b) n"
  by (auto simp: fill_def has_room_def buf_ok_def)

lemma fill_moved: "fill s (b\<lparr>rindex := k\<rparr>) = (fill s b)\<lparr>rindex := k\<rparr>"
  by (simp add: fill_def)

lemma feed_regular:
  assumes reg: "\<And>c b. buf_ok b \<Longrightarrow> regular_at ParseProtocol_NoEnoughData f c b"
    and safe: "\<And>c b. buf_ok b \<Longrightarrow> safe_result b (f c b)"
  shows "segs \<noteq> [] \<Longrightarrow> has_room b (length (concat segs)) \<Longrightarrow>
    f c (fill (concat segs) b) = and_then (feed f c b segs) (\<lambda>x. Inr (at_rindex (fill (concat segs) b) x))"
proof (induction segs arbitrary: c b)
  case (Cons s ss)
  let ?b1 = "fill s b"
  let ?B = "fill (concat ss) ?b1"
  have room: "has_room b (length s + length (concat ss))" using Cons.prems(2) by simp
  have B: "fill (concat (s # ss)) b = ?B" using fill_fill [OF room] by simp
  have room1: "has_room ?b1 (length (concat ss))" using room by (rule fill_room)
  have read: "read_fd (Pending s) b = Inr (int (length s), ?b1)"
    using room by (intro read_fd_fill) (simp add: has_room_def)
  note r = regular_received [OF reg safe fill_received [OF room1]]
  show ?case
  proof (cases "\<exists>c' b'. f c ?b1 = Inr (ParseProtocol_NoEnoughData, c', b')")
    case False
    then have "feed f c b (s # ss) = f c ?b1" using read by (cases "f c ?b1") auto
    then show ?thesis using r(1) [of c] False unfolding B by auto
  next
    case True
    then obtain c' b' where w: "f c ?b1 = Inr (ParseProtocol_NoEnoughData, c', b')" by blast
    have b': "b' = ?b1\<lparr>rindex := rindex b'\<rparr>" using r(3) [of c] w by (simp add: at_rindex_def)
    have feed: "feed f c b (s # ss) = feed f c' b' ss" using read w by simp
    have B': "fill (concat ss) b' = ?B\<lparr>rindex := rindex b'\<rparr>" by (subst b') (rule fill_moved)
    have at: "at_rindex (?B\<lparr>rindex := k\<rparr>) x = at_rindex ?B x" for k and x :: "parse_status \<times> http_ctx \<times> buffer"
      by (simp add: at_rindex_def split: prod.splits)
    show ?thesis
    proof (cases ss)
      case Nil
      then have "?B = ?b1" using fill_fill [OF room] by simp
      then show ?thesis using Nil r(3) [of c] w feed unfolding B by simp
    next
      case ss: (Cons t ts)
      have ok: "buf_ok b'" using safe [of ?b1 c] w room1 by (auto simp: has_room_def safe_result_def)
      have "has_room b' (length (concat ss))" using room1 ok b' by (metis (no_types) buffer.select_convs(2,3) buffer.surjective buffer.update_convs(1) has_room_def)
      from Cons.IH [OF _ this, of c'] ss have "f c' (fill (concat ss) b') =
          and_then (feed f c' b' ss) (\<lambda>x. Inr (at_rindex (fill (concat ss) b') x))" by simp
      then show ?thesis using r(2) [OF _ _ w] unfolding B feed B' at by simp
    qed
  qed
qed simp

text \<open>C21. Reading an HTTP request in two pieces gives the same outcome as reading it at once:
  when the parser waits for more on a prefix and goes on when the rest has come, it ends as on the
  whole.\<close>

lemma http_segmented:
  assumes "segs \<noteq> []" and "has_room b (length (concat segs))"
    and "read_fd (Pending (concat segs)) b = Inr (n, B)"
  shows "http_parse_request c B =
      and_then (feed http_parse_request c b segs) (\<lambda>x. Inr (at_rindex B x)) \<and>
    http_parse_response c B =
      and_then (feed http_parse_response c b segs) (\<lambda>x. Inr (at_rindex B x))"
proof -
  have B: "B = fill (concat segs) b" using assms(2,3) read_fd_fill by auto
  show ?thesis
    unfolding B
    using feed_regular [OF http_request_regular http_parse_request_safe assms(1,2), of c]
      feed_regular [OF http_response_regular http_parse_response_safe assms(1,2), of c] by simp
qed

end
