(* ===== verification/Server_Pieces.thy ===== *)
theory Server_Pieces
  imports Server_IO Http_Resume
begin

text \<open>
  A request that reaches the server in pieces. Each piece is an event of its own: it is read, the
  protocols of the connection are asked, and the parser goes on where it stopped. For a request
  of the HTTP protocol the server ends in the very state it ends in when all bytes come at once,
  wherever the pieces end.
\<close>

section \<open>What decides the protocol\<close>

lemma claims_prefix:
  assumes "proto_need p \<le> length u"
  shows "proto_claims p (u @ v) = proto_claims p u"
proof (cases p)
  case HTTPProtocol
  have "take (length (HTTPMethod_Name i)) (u @ v) = take (length (HTTPMethod_Name i)) u" if "i < HTTPMethod_MAX" for i
    using HTTPMethod_Name_short [OF that] assms HTTPProtocol by simp
  then have "(\<exists>i \<in> set [HTTPMethod_MIN..<HTTPMethod_MAX]. take (length (HTTPMethod_Name i)) (u @ v) = HTTPMethod_Name i) \<longleftrightarrow>
      (\<exists>i \<in> set [HTTPMethod_MIN..<HTTPMethod_MAX]. take (length (HTTPMethod_Name i)) u = HTTPMethod_Name i)"
    by (intro bex_cong) (auto simp del: take_append)
  then show ?thesis using HTTPProtocol by (simp del: take_append)
qed (use assms in simp)

lemma received_unread:
  assumes "received b B"
  shows "\<exists>v. unread B = unread b @ v"
proof -
  have "unread (trimmed b) = unread b"
    using assms by (simp add: received_def trimmed_def unread_def buf_ok_def drop_take)
  then show ?thesis using grown_unread [OF trimmed_grown [OF assms]] by metis
qed

section \<open>When the HTTP parser is done\<close>

definition body_bound :: "http_ctx \<Rightarrow> bool" where
  "body_bound c \<longleftrightarrow> - (2 ^ 31) \<le> body_size c"

text \<open>A context that waits for more.\<close>

definition live :: "http_ctx \<Rightarrow> bool" where
  "live c \<longleftrightarrow> 0 \<le> h_stage c \<and> h_stage c \<le> 2 \<and> body_bound c"

definition body_seen :: "http_ctx \<Rightarrow> buffer \<Rightarrow> bool" where
  "body_seen c b \<longleftrightarrow> h_stage c = 3 \<and> body_bound c \<and>
     payload_view c = view_at (rindex b) (to_size (body_size c)) \<and> body_size c \<le> to_int32 (int (readable b))"

lemma live_new [simp]: "live new_http_ctx"
  by (simp add: live_def body_bound_def new_http_ctx_def)

lemma stoi_range: "stoi s = Inr v \<Longrightarrow> - (2 ^ 31) \<le> v \<and> v < 2 ^ 31"
  by (auto simp: stoi_def Let_def split: if_splits)

lemma store_header_body: "store_header k v c = Inr c' \<Longrightarrow> body_bound c \<Longrightarrow> body_bound c'"
  by (auto simp: body_bound_def store_header_def and_then_Inr_iff Let_def dest: stoi_range split: if_splits)

lemma header_step_body:
  "header_step c b = Inr (r, c', b') \<Longrightarrow> body_bound c \<Longrightarrow> body_bound c' \<and> r \<noteq> Some ParseProtocol_Success"
  by (auto simp: header_step_def Let_def and_then_Inr_iff dest: store_header_body split: if_splits option.splits)

lemma parse_headers_body:
  "parse_headers c b = Inr (st, c', b') \<Longrightarrow> body_bound c \<Longrightarrow> body_bound c' \<and> st \<noteq> ParseProtocol_Success"
proof (induction c b rule: parse_headers.induct)
  case (1 c b)
  from "1.prems" obtain r d e where s: "header_step c b = Inr (r, d, e)"
    by (subst (asm) parse_headers.simps) (auto simp: and_then_Inr_iff)
  show ?case
    using "1.prems" s header_step_body [OF s] "1.IH" [OF s refl refl]
    by (subst (asm) parse_headers.simps) (auto split: option.splits)
qed

lemma body_bound_simps [simp]:
  "body_bound (c\<lparr>h_stage := k\<rparr>) = body_bound c" "body_bound (c\<lparr>http_url := u\<rparr>) = body_bound c"
  "body_bound (c\<lparr>http_version := u\<rparr>) = body_bound c" "body_bound (c\<lparr>request_line := u\<rparr>) = body_bound c"
  "body_bound (c\<lparr>service := x\<rparr>) = body_bound c" "body_bound (c\<lparr>method_name := x\<rparr>) = body_bound c"
  "body_bound (c\<lparr>http_method := m\<rparr>) = body_bound c"
  by (simp_all add: body_bound_def)

abbreviation undone :: "http_ctx \<Rightarrow> (parse_status \<times> http_ctx \<times> buffer) result \<Rightarrow> bool" where
  "undone c r \<equiv> ensures r (\<lambda>(st, c', b'). body_bound c' = body_bound c \<and> st \<noteq> ParseProtocol_Success)"

lemma parse_service_method_body: "parse_service_method c b off t = Inr c' \<Longrightarrow> body_bound c' = body_bound c"
  by (auto simp: parse_service_method_def and_then_Inr_iff split: option.splits)

lemma parse_url_body: "undone c (parse_url c b off n)"
  unfolding parse_url_def parse_version_def Let_def
  by (intro ensures_intros) (auto dest: parse_service_method_body)

lemma undone_from: "undone d r \<Longrightarrow> body_bound d = body_bound c \<Longrightarrow> undone c r"
  by (auto elim: ensures_mono)

lemma parse_request_line_undone: "undone c (parse_request_line c b)"
  unfolding parse_request_line_def Let_def
  by (intro ensures_intros undone_from [OF parse_url_body]) (auto split: option.splits)

lemma parse_request_line_body:
  "parse_request_line c b = Inr (st, c', b') \<Longrightarrow> body_bound c' = body_bound c \<and> st \<noteq> ParseProtocol_Success"
  using ensuresD [OF parse_request_line_undone] by blast

lemma http_step_live:
  assumes "http_step parse_request_line c b = Inr (r, c', b')" and "live c \<or> body_seen c b"
  shows "case r of None \<Rightarrow> live c' \<or> body_seen c' b' | Some st \<Rightarrow>
    (st = ParseProtocol_NoEnoughData \<longrightarrow> live c') \<and> (st = ParseProtocol_Success \<longrightarrow> body_seen c' b')"
proof -
  consider "live c" "h_stage c = 0" | "live c" "h_stage c = 1" | "live c" "h_stage c = 2" | "body_seen c b"
    using assms(2) by (fastforce simp: live_def)
  then show ?thesis
  proof cases
    case 3
    with assms(1) show ?thesis
      by (auto simp: http_step_def http_advance_def and_then_Inr_iff parse_body_def live_def body_seen_def body_bound_def
          split: if_splits)
  next
    case 4
    with assms(1) show ?thesis by (auto simp: http_step_def body_seen_def)
  qed (use assms(1) in \<open>auto simp: http_step_def http_advance_def and_then_Inr_iff live_def
          dest: parse_request_line_body parse_request_line_stage parse_headers_body parse_headers_stage
          split: if_splits option.splits prod.splits\<close>)
qed

lemma http_request_live:
  "http_parse_request c b = Inr (st, c', b') \<Longrightarrow> live c \<or> body_seen c b \<Longrightarrow>
    (st = ParseProtocol_NoEnoughData \<longrightarrow> live c') \<and> (st = ParseProtocol_Success \<longrightarrow> body_seen c' b')"
proof (induction c b rule: http_parse_request.induct)
  case (1 c b)
  from "1.prems" obtain r d e where s: "http_step parse_request_line c b = Inr (r, d, e)"
    by (subst (asm) http_parse_request.simps) (auto simp: and_then_Inr_iff)
  show ?case
    using "1.prems" s http_step_live [OF s "1.prems"(2)] "1.IH" [OF s refl refl]
    by (subst (asm) http_parse_request.simps) (auto split: option.splits)
qed

text \<open>A run that succeeds has seen the whole body: on a buffer with more bytes behind it the same view
  would end before them.\<close>

lemma success_sees_all:
  assumes "http_parse_request c b = Inr (ParseProtocol_Success, c', b')" and "live c" and ok: "buf_ok b"
    and r: "received b B" and pl: "view_str (B\<lparr>rindex := rindex b'\<rparr>) (payload_view c') = Inr pl"
      "unread (B\<lparr>rindex := rindex b'\<rparr>) = pl" "length pl < 2 ^ 31"
  shows "windex B = windex b"
proof -
  have seen: "body_seen c' b'" using http_request_live [OF assms(1)] assms(2) by simp
  have b': "buf_ok b'" "windex b' = windex b"
    using http_parse_request_safe [OF ok, of c] assms(1) by (simp_all add: safe_result_def)
  have B: "windex b \<le> windex B" "windex B \<le> length (data B)" "windex B < 2 ^ 31" using r by (auto simp: received_def buf_ok_def)
  let ?n = "body_size c'" and ?r = "rindex b'"
  have rr: "?r \<le> windex b" using b' by (simp add: buf_ok_def)
  have len: "length pl = windex B - ?r"
    using arg_cong [OF pl(2), of length] B rr by (simp add: unread_def)
  have rd: "int (readable b') = int (windex b - ?r)" "windex b - ?r < 2 ^ 31"
    using b' B by (simp_all add: readable_def sz_sub_small buf_ok_def)
  then have n: "- (2 ^ 31) \<le> ?n" "?n \<le> int (windex b - ?r)"
    using seen by (simp_all add: body_seen_def body_bound_def to_int32_small)
  have v: "payload_view c' = view_at ?r (to_size ?n)" using seen by (simp add: body_seen_def)
  have sz: "sz_sub (sz_add r m) r = m" if "m < 2 ^ 64" for r m
    using that by (simp add: sz_sub_def sz_add_def zmod_int mod_simps)
  have "to_size ?n < 2 ^ 64" by (simp add: to_size_def nat_less_iff)
  then have "view_size (payload_view c') = to_size ?n" by (simp add: v view_size_def view_at_def sz)
  with pl(1) have sz: "length pl = to_size ?n"
    by (auto simp: v view_str_def mem_read_def in_bounds_def view_at_def split: if_splits)
  have "0 \<le> ?n"
  proof (rule ccontr)
    assume "\<not> 0 \<le> ?n"
    have "(?n + 2 ^ 64) mod 2 ^ 64 = ?n + 2 ^ 64"
      by (rule mod_pos_pos_trivial) (use n(1) \<open>\<not> 0 \<le> ?n\<close> in simp_all)
    then have "?n mod 2 ^ 64 = ?n + 2 ^ 64" by simp
    with n pl(3) sz show False by (simp add: to_size_def)
  qed
  then have "to_size ?n = nat ?n" using n rd(2) by (simp add: to_size_def)
  with sz len n(2) B(1) rr show ?thesis by linarith
qed

section \<open>Going on where the last piece ended\<close>

text \<open>The state of a connection between two pieces.\<close>

definition resumes :: "protocol list \<Rightarrow> nat \<Rightarrow> any_ctx option \<Rightarrow> bool" where
  "resumes ps i x \<longleftrightarrow> x = None \<or> (\<exists>c. x = Some (HttpCtx c) \<and> live c \<and> i < length ps \<and> ps ! i = HTTPProtocol)"

text \<open>The outcome when all bytes are there: a request with payload \<open>pl\<close>, and nothing behind it.\<close>

definition outcome_http ::
  "nat \<Rightarrow> http_ctx \<Rightarrow> buffer \<Rightarrow> byte list \<Rightarrow> (nat \<times> parse_status option \<times> any_ctx option \<times> buffer) result \<Rightarrow> bool"
where
  "outcome_http j c b pl r \<longleftrightarrow> r = Inr (j, Some ParseProtocol_Success, Some (HttpCtx c), b) \<and>
     view_str b (payload_view c) = Inr pl \<and> unread b = pl \<and> length pl < 2 ^ 31"

lemma dispatch_http:
  assumes "i < length ps" and "ps ! i = HTTPProtocol"
  shows "dispatch protocol_parse ps i (Some (HttpCtx c)) b =
    and_then (http_parse_request c b) (\<lambda>(st, c', b'). Inr (i, Some st, Some (HttpCtx c'), b'))"
proof -
  have "proto_owner (HttpCtx c) = ps ! i" using assms(2) by simp
  from family.settled [OF assms(1) this] assms(2) show ?thesis
    by (cases "http_parse_request c b") (auto simp: http_protocol_parse_def with_ctx_def lift_ctx_def)
qed

lemma resume_http:
  assumes i: "i < length ps" "ps ! i = HTTPProtocol" and c: "live c" and r: "received b B" "windex b < windex B"
    and D: "outcome_http j c' B' pl (dispatch protocol_parse ps i (Some (HttpCtx c)) B)"
  shows "\<exists>c2 k. dispatch protocol_parse ps i (Some (HttpCtx c)) b =
      Inr (i, Some ParseProtocol_NoEnoughData, Some (HttpCtx c2), b\<lparr>rindex := k\<rparr>) \<and> live c2 \<and> buf_ok (b\<lparr>rindex := k\<rparr>) \<and>
    outcome_http j c' B' pl (dispatch protocol_parse ps i (Some (HttpCtx c2)) (B\<lparr>rindex := k\<rparr>))"
proof -
  note reg = regular_received [OF http_request_regular http_parse_request_safe r(1), of c]
  have whole: "http_parse_request c B = Inr (ParseProtocol_Success, c', B')" "j = i"
    using D by (auto simp: outcome_http_def dispatch_http [OF i] and_then_Inr_iff)
  have ok: "buf_ok b" using r(1) by (simp add: received_def)
  show ?thesis
  proof (cases "\<exists>c2 b2. http_parse_request c b = Inr (ParseProtocol_NoEnoughData, c2, b2)")
    case False
    with reg(1) whole(1) obtain b2 where b2: "http_parse_request c b = Inr (ParseProtocol_Success, c', b2)"
      "B' = B\<lparr>rindex := rindex b2\<rparr>" by (cases "http_parse_request c b") (auto simp: at_rindex_def)
    from success_sees_all [OF b2(1) c ok r(1)] b2(2) D r(2) show ?thesis
      by (simp add: outcome_http_def)
  next
    case True
    then obtain c2 b2 where n: "http_parse_request c b = Inr (ParseProtocol_NoEnoughData, c2, b2)" by blast
    have b2: "b2 = b\<lparr>rindex := rindex b2\<rparr>" using reg(3) n by (simp add: at_rindex_def)
    have "buf_ok b2" using http_parse_request_safe [OF ok, of c] n by (simp add: safe_result_def)
    moreover have "live c2" using http_request_live [OF n] c by simp
    moreover have "dispatch protocol_parse ps i (Some (HttpCtx c2)) (B\<lparr>rindex := rindex b2\<rparr>) =
        dispatch protocol_parse ps i (Some (HttpCtx c)) B"
      using reg(2) [OF _ _ n] by (simp add: dispatch_http [OF i])
    moreover have "dispatch protocol_parse ps i (Some (HttpCtx c)) b =
        Inr (i, Some ParseProtocol_NoEnoughData, Some (HttpCtx c2), b\<lparr>rindex := rindex b2\<rparr>)"
      using n b2 by (simp add: dispatch_http [OF i])
    ultimately show ?thesis using b2 D by metis
  qed
qed

lemma resume_none:
  assumes r: "received b B" "windex b < windex B"
    and D: "outcome_http j c' B' pl (dispatch protocol_parse ps i None B)"
  shows "\<exists>i2 x2 k. dispatch protocol_parse ps i None b =
      Inr (i2, Some ParseProtocol_NoEnoughData, x2, b\<lparr>rindex := k\<rparr>) \<and> i2 < length ps \<and> resumes ps i2 x2 \<and>
    buf_ok (b\<lparr>rindex := k\<rparr>) \<and>
    outcome_http j c' B' pl (dispatch protocol_parse ps i2 x2 (B\<lparr>rindex := k\<rparr>))"
  using D
proof (induction "length ps - i" arbitrary: i)
  case 0
  then show ?case by (simp add: dispatch.simps outcome_http_def)
next
  case (Suc n)
  then have i: "i < length ps" by simp
  have ok: "buf_ok b" "buf_ok B" "rindex B = rindex b" using r(1) by (simp_all add: received_def)
  from received_unread [OF r(1)] obtain v where u: "unread B = unread b @ v" by blast
  let ?p = "ps ! i"
  show ?case
  proof (cases "length (unread b) < proto_need ?p")
    case True
    with family.short [OF ok(1), of ?p] have "dispatch protocol_parse ps i None b =
        Inr (i, Some ParseProtocol_NoEnoughData, None, b)" using i by (simp add: dispatch.simps)
    moreover have "outcome_http j c' B' pl (dispatch protocol_parse ps i None (B\<lparr>rindex := rindex b\<rparr>))"
      using Suc.prems by (simp flip: ok(3))
    ultimately show ?thesis
      using i ok
      by - (rule exI [of _ i], rule exI [of _ None], rule exI [of _ "rindex b"], simp add: resumes_def)
  next
    case False
    then have need: "proto_need ?p \<le> length (unread b)" "proto_need ?p \<le> length (unread B)" using u by simp_all
    have claims: "proto_claims ?p (unread B) = proto_claims ?p (unread b)" using claims_prefix [OF need(1)] u by simp
    show ?thesis
    proof (cases "proto_claims ?p (unread b)")
      case False
      with family.decline [OF ok(1) need(1)] family.decline [OF ok(2) need(2)] claims i
      have skip: "dispatch protocol_parse ps i None b = dispatch protocol_parse ps (Suc i) None b"
        "dispatch protocol_parse ps i None B = dispatch protocol_parse ps (Suc i) None B"
        by (simp_all add: dispatch.simps [of _ _ i])
      have "n = length ps - Suc i" using Suc.hyps(2) by simp
      from Suc.hyps(1) [OF this] Suc.prems skip show ?thesis by simp
    next
      case True
      with family.accept [OF ok(1) need(1)] family.accept [OF ok(2) need(2)] claims i
      have take: "dispatch protocol_parse ps i None b = dispatch protocol_parse ps i (Some (new_context ?p)) b"
        "dispatch protocol_parse ps i None B = dispatch protocol_parse ps i (Some (new_context ?p)) B"
        by (simp_all add: dispatch.simps)
      have "?p = HTTPProtocol"
      proof (rule ccontr)
        assume "?p \<noteq> HTTPProtocol"
        then have p: "?p = SimpleProtocol" by (cases ?p) simp_all
        have "proto_owner (new_context ?p) = ?p" by (rule family.fresh)
        from family.settled [OF i this, of B] family.kept [OF this, of B] p Suc.prems take(2) show False
          by (auto simp: outcome_http_def and_then_Inr_iff)
      qed
      with resume_http [OF i _ live_new r] Suc.prems take show ?thesis
        using i by (fastforce simp: resumes_def)
    qed
  qed
qed

section \<open>The pieces as events\<close>

text \<open>Each piece with the time it is handled.\<close>

fun receive_pieces :: "app \<Rightarrow> nat \<Rightarrow> (timestamp \<times> byte list) list \<Rightarrow> world \<Rightarrow> world result" where
  "receive_pieces app p [] w = Inr w"
| "receive_pieces app p ((now, s) # ss) w =
     and_then (conn_handle_events app now p EPOLLIN (Pending s) (Room 0) (Room 0) w) (receive_pieces app p ss)"

abbreviation bytes_of :: "(timestamp \<times> byte list) list \<Rightarrow> byte list" where
  "bytes_of segs \<equiv> concat (map snd segs)"

lemma put_put [simp]: "put_conn p d (put_conn p c w) = put_conn p d w"
  by (simp add: put_conn_def)

lemma piece_event:
  assumes "conns w p = Some c" and "data_read_cb c = Some DataReadCb" and "s \<noteq> []" and "has_room (rbuf c) (length s)"
  shows "conn_handle_events app now p EPOLLIN (Pending s) wa1 wa2 w =
    data_read_callback app now p (put_conn p (c\<lparr>rbuf := fill s (rbuf c)\<rparr>) w)"
  using assms read_fd_fill [OF assms(4)]
  by (simp add: conn_handle_events_def tcp_handle_events_def run_callback_def)

lemma data_read_waits:
  assumes "dispatch protocol_parse (protocols w) (proto_idx c) (ctx c) b =
      Inr (i, Some ParseProtocol_NoEnoughData, x, b')" and "i < length (protocols w)"
  shows "data_read_callback app now p (put_conn p (c\<lparr>rbuf := b\<rparr>) w) =
    Inr (put_conn p (c\<lparr>proto_idx := i, ctx := x, rbuf := b'\<rparr>) w)"
  using assms by (simp add: data_read_callback_def)

lemma data_read_same:
  assumes "dispatch protocol_parse (protocols w) (proto_idx c) (ctx c) (rbuf c) =
      dispatch protocol_parse (protocols w) (proto_idx d) (ctx d) (rbuf d)"
    and "\<And>i x b. c\<lparr>proto_idx := i, ctx := x, rbuf := b\<rparr> = d\<lparr>proto_idx := i, ctx := x, rbuf := b\<rparr>"
  shows "data_read_callback app now p (put_conn p c w) = data_read_callback app now p (put_conn p d w)"
  using assms by (simp add: data_read_callback_def)

lemma pieces_gen:
  assumes "conns w p = Some c" and "data_read_cb c = Some DataReadCb"
    and "segs \<noteq> []" and "\<forall>s \<in> set segs. snd s \<noteq> []" and "has_room (rbuf c) (length (bytes_of segs))"
    and "resumes (protocols w) (proto_idx c) (ctx c)"
    and "outcome_http j c' B' pl (dispatch protocol_parse (protocols w) (proto_idx c) (ctx c) (fill (bytes_of segs) (rbuf c)))"
  shows "receive_pieces app p segs w =
    conn_handle_events app (fst (last segs)) p EPOLLIN (Pending (bytes_of segs)) wa1 wa2 w"
  using assms
proof (induction segs arbitrary: w c)
  case (Cons seg ss)
  obtain now s where seg: "seg = (now, s)" by (cases seg)
  let ?b = "fill s (rbuf c)" and ?t = "bytes_of ss"
  have room: "has_room (rbuf c) (length s + length ?t)" using Cons.prems(5) seg by simp
  then have room1: "has_room ?b (length ?t)" "has_room (rbuf c) (length s)"
    by (rule fill_room, use room in \<open>simp add: has_room_def\<close>)
  have s: "s \<noteq> []" using Cons.prems(4) seg by simp
  note first = piece_event [OF Cons.prems(1,2) s room1(2)]
  show ?case
  proof (cases ss)
    case Nil
    then show ?thesis using first seg by (simp add: and_then_def split: sum.splits)
  next
    case (Cons s2 ss2)
    then have t: "?t \<noteq> []" "ss \<noteq> []" using Cons.prems(4) by simp_all
    have B: "fill ?t ?b = fill (s @ ?t) (rbuf c)" by (rule fill_fill [OF room])
    have r: "received ?b (fill ?t ?b)" by (rule fill_received [OF room1(1)])
    have w: "windex ?b < windex (fill ?t ?b)" using t by (simp add: fill_def)
    have D: "outcome_http j c' B' pl (dispatch protocol_parse (protocols w) (proto_idx c) (ctx c) (fill ?t ?b))"
      using Cons.prems(7) B seg by simp
    have "\<exists>i2 x2 k. dispatch protocol_parse (protocols w) (proto_idx c) (ctx c) ?b =
        Inr (i2, Some ParseProtocol_NoEnoughData, x2, ?b\<lparr>rindex := k\<rparr>) \<and> i2 < length (protocols w) \<and>
        resumes (protocols w) i2 x2 \<and> buf_ok (?b\<lparr>rindex := k\<rparr>) \<and>
      outcome_http j c' B' pl (dispatch protocol_parse (protocols w) i2 x2 ((fill ?t ?b)\<lparr>rindex := k\<rparr>))"
    proof (cases "ctx c")
      case None
      with resume_none [OF r w] D show ?thesis by simp
    next
      case (Some x)
      with Cons.prems(6) obtain d where d: "x = HttpCtx d" "live d" "proto_idx c < length (protocols w)"
        "protocols w ! proto_idx c = HTTPProtocol" by (auto simp: resumes_def)
      from resume_http [OF d(3,4,2) r w] D Some d show ?thesis by (fastforce simp: resumes_def)
    qed
    then obtain i2 x2 k where n: "dispatch protocol_parse (protocols w) (proto_idx c) (ctx c) ?b =
        Inr (i2, Some ParseProtocol_NoEnoughData, x2, ?b\<lparr>rindex := k\<rparr>)" "i2 < length (protocols w)"
      "resumes (protocols w) i2 x2" "buf_ok (?b\<lparr>rindex := k\<rparr>)"
      "outcome_http j c' B' pl (dispatch protocol_parse (protocols w) i2 x2 ((fill ?t ?b)\<lparr>rindex := k\<rparr>))" by blast
    let ?d = "c\<lparr>proto_idx := i2, ctx := x2, rbuf := ?b\<lparr>rindex := k\<rparr>\<rparr>"
    let ?w = "put_conn p ?d w"
    have room2: "has_room (rbuf ?d) (length ?t)" using room1(1) n(4) by (simp add: has_room_def)
    have moved: "fill ?t (rbuf ?d) = (fill ?t ?b)\<lparr>rindex := k\<rparr>" by (simp add: fill_moved)
    have "receive_pieces app p ss ?w = conn_handle_events app (fst (last ss)) p EPOLLIN (Pending ?t) wa1 wa2 ?w"
      by (rule Cons.IH [of ?w ?d]) (use Cons.prems n room2 moved t in simp_all)
    also have "\<dots> = data_read_callback app (fst (last ss)) p (put_conn p (?d\<lparr>rbuf := fill ?t (rbuf ?d)\<rparr>) ?w)"
      by (rule piece_event) (use Cons.prems t room2 in simp_all)
    also have "\<dots> = data_read_callback app (fst (last ss)) p (put_conn p (c\<lparr>rbuf := fill (s @ ?t) (rbuf c)\<rparr>) w)"
      using D n(5) B moved unfolding put_put by (intro data_read_same) (simp_all add: outcome_http_def)
    also have "\<dots> = conn_handle_events app (fst (last ss)) p EPOLLIN (Pending (s @ ?t)) wa1 wa2 w"
      by (rule piece_event [symmetric]) (use Cons.prems s seg in simp_all)
    finally show ?thesis
      using first data_read_waits [OF n(1,2)] seg t by simp
  qed
qed simp

section \<open>A request in pieces\<close>

lemma http_outcome:
  assumes ok: "buf_ok b" and u: "unread b = request_wire HTTPProtocol ct svc mth pl"
    and j: "i \<le> j" "j < length ps" "ps ! j = HTTPProtocol" "\<forall>k. i \<le> k \<and> k < j \<longrightarrow> ps ! k \<noteq> HTTPProtocol"
    and path: "path_ok HTTPProtocol svc mth" and fits: "message_fits svc mth pl"
  shows "\<exists>c b'. outcome_http j c b' pl (dispatch protocol_parse ps i None b)"
proof -
  have d: "dispatch protocol_parse ps i None b =
    and_then (protocol_parse HTTPProtocol (Some (Some (new_context HTTPProtocol))) b)
      (\<lambda>(st, c', b'). Inr (j, Some st, c', b'))"
    using family.finds [OF ok j(1,2)] wire_claims [of _ HTTPProtocol ct svc mth pl] u j(3,4)
    by (simp del: proto_claims.simps proto_need.simps)
  have "unread b = http_request_wire ct svc mth pl @ []" using u by simp
  from http_request_parse [OF ok this] path fits
  obtain x e where "http_parse_request new_http_ctx b = Inr (ParseProtocol_Success, x, e)"
    "view_str e (payload_view x) = Inr pl" "unread e = pl"
    by (auto simp: message_fits_def)
  with d fits show ?thesis
    by (auto simp: protocol_parse_defs outcome_http_def message_fits_def)
qed


end
