(* ===== verification/Buffer_Queue.thy ===== *)
theory Buffer_Queue
  imports Buffers
begin

text \<open>
  \<^verbatim>\<open>Buffer\<close> as a whole: any sequence of its operations acts on the unread bytes as on a plain
  queue of bytes, with \<^verbatim>\<open>retrieve\<close> called for what is there, as its callers do.
\<close>

section \<open>Sequences of operations\<close>

datatype buffer_op = Receive "byte list" | Append "byte list" | AppendInt int | TakeOff nat | Clear

text \<open>An operation on a buffer, with the number of bytes it moved.\<close>

fun buffer_do :: "buffer_op \<Rightarrow> buffer \<Rightarrow> (nat \<times> buffer) result" where
  "buffer_do (Receive bs) b = and_then (read_fd (Pending bs) b) (\<lambda>(n, b'). Inr (nat n, b'))"
| "buffer_do (Append bs) b = and_then (append_mem bs b) (\<lambda>b'. Inr (length bs, b'))"
| "buffer_do (AppendInt z) b = and_then (append_int32 z b) (\<lambda>b'. Inr (4, b'))"
| "buffer_do (TakeOff k) b = (let n = min k (readable b) in Inr (n, retrieve n b))"
| "buffer_do Clear b = Inr (0, clear b)"

fun buffer_run :: "buffer_op list \<Rightarrow> buffer \<Rightarrow> (nat list \<times> buffer) result" where
  "buffer_run [] b = Inr ([], b)"
| "buffer_run (op # ops) b =
     and_then (buffer_do op b) (\<lambda>(n, b1).
     and_then (buffer_run ops b1) (\<lambda>(ns, b2). Inr (n # ns, b2)))"

text \<open>The specification: the same operation on a queue. How many of the bytes that have come are
  received at once is left open, but some are.\<close>

fun queue_do :: "buffer_op \<Rightarrow> nat \<Rightarrow> byte list \<Rightarrow> byte list" where
  "queue_do (Receive bs) n q = q @ take n bs"
| "queue_do (Append bs) n q = q @ bs"
| "queue_do (AppendInt z) n q = q @ be_bytes (word_of_int z)"
| "queue_do (TakeOff k) n q = drop k q"
| "queue_do Clear n q = []"

fun queue_run :: "buffer_op list \<Rightarrow> nat list \<Rightarrow> byte list \<Rightarrow> byte list" where
  "queue_run (op # ops) (n # ns) q = queue_run ops ns (queue_do op n q)"
| "queue_run _ _ q = q"

fun moved_ok :: "buffer_op \<Rightarrow> nat \<Rightarrow> bool" where
  "moved_ok (Receive bs) n \<longleftrightarrow> n \<le> length bs \<and> (n = 0 \<longleftrightarrow> bs = [])"
| "moved_ok _ n \<longleftrightarrow> True"

fun op_size :: "buffer_op \<Rightarrow> nat" where
  "op_size (Receive bs) = length bs"
| "op_size (Append bs) = length bs"
| "op_size (AppendInt z) = 4"
| "op_size _ = 0"

fun append_size :: "buffer_op \<Rightarrow> nat" where
  "append_size (Append bs) = length bs"
| "append_size _ = 0"

section \<open>One operation\<close>

text \<open>Room for \<open>n\<close> more bytes, in appends of the initial size at most.\<close>

definition roomy :: "nat \<Rightarrow> buffer \<Rightarrow> bool" where
  "roomy n b \<longleftrightarrow> buf_ok b \<and> InitialBufferSize \<le> length (data b) \<and> length (data b) < 2 ^ 29 \<and>
     windex b + n < 2 ^ 28"

lemma read_fd_grows:
  assumes "read_fd (Pending bs) b = Inr (int n, c)" and "buf_ok b" and "length (data b) < 2 ^ 31"
    and "n \<le> length bs"
  shows "windex c \<le> windex b + length bs \<and> length (data b) \<le> length (data c) \<and>
    length (data c) \<le> max (length (data b)) (2 * windex b)"
proof -
  from assms(1) obtain d where d: "(if writeable b = 0 then resize_double b else Inr b) = Inr d"
    "in_bounds d (windex d) n"
    "c = d\<lparr>data := take (windex d) (data d) @ take n bs @ drop (windex d + n) (data d),
      windex := sz_add (windex d) n\<rparr>"
    by (auto simp: read_fd_def and_then_Inr_iff Let_def split: if_splits)
  have d': "buf_ok d" "windex d = windex b" "length (data b) \<le> length (data d)"
    "length (data d) \<le> max (length (data b)) (2 * windex b)"
    using d(1) assms(2) by (auto simp: resize_double_def buf_ok_def writeable_ok split: if_splits)
  have n: "length (take n bs) = n" using assms(4) by simp
  have "windex d + n \<le> length (data d)" using d(2) by (simp add: in_bounds_def)
  from store_ok [OF d'(1), of "take n bs", unfolded n, OF this] d(3) d' assms(4) show ?thesis by simp
qed

lemma clear_buf_ok: "buf_ok b \<Longrightarrow> buf_ok (clear b) \<and> unread (clear b) = []"
  by (simp add: buf_ok_def clear_def unread_def)

lemma append_roomy:
  assumes "roomy (length m + n) b" and "length m \<le> InitialBufferSize"
  shows "\<exists>c. append_mem m b = Inr c \<and> roomy n c \<and> unread c = unread b @ m"
proof -
  have b: "buf_ok b" "length m \<le> length (data b)" "2 * length (data b) < 2 ^ 31"
    "length (data b) < 2 ^ 31" "length m < 2 ^ 31"
    using assms by (auto simp: roomy_def InitialBufferSize_def)
  from append_mem_ok [OF b(1-3)] obtain c where c: "append_mem m b = Inr c" "unread c = unread b @ m" by blast
  from append_mem_bound [OF c(1) b(1,4,5)] assms(1) have "roomy n c" by (auto simp: roomy_def)
  with c show ?thesis by blast
qed

lemma buffer_step:
  assumes r: "roomy (op_size op + n) b" and a: "append_size op \<le> InitialBufferSize"
  shows "\<exists>k c. buffer_do op b = Inr (k, c) \<and> roomy n c \<and> moved_ok op k \<and>
    unread c = queue_do op k (unread b)"
proof (cases op)
  case (Receive bs)
  have b: "buf_ok b" "0 < length (data b)" "2 * length (data b) \<le> max_object" "length (data b) < 2 ^ 31"
    using r by (auto simp: roomy_def InitialBufferSize_def)
  from read_fd_ok [OF b(1-3)] obtain k c where c: "read_fd (Pending bs) b = Inr (int k, c)" "buf_ok c"
    "unread c = unread b @ take k bs" "k \<le> length bs" "k = 0 \<longleftrightarrow> bs = []" by blast
  from read_fd_grows [OF c(1) b(1,4) c(4)] r c(2) Receive have "roomy n c" by (auto simp: roomy_def)
  with c Receive show ?thesis by simp
next
  case (Append bs)
  with append_roomy [of bs n b] r a show ?thesis by auto
next
  case (AppendInt z)
  with append_roomy [of "be_bytes (word_of_int z)" n b] r show ?thesis
    by (auto simp: append_int32_def InitialBufferSize_def)
next
  case (TakeOff k)
  have ok: "buf_ok b" using r by (simp add: roomy_def)
  let ?n = "min k (readable b)"
  have n: "?n \<le> length (unread b)" using ok by (simp add: readable_unread del: length_unread)
  have "drop ?n (unread b) = drop k (unread b)"
    using ok by (simp add: readable_unread min_def del: length_unread)
  with retrieve_ok [OF ok n] r TakeOff show ?thesis by (simp add: Let_def roomy_def)
next
  case Clear
  have ok: "buf_ok b" using r by (simp add: roomy_def)
  have "windex (clear b) = 0" "data (clear b) = data b" by (simp_all add: clear_def)
  with r Clear clear_buf_ok [OF ok] show ?thesis by (simp add: roomy_def)
qed

section \<open>Refinement\<close>


end
