(* ===== verification/Long_Connections.thy ===== *)
theory Long_Connections
  imports Server_IO
begin

text \<open>
  A connection that is kept (\<^verbatim>\<open>ConnType_Single\<close>) serves one call after the other.
\<close>

text \<open>The events of one call: the request arrives, the loop runs the queued \<^verbatim>\<open>update_channel\<close>, and the
  socket takes up to \<open>k\<close> bytes in a write.\<close>

definition one_call :: "app \<Rightarrow> timestamp \<Rightarrow> nat \<Rightarrow> nat \<Rightarrow> nat \<Rightarrow> byte list \<Rightarrow> world \<Rightarrow> world result" where
  "one_call app now i p k req w =
     and_then (conn_handle_events app now p EPOLLIN (Pending req) (Room 0) (Room 0) w) (\<lambda>w1.
     and_then (exec_task (UpdateChannel i p) w1)
       (conn_handle_events app now p EPOLLOUT (Pending []) (Room k) (Room k)))"

fun all_calls :: "app \<Rightarrow> timestamp \<Rightarrow> nat \<Rightarrow> nat \<Rightarrow> nat \<Rightarrow> byte list list \<Rightarrow> world \<Rightarrow> world result" where
  "all_calls app now i p k [] w = Inr w"
| "all_calls app now i p k (r # rs) w = and_then (one_call app now i p k r w) (all_calls app now i p k rs)"

text \<open>A call by service, method and payload, with what the application answers.\<close>

type_synonym call = "string \<times> string \<times> byte list \<times> byte list"

definition request_of :: "protocol \<Rightarrow> conn_type \<Rightarrow> call \<Rightarrow> byte list" where
  "request_of pr ct = (\<lambda>(svc, mth, pl, out). request_wire pr ct svc mth pl)"

definition response_of :: "protocol \<Rightarrow> conn_type \<Rightarrow> call \<Rightarrow> byte list" where
  "response_of pr ct = (\<lambda>(svc, mth, pl, out).
     response_wire pr (seen_type pr ConnType_Short ct) RpcStatus_OK out)"

definition good_call :: "app \<Rightarrow> world \<Rightarrow> protocol \<Rightarrow> conn_type \<Rightarrow> nat \<Rightarrow> nat \<Rightarrow> call \<Rightarrow> bool" where
  "good_call app w pr ct n k = (\<lambda>(svc, mth, pl, out).
     path_ok pr svc mth \<and> message_fits svc mth pl \<and> length out < 2 ^ 31 \<and>
     length (request_wire pr ct svc mth pl) \<le> n \<and>
     length (response_wire pr (seen_type pr ConnType_Short ct) RpcStatus_OK out) \<le> k \<and>
     (case find_service_method svc mth w of None \<Rightarrow> False | Some (s, m) \<Rightarrow> app s m pl = Replies (Some out)))"

lemma good_call_same: "services w' = services w \<Longrightarrow> good_call app w' pr ct n k x = good_call app w pr ct n k x"
  by (simp add: good_call_def find_service_method_def split: prod.splits)

text \<open>The connection waits, and protocol number \<open>j\<close> is the next of those it has not ruled out that is \<open>pr\<close>.\<close>

definition ready :: "nat \<Rightarrow> nat \<Rightarrow> int \<Rightarrow> protocol \<Rightarrow> nat \<Rightarrow> world \<Rightarrow> bool" where
  "ready i p f pr n w \<longleftrightarrow> (\<exists>c j. own (Some i) p c w \<and> awaiting c \<and> unread (rbuf c) = [] \<and> fd c = f \<and>
     n \<le> writeable (rbuf c) \<and> proto_idx c \<le> j \<and> j < length (protocols w) \<and> protocols w ! j = pr \<and>
     (\<forall>k \<in> {proto_idx c..<j}. protocols w ! k \<noteq> pr))"

lemma one_call_ready:
  assumes r: "ready i p f pr n w" and g: "good_call app w pr ct n k x"
    and t: "seen_type pr ConnType_Short ct \<noteq> ConnType_Short"
  shows "\<exists>w'. one_call app now i p k (request_of pr ct x) w = Inr w' \<and> ready i p f pr n w' \<and>
    services w' = services w \<and> sent w' f = sent w f @ response_of pr ct x"
proof -
  obtain svc mth pl out where x: "x = (svc, mth, pl, out)" by (cases x)
  from r obtain c j where c: "own (Some i) p c w" "awaiting c" "unread (rbuf c) = []" "fd c = f"
    "n \<le> writeable (rbuf c)" and j: "proto_idx c \<le> j" "j < length (protocols w)" "protocols w ! j = pr"
      "\<forall>k \<in> {proto_idx c..<j}. protocols w ! k \<noteq> pr" unfolding ready_def by blast
  from g x have fits: "path_ok pr svc mth" "message_fits svc mth pl" "length out < 2 ^ 31"
    "length (request_wire pr ct svc mth pl) \<le> n"
    "length (response_wire pr (seen_type pr ConnType_Short ct) RpcStatus_OK out) \<le> k"
    by (simp_all add: good_call_def)
  from g x obtain s m where sm: "find_service_method svc mth w = Some (s, m)" "app s m pl = Replies (Some out)"
    by (auto simp: good_call_def split: option.splits)
  have can: "can_call w c j pr svc mth pl" using fits(1,2) j by (simp add: can_call_def)
  have room: "length (request_wire pr ct svc mth pl) \<le> writeable (rbuf c)" using fits(4) c(5) by simp
  from served_over_sockets [where app = app, OF c(1-3) can room sm fits(3,5,5), of now "Room 0" "Room 0" now "Pending []"]
  obtain w1 w2 w3 where w:
    "conn_handle_events app now p EPOLLIN (Pending (request_wire pr ct svc mth pl)) (Room 0) (Room 0) w = Inr w1"
    "exec_task (UpdateChannel i p) w1 = Inr w2"
    "conn_handle_events app now p EPOLLOUT (Pending []) (Room k) (Room k) w2 = Inr w3"
    "sent w3 (fd c) = sent w (fd c) @ response_wire pr (seen_type pr ConnType_Short ct) RpcStatus_OK out"
    "protocols w3 = protocols w" "services w3 = services w"
    "call_over (seen_type pr ConnType_Short ct) (Some i) p (fd c) j (length (data (rbuf c))) w3" by auto
  from w(7) t obtain d where d: "own (Some i) p d w3" "awaiting d" "fd d = fd c" "unread (rbuf d) = []"
    "proto_idx d = j" "length (data (rbuf c)) \<le> writeable (rbuf d)" by (auto simp: call_over_def)
  have "writeable (rbuf c) \<le> length (data (rbuf c))" using c(2) by (simp add: awaiting_def writeable_ok)
  with d c(4,5) j w(5) have "ready i p f pr n w3"
    unfolding ready_def by (intro exI [of _ d] exI [of _ j]) auto
  with w c(4) x show ?thesis by (auto simp: one_call_def request_of_def response_of_def)
qed

text \<open>C15. A connection that is kept serves any sequence of calls: the bytes sent are the
  responses in order, and it is ready for the next call afterwards.\<close>

lemma long_connection:
  assumes "ready i p f pr n w" and "\<forall>x \<in> set xs. good_call app w pr ct n k x"
    and "seen_type pr ConnType_Short ct \<noteq> ConnType_Short"
  shows "\<exists>w'. all_calls app now i p k (map (request_of pr ct) xs) w = Inr w' \<and> ready i p f pr n w' \<and>
    sent w' f = sent w f @ concat (map (response_of pr ct) xs)"
  using assms(1,2)
proof (induction xs arbitrary: w)
  case (Cons x xs)
  have "good_call app w pr ct n k x" using Cons.prems(2) by simp
  from one_call_ready [where app = app and now = now, OF Cons.prems(1) this assms(3)] obtain v where v:
    "one_call app now i p k (request_of pr ct x) w = Inr v" "ready i p f pr n v" "services v = services w"
    "sent v f = sent w f @ response_of pr ct x" by blast
  have "\<forall>x \<in> set xs. good_call app v pr ct n k x" using Cons.prems(2) good_call_same [OF v(3)] by simp
  from Cons.IH [OF v(2) this] obtain w' where w': "all_calls app now i p k (map (request_of pr ct) xs) v = Inr w'"
    "ready i p f pr n w'" "sent w' f = sent v f @ concat (map (response_of pr ct) xs)" by blast
  with v(1,4) show ?case by (intro exI [of _ w']) simp
qed simp

end
