(* ===== verification/Wakeups.thy ===== *)
theory Wakeups
  imports Event_Loops
begin

text \<open>
  \<^verbatim>\<open>EventLoop::loop\<close> of one thread interleaved with \<^verbatim>\<open>add_func\<close> and \<^verbatim>\<open>stop\<close> of others. The steps
  are the accesses to the shared state: the test of \<^verbatim>\<open>_is_stop\<close>, the return of \<^verbatim>\<open>epoll_wait\<close>,
  the read of the \<^verbatim>\<open>eventfd\<close>, the swap of \<^verbatim>\<open>_funcs\<close> under \<^verbatim>\<open>_funcs_mtx\<close>, and each call of a
  function; the two halves of \<^verbatim>\<open>add_func\<close> (push and wake-up, both under the mutex) and of
  \<^verbatim>\<open>stop\<close>. The functions that were added and run are recorded.
\<close>

section \<open>Steps\<close>

datatype 'f loop_pc =
    AtTest
  | Waiting
  | Handling bool
  | Swapping
  | Running "'f list"
  | Left

record 'f threads =
  shared :: "'f event_loop"
  pc :: "'f loop_pc"
  mtx_held :: bool
  stop_pending :: bool
  added :: "'f list"
  ran :: "'f list"

definition initial_threads :: "'f event_loop \<Rightarrow> 'f threads" where
  "initial_threads l =
     \<lparr>shared = l, pc = AtTest, mtx_held = False, stop_pending = False, added = [], ran = []\<rparr>"

text \<open>\<^verbatim>\<open>epoll_wait\<close> returns because the \<^verbatim>\<open>eventfd\<close> is readable, or for another reason (the time
  limit, a signal, another channel), and then nothing is read from the \<^verbatim>\<open>eventfd\<close>.\<close>

inductive thread_step :: "'f threads \<Rightarrow> 'f threads \<Rightarrow> bool" where
  leave: "pc s = AtTest \<Longrightarrow> is_stop (shared s) \<Longrightarrow> thread_step s (s\<lparr>pc := Left\<rparr>)"
| poll: "pc s = AtTest \<Longrightarrow> \<not> is_stop (shared s) \<Longrightarrow> thread_step s (s\<lparr>pc := Waiting\<rparr>)"
| awake: "pc s = Waiting \<Longrightarrow> 0 < wake_count (shared s) \<Longrightarrow> thread_step s (s\<lparr>pc := Handling True\<rparr>)"
| other: "pc s = Waiting \<Longrightarrow> thread_step s (s\<lparr>pc := Handling False\<rparr>)"
| handled: "pc s = Handling w \<Longrightarrow> thread_step s
    (s\<lparr>shared := (if w then wakeuper_handle_events EPOLLIN (shared s) else shared s), pc := Swapping\<rparr>)"
| swap: "pc s = Swapping \<Longrightarrow> \<not> mtx_held s \<Longrightarrow> swap_funcs (shared s) = (fs, l) \<Longrightarrow>
    thread_step s (s\<lparr>shared := l, pc := Running fs\<rparr>)"
| call: "pc s = Running (f # fs) \<Longrightarrow> thread_step s (s\<lparr>pc := Running fs, ran := ran s @ [f]\<rparr>)"
| again: "pc s = Running [] \<Longrightarrow> thread_step s (s\<lparr>pc := AtTest\<rparr>)"
| push: "\<not> mtx_held s \<Longrightarrow> thread_step s
    (s\<lparr>shared := push_func f (shared s), mtx_held := True, added := added s @ [f]\<rparr>)"
| wake: "mtx_held s \<Longrightarrow> thread_step s (s\<lparr>shared := wakeup (shared s), mtx_held := False\<rparr>)"
| stop_set: "thread_step s (s\<lparr>shared := (shared s)\<lparr>is_stop := True\<rparr>, stop_pending := True\<rparr>)"
| stop_wake: "stop_pending s \<Longrightarrow> thread_step s (s\<lparr>shared := wakeup (shared s), stop_pending := False\<rparr>)"

inductive_cases thread_stepE: "thread_step s s'"

inductive reachable :: "'f event_loop \<Rightarrow> 'f threads \<Rightarrow> bool" for l where
  start: "reachable l (initial_threads l)"
| step: "reachable l s \<Longrightarrow> thread_step s s' \<Longrightarrow> reachable l s'"

lemma add_func_two_steps: "add_func f l = wakeup (push_func f l)"
  by (simp add: add_func_def)

lemma stop_two_steps: "stop l = wakeup (l\<lparr>is_stop := True\<rparr>)"
  by (simp add: stop_def)

section \<open>Invariants\<close>

fun in_progress :: "'f loop_pc \<Rightarrow> 'f list" where
  "in_progress (Running fs) = fs"
| "in_progress _ = []"

text \<open>Every function added is run once, in the order of the additions.\<close>

definition fifo :: "'f threads \<Rightarrow> bool" where
  "fifo s \<longleftrightarrow> added s = ran s @ in_progress (pc s) @ funcs (shared s)"

text \<open>Before the loop blocks, pending work has made the \<^verbatim>\<open>eventfd\<close> readable, or the thread that
  brought it still holds the mutex and is about to.\<close>

definition will_wake :: "'f threads \<Rightarrow> bool" where
  "will_wake s \<longleftrightarrow>
     (pc s \<in> {AtTest, Waiting} \<or> (\<exists>fs. pc s = Running fs) \<longrightarrow> funcs (shared s) \<noteq> [] \<longrightarrow>
        0 < wake_count (shared s) \<or> mtx_held s) \<and>
     (pc s = Waiting \<longrightarrow> is_stop (shared s) \<longrightarrow> 0 < wake_count (shared s) \<or> stop_pending s)"

lemma fifo_step: "thread_step s s' \<Longrightarrow> fifo s \<Longrightarrow> fifo s'"
  by (erule thread_stepE) (auto simp: fifo_def wakeuper_handle_events_def swap_funcs_def push_func_def)

lemma will_wake_step: "thread_step s s' \<Longrightarrow> will_wake s \<Longrightarrow> will_wake s'"
  by (erule thread_stepE)
     (auto simp: will_wake_def wakeuper_handle_events_def swap_funcs_def push_func_def wakeup_wakes)

lemma initial_ok: "funcs l = [] \<Longrightarrow> fifo (initial_threads l) \<and> will_wake (initial_threads l)"
  by (simp add: fifo_def will_wake_def initial_threads_def)

text \<open>C25. In every interleaving of the loop with add_func and stop from other threads,
  functions run once and in order, and the loop never sleeps on pending work or a pending stop
  without a wake-up on its way.\<close>

lemma reachable_awake:
  assumes "reachable l s" and "funcs l = []"
  shows "fifo s \<and> will_wake s"
  using assms(1)
proof induction
  case start
  from assms(2) show ?case by (rule initial_ok)
next
  case (step s s')
  then show ?case using fifo_step will_wake_step by blast
qed

end
