(* ===== verification/Base_Utils.thy ===== *)
theory Base_Utils
  imports Buffers
begin

text \<open>
  \<^verbatim>\<open>base/done_guard.h\<close>, \<^verbatim>\<open>base/status_manager.h\<close> with \<^verbatim>\<open>base/status_manager.cpp\<close>, and
  \<^verbatim>\<open>net/socket.cpp\<close>: the guard that runs a closure when it goes out of scope, the flag a signal
  sets, and the set-up of a listening socket over the kernel's answers.
\<close>

section \<open>DoneGuard\<close>

text \<open>A closure is its number; the list is the closures that were run, in order.\<close>

type_synonym guard = "nat option \<times> nat list"

definition run_done :: "guard \<Rightarrow> guard" where
  "run_done = (\<lambda>(d, runs). case d of None \<Rightarrow> (None, runs) | Some k \<Rightarrow> (None, runs @ [k]))"

definition guard_release :: "guard \<Rightarrow> guard" where
  "guard_release = (\<lambda>(d, runs). (None, runs))"

definition guard_reset :: "nat option \<Rightarrow> guard \<Rightarrow> guard" where
  "guard_reset d g = (case run_done g of (_, runs) \<Rightarrow> (d, runs))"

datatype guard_op = Release | Reset "nat option"

fun guard_step :: "guard_op \<Rightarrow> guard \<Rightarrow> guard" where
  "guard_step Release g = guard_release g"
| "guard_step (Reset d) g = guard_reset d g"

text \<open>The life of a guard: constructor, calls, destructor.\<close>

definition guard_life :: "nat option \<Rightarrow> guard_op list \<Rightarrow> nat list" where
  "guard_life d ops = snd (run_done (fold guard_step ops (d, [])))"

text \<open>The closures that have to run: each one given, unless it was released while it was held.\<close>

fun kept :: "nat option \<Rightarrow> guard_op list \<Rightarrow> nat list" where
  "kept d [] = (case d of None \<Rightarrow> [] | Some k \<Rightarrow> [k])"
| "kept d (Release # ops) = kept None ops"
| "kept d (Reset e # ops) = (case d of None \<Rightarrow> [] | Some k \<Rightarrow> [k]) @ kept e ops"

lemma run_done_simps [simp]:
  "run_done (None, runs) = (None, runs)" "run_done (Some k, runs) = (None, runs @ [k])"
  by (simp_all add: run_done_def)

lemma guard_life_gen: "snd (run_done (fold guard_step ops (d, runs))) = runs @ kept d ops"
proof (induction ops arbitrary: d runs)
  case Nil
  show ?case by (cases d) simp_all
next
  case (Cons op ops)
  show ?case
    by (cases op; cases d) (simp_all add: guard_release_def guard_reset_def Cons.IH)
qed

text \<open>A DoneGuard runs each closure it was given exactly once, unless it was released
  while it held it.\<close>

lemma guard_life_kept: "guard_life d ops = kept d ops"
  by (simp add: guard_life_def guard_life_gen)

section \<open>StatusManager\<close>

text \<open>
  The flag under \<^verbatim>\<open>_mtx\<close>. The thread that polls it holds the mutex inside \<^verbatim>\<open>is_close\<close> and on both
  ends of \<^verbatim>\<open>wait_for_signal\<close>; the handler of SIGINT runs on a thread that was interrupted, and it
  takes the same mutex. A mutex that is not recursive, taken again by its owner, is never
  taken.
\<close>

datatype poll_pc = Outside | Inside | Sleeping

record status_manager =
  exit_flag :: bool
  poller :: poll_pc
  handler_waits :: bool

definition new_status_manager :: status_manager where
  "new_status_manager = \<lparr>exit_flag = False, poller = Outside, handler_waits = False\<rparr>"

definition is_close :: "status_manager \<Rightarrow> bool" where
  "is_close s = exit_flag s"

definition set_close :: "status_manager \<Rightarrow> status_manager" where
  "set_close s = s\<lparr>exit_flag := True\<rparr>"

text \<open>\<^verbatim>\<open>register_signals\<close> makes \<open>set_close\<close> the handler of SIGINT; \<open>ok\<close> says whether \<^verbatim>\<open>sigaction\<close> succeeds.\<close>

definition register_signals :: "bool \<Rightarrow> bool result" where
  "register_signals ok = (if \<not> ok then Inl Aborted else Inr True)"

text \<open>The thread's steps are possible while the handler does not run on it; the handler on the
  same thread completes at once when the mutex is free, and waits when it is not.\<close>

inductive status_step :: "status_manager \<Rightarrow> status_manager \<Rightarrow> bool" where
  enter: "poller s = Outside \<Longrightarrow> \<not> handler_waits s \<Longrightarrow> status_step s (s\<lparr>poller := Inside\<rparr>)"
| sleep: "poller s = Inside \<Longrightarrow> \<not> handler_waits s \<Longrightarrow> status_step s (s\<lparr>poller := Sleeping\<rparr>)"
| awake: "poller s = Sleeping \<Longrightarrow> \<not> handler_waits s \<Longrightarrow> status_step s (s\<lparr>poller := Inside\<rparr>)"
| exit: "poller s = Inside \<Longrightarrow> \<not> handler_waits s \<Longrightarrow> status_step s (s\<lparr>poller := Outside\<rparr>)"
| signal_free: "poller s \<noteq> Inside \<Longrightarrow> \<not> handler_waits s \<Longrightarrow> status_step s (set_close s)"
| signal_held: "poller s = Inside \<Longrightarrow> \<not> handler_waits s \<Longrightarrow> status_step s (s\<lparr>handler_waits := True\<rparr>)"

inductive_cases status_stepE: "status_step s s'"

text \<open>A signal that arrives while the mutex is held stops the thread for good, with the flag as
  it was.\<close>

text \<open>A signal that arrives while the polling thread holds the mutex blocks the thread
  for good with the flag unchanged.\<close>

lemma signal_deadlock:
  assumes "poller s = Inside" and "\<not> handler_waits s"
  shows "\<exists>s'. status_step s s' \<and> exit_flag s' = exit_flag s \<and> (\<forall>t. \<not> status_step s' t)"
proof (intro exI conjI allI)
  show "status_step s (s\<lparr>handler_waits := True\<rparr>)" using assms by (rule signal_held)
  show "\<not> status_step (s\<lparr>handler_waits := True\<rparr>) t" for t
    by (auto elim: status_stepE)
qed simp

lemma flag_stays: "status_step s s' \<Longrightarrow> is_close s \<Longrightarrow> is_close s'"
  by (erule status_stepE) (auto simp: is_close_def set_close_def)

section \<open>Sockets\<close>

text \<open>
  The calls of \<^verbatim>\<open>net/socket.cpp\<close>, recorded in order; every failure is fatal. \<open>answers\<close> gives the
  result of each, \<open>-1\<close> for an error (\<open>inet_pton\<close> returns 1 when it has read the address).
\<close>

datatype sys_call =
    Socket
  | GetFl int
  | SetFl int
  | SetReuseAddr int
  | InetPton string
  | Bind int string nat
  | Listen int int

type_synonym kernel_answers = "sys_call \<Rightarrow> int"

definition fatal_if :: "bool \<Rightarrow> 'a \<Rightarrow> sys_call list \<Rightarrow> ('a \<times> sys_call list) result" where
  "fatal_if b x trace = (if b then Inl Aborted else Inr (x, trace))"

definition get_addr ::
  "kernel_answers \<Rightarrow> string \<Rightarrow> nat \<Rightarrow> sys_call list \<Rightarrow> ((string \<times> nat) \<times> sys_call list) result"
where
  "get_addr k addr port tr = fatal_if (k (InetPton addr) \<noteq> 1) (addr, port) (tr @ [InetPton addr])"

text \<open>The result of reading the flags is not tested.\<close>

definition set_nonblocking :: "kernel_answers \<Rightarrow> int \<Rightarrow> sys_call list \<Rightarrow> (unit \<times> sys_call list) result" where
  "set_nonblocking k f tr = fatal_if (k (SetFl f) = -1) () (tr @ [GetFl f, SetFl f])"

definition listen_socket ::
  "kernel_answers \<Rightarrow> string \<Rightarrow> nat \<Rightarrow> int \<Rightarrow> (int \<times> sys_call list) result"
where
  "listen_socket k addr port backlog =
     (let listen_fd = k Socket in
      and_then (fatal_if (listen_fd = -1) () [Socket]) (\<lambda>(_, tr).
      and_then (set_nonblocking k listen_fd tr) (\<lambda>(_, tr).
      and_then (fatal_if (k (SetReuseAddr listen_fd) = -1) () (tr @ [SetReuseAddr listen_fd])) (\<lambda>(_, tr).
      and_then (get_addr k addr port tr) (\<lambda>((a, q), tr).
      and_then (fatal_if (k (Bind listen_fd a q) = -1) () (tr @ [Bind listen_fd a q])) (\<lambda>(_, tr).
        fatal_if (k (Listen listen_fd backlog) = -1) listen_fd (tr @ [Listen listen_fd backlog])))))))"

text \<open>A socket is returned only when it is bound to the address, listens and does not block, and
  every other outcome is an abort.\<close>

text \<open>A listening socket is returned exactly when every system call succeeds, made in
  this order; the result of F_GETFL is not tested.\<close>

lemma listen_socket_iff:
  "listen_socket k addr port backlog = Inr (f, tr) \<longleftrightarrow>
     f = k Socket \<and> f \<noteq> -1 \<and> k (SetFl f) \<noteq> -1 \<and> k (SetReuseAddr f) \<noteq> -1 \<and> k (InetPton addr) = 1 \<and>
     k (Bind f addr port) \<noteq> -1 \<and> k (Listen f backlog) \<noteq> -1 \<and>
     tr = [Socket, GetFl f, SetFl f, SetReuseAddr f, InetPton addr, Bind f addr port, Listen f backlog]"
  by (auto simp: listen_socket_def fatal_if_def set_nonblocking_def get_addr_def Let_def)

lemma listen_socket_faults: "listen_socket k addr port backlog = Inl e \<Longrightarrow> e = Aborted"
  by (auto simp: listen_socket_def fatal_if_def set_nonblocking_def get_addr_def Let_def split: if_splits)

end
