(* ===== verification/Controllers.thy ===== *)
theory Controllers
  imports Pb_Client
begin

text \<open>
  \<^verbatim>\<open>net/pb_controller.h\<close>: the controller carries the connection type of a call; its other operations,
  which protobuf declares, do nothing and report no failure. A call through a stub takes the
  type from the controller it is given.
\<close>

section \<open>PbController\<close>

record pb_controller =
  cntl_conn_type :: conn_type

definition new_pb_controller :: pb_controller where
  "new_pb_controller = \<lparr>cntl_conn_type = ConnType_Short\<rparr>"

datatype cntl_op =
    CntlReset
  | SetFailed string
  | StartCancel
  | NotifyOnCancel "nat option"
  | SetConnType conn_type

text \<open>The operations that return nothing.\<close>

fun cntl_step :: "cntl_op \<Rightarrow> pb_controller \<Rightarrow> pb_controller" where
  "cntl_step CntlReset c = c"
| "cntl_step (SetFailed reason) c = c"
| "cntl_step StartCancel c = c"
| "cntl_step (NotifyOnCancel callback) c = c"
| "cntl_step (SetConnType t) c = c\<lparr>cntl_conn_type := t\<rparr>"

definition cntl_failed :: "pb_controller \<Rightarrow> bool" where
  "cntl_failed c = False"

definition cntl_error_text :: "pb_controller \<Rightarrow> string" where
  "cntl_error_text c = []"

definition cntl_is_canceled :: "pb_controller \<Rightarrow> bool" where
  "cntl_is_canceled c = False"

section \<open>Calls with a controller\<close>

text \<open>\<^verbatim>\<open>CallMethod\<close> casts the controller; the cast of one of another class, or of a null pointer, is
  null, and is not tested.\<close>

definition call_with ::
  "pb_controller option \<Rightarrow> string \<Rightarrow> string \<Rightarrow> byte list \<Rightarrow> nat option \<Rightarrow> (write_answer \<times> write_answer) list \<Rightarrow>
   read_answer list \<Rightarrow> client_world \<Rightarrow> (byte list option \<times> client_world) option result"
where
  "call_with cntl svc mth serialised d was ras w =
     (case cntl of
        None \<Rightarrow> Inl NullDeref
      | Some c \<Rightarrow> call_method (cntl_conn_type c) svc mth serialised d was ras w)"

text \<open>The type of a call is that of the last \<^verbatim>\<open>set_conn_type\<close>; what the service reports as a failure is
  lost.\<close>

fun last_type :: "conn_type \<Rightarrow> cntl_op list \<Rightarrow> conn_type" where
  "last_type t [] = t"
| "last_type t (SetConnType u # ops) = last_type u ops"
| "last_type t (_ # ops) = last_type t ops"

lemma cntl_steps: "cntl_conn_type (fold cntl_step ops c) = last_type (cntl_conn_type c) ops"
proof (induction ops arbitrary: c)
  case (Cons op ops)
  then show ?case by (cases op) simp_all
qed simp

lemma call_with_steps:
  "call_with (Some (fold cntl_step ops new_pb_controller)) = call_method (last_type ConnType_Short ops)"
  by (simp add: fun_eq_iff call_with_def cntl_steps new_pb_controller_def)

end
