(* ===== verification/Client_Loop.thy ===== *)
theory Client_Loop
  imports Client_Async
begin

text \<open>
  A client in the loop of another thread: the events and the queued functions of that loop, the
  connection that is being made, and a call that comes too early. \<^verbatim>\<open>client_conn_callback\<close> stores
  \<^verbatim>\<open>_connected\<close> before it takes back its registration, so a call that another thread makes in
  between has its registration taken back instead.
\<close>

section \<open>What the loop runs\<close>

text \<open>Each queued function is an \<^verbatim>\<open>update_channel\<close> of the client.\<close>

fun run_updates :: "nat \<Rightarrow> client_world \<Rightarrow> client_world result" where
  "run_updates 0 w = Inr w"
| "run_updates (Suc n) w = and_then (client_update w) (run_updates n)"

definition run_funcs :: "client_world \<Rightarrow> client_world result" where
  "run_funcs w =
     (let (fs, l) = swap_funcs (client_loop w) in run_updates (length fs) (w\<lparr>client_loop := l\<rparr>))"

datatype client_event =
    RunFuncs
  | ClientIO "32 word" read_answer write_answer write_answer "int option"

fun client_loop_step :: "client_event \<Rightarrow> client_world \<Rightarrow> client_world result" where
  "client_loop_step RunFuncs w = run_funcs w"
| "client_loop_step (ClientIO events ra wa1 wa2 so_error) w = client_handle_events events ra wa1 wa2 so_error w"

fun client_loop_run :: "client_event list \<Rightarrow> client_world \<Rightarrow> client_world result" where
  "client_loop_run [] w = Inr w"
| "client_loop_run (e # es) w = and_then (client_loop_step e w) (client_loop_run es)"

text \<open>The kernel reports an event only for a descriptor that is registered for it.\<close>

fun may_happen :: "client_world \<Rightarrow> client_event \<Rightarrow> bool" where
  "may_happen w RunFuncs \<longleftrightarrow> True"
| "may_happen w (ClientIO events ra wa1 wa2 so_error) \<longleftrightarrow> interests (client_loop w) (fd (client w)) \<noteq> None"

fun possible :: "client_event list \<Rightarrow> client_world \<Rightarrow> bool" where
  "possible [] w \<longleftrightarrow> True"
| "possible (e # es) w \<longleftrightarrow> may_happen w e \<and>
     (case client_loop_step e w of Inl _ \<Rightarrow> True | Inr w' \<Rightarrow> possible es w')"

section \<open>The two halves of \<^verbatim>\<open>client_conn_callback\<close>\<close>

text \<open>Up to \<^verbatim>\<open>_connected.store(true)\<close>, and after it.\<close>

definition conn_publish :: "int option \<Rightarrow> client_world \<Rightarrow> client_world result" where
  "conn_publish answer w =
     (case answer of
        None \<Rightarrow> Inl Aborted
      | Some so_error \<Rightarrow> Inr (if so_error = 0 then on_client (\<lambda>c. c\<lparr>connected := True\<rparr>) w else w))"

definition conn_withdraw :: "client_world \<Rightarrow> client_world result" where
  "conn_withdraw w = client_update (on_client (\<lambda>c. c\<lparr>event := 0\<rparr>) w)"

lemma conn_callback_halves: "client_conn_callback answer w = and_then (conn_publish answer w) conn_withdraw"
  by (simp add: client_conn_callback_def conn_publish_def conn_withdraw_def Let_def split: option.splits)

section \<open>Connecting\<close>

text \<open>A client whose connection is in progress: it waits for the socket to be writable.\<close>

definition connecting :: "client_world \<Rightarrow> bool" where
  "connecting w \<longleftrightarrow> in_loop w \<and> event (client w) = EPOLLOUT \<and> sevent (client w) = EPOLLOUT \<and>
     \<not> connected (client w) \<and> client_conn_cb (client w) = Some ClientConnCb \<and>
     write_complete_cb (client w) = Some ClientWriteCompleteCb \<and> data_read_cb (client w) = Some ClientDataReadCb \<and>
     funcs (client_loop w) = []"

text \<open>A client that is connected and has no call in progress.\<close>

definition at_rest :: "client_world \<Rightarrow> bool" where
  "at_rest w \<longleftrightarrow> in_loop w \<and> event (client w) = 0 \<and> sevent (client w) = 0 \<and> connected (client w) \<and>
     write_complete_cb (client w) = Some ClientWriteCompleteCb \<and> data_read_cb (client w) = Some ClientDataReadCb \<and>
     funcs (client_loop w) = []"

text \<open>A loop without functions that does not know the descriptor.\<close>

definition new_to :: "int \<Rightarrow> unit event_loop \<Rightarrow> bool" where
  "new_to f l \<longleftrightarrow> funcs l = [] \<and> interests l f = None"

lemma update_keeps_funcs: "client_update w = Inr w' \<Longrightarrow> funcs (client_loop w') = funcs (client_loop w)"
  by (auto simp: client_update_def and_then_Inr_iff split: if_splits)

lemma connect_in_progress:
  assumes "f \<noteq> -1" and "new_to f l"
  shows "\<exists>w0 w. pb_client_connect (Some e) True f True now (ConnectErr EINPROGRESS) l = Inr w0 \<and>
    run_funcs w0 = Inr w \<and> connecting w \<and> fd (client w) = f \<and> rbuf (client w) = new_buffer InitialBufferSize \<and>
    wbuf (client w) = new_buffer InitialBufferSize \<and> client_sent w = [] \<and> done_runs w = []"
  using assms
  by (simp add: pb_client_connect_def on_client_def new_pb_client_def new_tcp_connection_def tcp_connection.defs
      run_funcs_def add_func_def push_func_def wakeup_def swap_funcs_def client_update_def update_channel_def
      do_epoll_ctl_def connecting_def in_loop_def registered_def registration_def new_to_def Let_def)

lemma connect_done:
  assumes "connecting w"
  shows "\<exists>w'. client_handle_events EPOLLOUT ra wa1 wa2 (Some 0) w = Inr w' \<and> at_rest w' \<and>
    fd (client w') = fd (client w) \<and> rbuf (client w') = rbuf (client w) \<and> wbuf (client w') = wbuf (client w) \<and>
    client_sent w' = client_sent w \<and> done_runs w' = done_runs w"
proof -
  let ?w = "on_client (\<lambda>c. c\<lparr>event := 0\<rparr>) (on_client (\<lambda>c. c\<lparr>connected := True\<rparr>) w)"
  have "client_handle_events EPOLLOUT ra wa1 wa2 (Some 0) w = client_update ?w"
    using assms
    by (simp add: client_handle_events_def tcp_handle_events_def client_part connecting_def run_client_callback_def
        client_conn_callback_def on_client_def)
  moreover have "in_loop ?w" using assms by (simp add: connecting_def in_loop_def registered_def on_client_def)
  from client_update_ok [OF this] obtain w' where w': "client_update ?w = Inr w'" "in_loop w'"
    "client w' = (client ?w)\<lparr>sevent := event (client ?w)\<rparr>" "client_sent w' = client_sent ?w" "done_runs w' = done_runs ?w" by blast
  ultimately show ?thesis
    using assms update_keeps_funcs [OF w'(1)] by (simp add: at_rest_def connecting_def)
qed

section \<open>A call that comes too early\<close>

text \<open>The state after such a call: the client waits for nothing, its loop has nothing to run, and the
  request and the session are where the call left them.\<close>

definition stranded :: "nat \<Rightarrow> client_world \<Rightarrow> bool" where
  "stranded d w \<longleftrightarrow> in_loop w \<and> event (client w) = 0 \<and> sevent (client w) = 0 \<and> funcs (client_loop w) = [] \<and>
     unread (wbuf (client w)) @ extra_left (wbuf (client w)) \<noteq> [] \<and>
     (\<exists>s. client_session (client w) = Some s \<and> done_id s = Some d)"

lemma stranded_stays:
  assumes "stranded d w" and "may_happen w e"
  shows "e = RunFuncs \<and> client_loop_step e w = Inr w"
proof -
  have "interests (client_loop w) (fd (client w)) = None"
    using assms(1) by (simp add: stranded_def in_loop_def registered_def registration_def)
  then show ?thesis
    using assms by (cases e) (simp_all add: run_funcs_def swap_funcs_def stranded_def)
qed

text \<open>C18. A call made by another thread after client_conn_callback has stored _connected but
  before it takes its registration back is lost: it is never sent, its closure never runs, whatever
  the loop still does.\<close>

lemma early_call_lost:
  assumes w: "connecting w" and pr: "client_protocol (client w) = Some pr"
    and room: "pack_room (clear (wbuf (client w))) svc mth" and fits: "message_fits svc mth pl"
  shows "\<exists>w1 w2 w3 w4. conn_publish (Some 0) w = Inr w1 \<and> connected (client w1) \<and>
    call_method ct svc mth pl (Some d) ws rs w1 = Inr (Some (None, w2)) \<and>
    conn_withdraw w2 = Inr w3 \<and> run_funcs w3 = Inr w4 \<and> stranded d w4 \<and>
    client_sent w4 = client_sent w \<and> done_runs w4 = done_runs w \<and>
    (\<forall>es. possible es w4 \<longrightarrow> client_loop_run es w4 = Inr w4)"
proof -
  let ?w1 = "on_client (\<lambda>c. c\<lparr>connected := True\<rparr>) w"
  have l: "in_loop ?w1" "el (client w) \<noteq> None" using w by (simp_all add: connecting_def in_loop_def registered_def)
  from call_setup_ok [of ?w1 pr svc mth pl ct "Some d"] pr room fits obtain x b where
    su: "call_setup ct svc mth pl (Some d) ?w1 = Inr (True, on_client (\<lambda>c. c\<lparr>rbuf := clear (rbuf c),
      wbuf := b, ctx := Some x,
      client_session := Some \<lparr>response = None, done_id = Some d, read_response_done = False\<rparr>\<rparr>) ?w1)" (is "_ = Inr (True, ?v)")
    and b: "unread b @ extra_left b = request_wire pr ct svc mth pl" by auto
  let ?w2 = "call_async ?v"
  have call: "call_method ct svc mth pl (Some d) ws rs ?w1 = Inr (Some (None, ?w2))"
    using su l(2) by (simp add: call_method_def)
  have l2: "in_loop (on_client (\<lambda>c. c\<lparr>event := 0\<rparr>) ?w2)"
    using l by (simp add: in_loop_def registered_def call_async_def add_func_def push_func_def wakeup_def)
  from client_update_ok [OF l2] obtain w3 where w3: "conn_withdraw ?w2 = Inr w3" "in_loop w3"
    "client w3 = (client ?v)\<lparr>event := 0, sevent := 0\<rparr>" "client_sent w3 = client_sent w" "done_runs w3 = done_runs w"
    by (auto simp: conn_withdraw_def call_async_def)
  have f3: "funcs (client_loop w3) = [()]"
    using update_keeps_funcs [OF w3(1) [unfolded conn_withdraw_def]] w
    by (simp add: call_async_def add_func_def push_func_def wakeup_def connecting_def)
  let ?w4 = "w3\<lparr>client_loop := (client_loop w3)\<lparr>funcs := []\<rparr>\<rparr>"
  have "client_update ?w4 = Inr ?w4"
    using w3(3) by (simp add: client_update_def update_channel_def)
  then have run: "run_funcs w3 = Inr ?w4" by (simp add: run_funcs_def swap_funcs_def f3)
  have "request_wire pr ct svc mth pl \<noteq> []"
    using wire_claims(2) [of SimpleProtocol pr ct svc mth pl] by auto
  then have "stranded d ?w4" using w3(2,3) b by (simp add: stranded_def in_loop_def registered_def)
  moreover have "client_loop_run es u = Inr u" if "stranded d u" "possible es u" for es u
    using that
  proof (induction es)
    case (Cons e es)
    from stranded_stays [OF Cons.prems(1), of e] Cons.prems(2) have "client_loop_step e u = Inr u" by auto
    with Cons show ?case by simp
  qed simp
  ultimately show ?thesis using call w3 run
    by (intro exI [of _ ?w1] exI [of _ ?w2] exI [of _ w3] exI [of _ ?w4]) (auto simp: conn_publish_def)
qed

section \<open>A call in time\<close>

lemma client_update_funcs:
  assumes "client_update w = Inr w'"
  shows "client_update (w\<lparr>client_loop := (client_loop w)\<lparr>funcs := fs\<rparr>\<rparr>) =
    Inr (w'\<lparr>client_loop := (client_loop w')\<lparr>funcs := fs\<rparr>\<rparr>)"
  using assms by (auto simp: client_update_def and_then_Inr_iff split: if_splits)

text \<open>The events of a call from a client at rest: the queued function, the request, the response.\<close>

lemma call_through_loop:
  assumes w: "at_rest w" and pr: "client_protocol (client w) = Some pr"
    and room: "pack_room (clear (wbuf (client w))) svc mth" and fits: "message_fits svc mth pl"
    and send: "length (request_wire pr ct svc mth pl) \<le> k"
    and rb: "buf_ok (rbuf (client w))" "length (response_wire pr rct st out) \<le> length (data (rbuf (client w)))"
    and out: "length out < 2 ^ 31"
  shows "\<exists>w1 w2. call_method ct svc mth pl (Some d) ws rs w = Inr (Some (None, w1)) \<and>
    client_loop_run [RunFuncs, ClientIO EPOLLOUT (Pending []) (Room k) (Room k) None,
      ClientIO EPOLLIN (Pending (response_wire pr rct st out)) (Room 0) (Room 0) None] w1 = Inr w2 \<and>
    client_sent w2 = client_sent w @ request_wire pr ct svc mth pl \<and> done_runs w2 = done_runs w @ [(d, out)]"
proof -
  have c: "in_loop w" "connected (client w)" "write_complete_cb (client w) = Some ClientWriteCompleteCb"
      "data_read_cb (client w) = Some ClientDataReadCb" "el (client w) \<noteq> None" "funcs (client_loop w) = []"
    using w by (simp_all add: at_rest_def in_loop_def)
  from call_starts [OF pr c(1-4) room fits rb(1), of ct d ws rs] obtain w1 v where
    s: "call_method ct svc mth pl (Some d) ws rs w = Inr (Some (None, w1))" "client_update w1 = Inr v" "funcs (client_loop w1) = [()]"
      and v: "call_waits EPOLLOUT pr d v" "fd (client v) = fd (client w)"
      "client_sent v = client_sent w" "done_runs v = done_runs w" "buf_ok (wbuf (client v))"
      "unread (wbuf (client v)) @ extra_left (wbuf (client v)) = request_wire pr ct svc mth pl"
      "writeable (rbuf (client v)) = length (data (rbuf (client w)))" using c(6) by auto
  then have q: "run_funcs w1 = Inr (v\<lparr>client_loop := (client_loop v)\<lparr>funcs := []\<rparr>\<rparr>)" (is "_ = Inr ?v")
    using client_update_funcs [OF s(2), of "[]"] by (simp add: run_funcs_def swap_funcs_def)
  have w2: "call_waits EPOLLOUT pr d ?v" "buf_ok (wbuf (client ?v))"
    "unread (wbuf (client ?v)) @ extra_left (wbuf (client ?v)) = request_wire pr ct svc mth pl"
    using v by (simp_all add: call_waits_def in_loop_def registered_def)
  from call_written [OF w2 send send, of "Pending []" None] obtain w3 where
    w3: "client_handle_events EPOLLOUT (Pending []) (Room k) (Room k) None ?v = Inr w3" "call_waits EPOLLIN pr d w3"
      "rbuf (client w3) = rbuf (client v)"
      "client_sent w3 = client_sent w @ request_wire pr ct svc mth pl" "done_runs w3 = done_runs w" using v(3,4) by auto
  have "length (response_wire pr rct st out) \<le> writeable (rbuf (client w3))" using rb(2) v(7) w3(3) by simp
  from call_answered [OF w3(2) this out, of "Room 0" "Room 0" None] obtain w4 where
    w4: "client_handle_events EPOLLIN (Pending (response_wire pr rct st out)) (Room 0) (Room 0) None w3 = Inr w4"
      "done_runs w4 = done_runs w3 @ [(d, out)]" "client_sent w4 = client_sent w3" by blast
  show ?thesis using s(1) q w3 w4 by (intro exI [of _ w1] exI [of _ w4]) simp
qed

end
