(* ===== verification/Shutdown.thy ===== *)
theory Shutdown
  imports Server_Steps
begin

text \<open>
  The end of a server: \<^verbatim>\<open>stop\<close>, from any state that was reached. No handler changes the threads, so \<^verbatim>\<open>stop\<close>
  finds each of them joinable, stops its loop and joins it, and then the main one.
\<close>

section \<open>No handler touches the threads\<close>

definition pool_of :: "world \<Rightarrow> int \<times> bool \<times> nat option \<times> bool list" where
  "pool_of w = (thread_num w, main_joinable w, sub_els w, sub_threads w)"

lemma pool_of_simps [simp]:
  "pool_of (put_conn p c w) = pool_of w" "pool_of (on_loop i f w) = pool_of w" "pool_of (sys_close g w) = pool_of w"
  "pool_of (free_conn p w) = pool_of w" "pool_of (send_bytes g bs w) = pool_of w"
  "pool_of (w\<lparr>deferred := ds\<rparr>) = pool_of w" "pool_of (w\<lparr>open_fds := fs\<rparr>) = pool_of w"
  "pool_of (w\<lparr>next_el := n\<rparr>) = pool_of w"
  by (simp_all add: pool_of_def put_conn_def on_loop_def sys_close_def free_conn_def send_bytes_def)

text \<open>The outcome of a handler, when it has one, has the same threads.\<close>

abbreviation stays :: "int \<times> bool \<times> nat option \<times> bool list \<Rightarrow> world result \<Rightarrow> bool" where
  "stays K r \<equiv> ensures r (\<lambda>w'. pool_of w' = K)"

named_theorems pooling

lemma stays_bind: "stays K m \<Longrightarrow> (\<And>v. pool_of v = K \<Longrightarrow> stays K (f v)) \<Longrightarrow> stays K (and_then m f)"
  by (rule ensures_through)

lemma set_event_pool [pooling]: "pool_of w = K \<Longrightarrow> stays K (set_event p ev w)"
  unfolding set_event_def by (intro ensures_intros) simp

lemma update_on_loop_pool [pooling]: "pool_of w = K \<Longrightarrow> stays K (update_on_loop i p w)"
  unfolding update_on_loop_def by (intro ensures_intros) (auto split: prod.splits)

lemma update_conn_pool [pooling]: "pool_of w = K \<Longrightarrow> stays K (update_conn p w)"
  unfolding update_conn_def by (intro ensures_and_then pooling)

lemma delete_conn_pool [pooling]: "pool_of w = K \<Longrightarrow> stays K (delete_conn p w)"
  unfolding delete_conn_def by (intro ensures_intros) simp

lemma close_callback_pool [pooling]: "pool_of w = K \<Longrightarrow> stays K (close_callback p w)"
  unfolding close_callback_def Let_def
  by (rule pooling | assumption | rule stays_bind | rule ensures_and_then | simp)+

lemma conn_close_pool [pooling]: "pool_of w = K \<Longrightarrow> stays K (conn_close p w)"
  unfolding conn_close_def by (intro ensures_intros pooling) simp_all

lemma start_timer_pool [pooling]: "pool_of w = K \<Longrightarrow> stays K (start_timer p now ms r w)"
  unfolding start_timer_def Let_def by (intro ensures_intros) simp

lemma arm_write_pool [pooling]: "pool_of w = K \<Longrightarrow> stays K (arm_write now p w)"
  unfolding arm_write_def Let_def
  by (rule pooling | assumption | rule stays_bind | rule ensures_and_then | rule ensures_if | simp)+

lemma response_callback_pool [pooling]: "pool_of w = K \<Longrightarrow> stays K (response_callback now p r w)"
  unfolding response_callback_def Let_def split_def
  by (rule pooling | assumption | rule stays_bind | rule ensures_and_then | rule ensures_option | rule ensures_if | simp)+

lemma request_callback_pool [pooling]: "pool_of w = K \<Longrightarrow> stays K (request_callback app now p w)"
  unfolding request_callback_def
  by (intro ensures_intros) (auto intro: pooling split: option.splits app_reply.splits)

lemma data_read_callback_pool [pooling]: "pool_of w = K \<Longrightarrow> stays K (data_read_callback app now p w)"
  unfolding data_read_callback_def Let_def split_def
  by (rule pooling | assumption | rule stays_bind | rule ensures_and_then | rule ensures_if | simp)+

lemma write_complete_pool [pooling]: "pool_of w = K \<Longrightarrow> stays K (write_complete_callback now p w)"
  unfolding write_complete_callback_def Let_def
  by (rule pooling | assumption | rule stays_bind | rule ensures_and_then | rule ensures_option | rule ensures_if | simp)+

lemma timeout_pool [pooling]: "pool_of w = K \<Longrightarrow> stays K (timeout_callback i p t tid r w)"
  unfolding timeout_callback_def by (intro ensures_intros pooling) simp_all

lemma get_next_el_pool: "get_next_el w = Inr (i, w1) \<Longrightarrow> pool_of w1 = pool_of w"
  by (auto simp: get_next_el_def pool_of_def Let_def split: if_splits option.splits)

lemma new_connection_pool [pooling]: "pool_of w = K \<Longrightarrow> stays K (new_connection_callback now a nb conn w)"
  unfolding new_connection_callback_def Let_def
  by (rule ensures_and_then, clarify, drule get_next_el_pool)
     (rule pooling | assumption | rule stays_bind | rule ensures_and_then | rule ensures_if | simp)+

lemma run_callback_pool [pooling]: "pool_of w = K \<Longrightarrow> stays K (run_callback app now p cb w)"
  unfolding run_callback_def by (auto intro: pooling split: option.splits server_cb.splits)

lemma conn_events_pool [pooling]: "pool_of w = K \<Longrightarrow> stays K (conn_handle_events app now p ev ra wa1 wa2 w)"
  unfolding conn_handle_events_def split_def
  by (intro ensures_and_then pooling) simp

lemma acceptor_pool [pooling]: "pool_of w = K \<Longrightarrow> stays K (acceptor_handle_events now ev answer a nb w)"
  unfolding acceptor_handle_events_def by (auto intro!: pooling split: accept_answer.splits)

lemma handle_io_pool [pooling]: "pool_of w = K \<Longrightarrow> stays K (handle_io app i now e w)"
  by (cases e) (auto intro: pooling)

lemma exec_task_pool [pooling]: "pool_of w = K \<Longrightarrow> stays K (exec_task t w)"
  by (cases t) (auto intro: pooling)

lemma run_deferred_pool [pooling]: "pool_of w = K \<Longrightarrow> stays K (run_deferred now p r w)"
  unfolding run_deferred_def by (intro pooling) simp

lemma step_pool:
  assumes "server_step app s (Inr s')"
  shows "pool_of (fst s') = pool_of (fst s)"
proof -
  have k: "pool_of (fst s') = K" if "Inr s' = and_then m (\<lambda>v. Inr (v, f v))" "stays K m"
    for m K and f :: "world \<Rightarrow> nat \<Rightarrow> phase"
    using that by (cases m) auto
  show ?thesis
    using assms
  proof cases
    case (event ph i q ev rest e w now)
    have "pool_of (fst s') = pool_of w"
      by (rule k [OF event(2) [unfolded outcome_def]]) (intro handle_io_pool refl)
    with event(1) show ?thesis by simp
  next
    case (func ph i t ts w)
    have "pool_of (fst s') = pool_of w"
      by (rule k [OF func(2) [unfolded outcome_def]]) (intro exec_task_pool refl)
    with func(1) show ?thesis by simp
  next
    case (timer ph i t ts w)
    have "pool_of (fst s') = pool_of w"
      by (rule k [OF timer(2) [unfolded outcome_def]]) (intro exec_task_pool refl)
    with timer(1) show ?thesis by simp
  next
    case (deferred p w now r ph)
    have "pool_of (fst s') = pool_of w"
      by (rule k [OF deferred(2)]) (intro run_deferred_pool refl)
    with deferred(1) show ?thesis by simp
  qed simp_all
qed

lemma reachable_pool: "server_reachable app w s \<Longrightarrow> pool_of (fst s) = pool_of w"
  by (induction rule: server_reachable.induct) (auto dest: step_pool)

section \<open>Stopping\<close>

text \<open>\<^verbatim>\<open>pb_server.stop()\<close> stops the loops it names.\<close>

definition stop_pb :: "world \<Rightarrow> world result" where
  "stop_pb w = and_then (stop_server w) (\<lambda>(stopped, w'). Inr (fold (\<lambda>i. on_loop i stop) stopped w'))"

lemma fold_stop:
  "is_stop (loops (fold (\<lambda>i. on_loop i stop) is w) j) \<longleftrightarrow> j \<in> set is \<or> is_stop (loops w j)"
proof (induction "is" arbitrary: w)
  case (Cons i "is")
  have "is_stop (loops (on_loop i stop w) j) \<longleftrightarrow> j = i \<or> is_stop (loops w j)"
    by (simp add: on_loop_def stop_def wakeup_def)
  then show ?case using Cons [of "on_loop i stop w"] by auto
qed simp

lemma fold_stop_conns: "conns (fold (\<lambda>i. on_loop i stop) is w) = conns w"
  by (induction "is" arbitrary: w) (simp_all add: on_loop_def)

lemma fold_stop_pool: "pool_of (fold (\<lambda>i. on_loop i stop) is w) = pool_of w"
  by (induction "is" arbitrary: w) simp_all

text \<open>The threads after \<^verbatim>\<open>start\<close>, of a server that was not started before.\<close>

lemma started_pool:
  assumes "start_pb wfd w = Inr w'" and "\<not> main_joinable w" "sub_els w = None" "sub_threads w = []" "0 \<le> thread_num w"
  shows "pool_of w' = (thread_num w, True, if thread_num w = 0 then None else Some (nat (thread_num w)),
    replicate (nat (thread_num w)) True)"
proof -
  have "pool_of v = pool_of w" if "make_loops k wfd w = Inr v" for k v
    using that by (induction k arbitrary: v) (auto simp: and_then_Inr_iff)
  with assms show ?thesis
    by (auto simp: start_pb_def and_then_Inr_iff start_server_def pool_of_def Let_def split: if_splits)
qed

lemma stop_pb_ok:
  assumes "pool_of w = (n, True, if n = 0 then None else Some (nat n), replicate (nat n) True)" and "0 \<le> n"
  shows "\<exists>w'. stop_pb w = Inr w' \<and> (\<forall>i \<le> nat n. is_stop (loops w' i)) \<and> True \<notin> set (sub_threads w') \<and>
    \<not> main_joinable w' \<and> conns w' = conns w"
proof -
  have w: "thread_num w = n" "sub_els w = (if n = 0 then None else Some (nat n))" "sub_threads w = replicate (nat n) True"
    using assms(1) by (simp_all add: pool_of_def)
  have "\<exists>ths. stop_server w = Inr (map Suc [0..<nat n] @ [0], w\<lparr>sub_threads := ths, sub_els := None, main_joinable := False\<rparr>) \<and>
      True \<notin> set ths"
  proof (cases "n = 0")
    case True
    then show ?thesis using w by (intro exI [of _ "[]"]) (simp add: stop_server_def)
  next
    case False
    from stop_subs_ok [of 0 "nat n" "nat n" "nat n" "replicate (nat n) True"] obtain ths where
      "stop_subs (nat n) n 0 (replicate (nat n) True) = Inr (map Suc [0..<nat n], ths)" "length ths = nat n"
      "\<forall>j < nat n. \<not> ths ! j" using assms(2) by auto
    then show ?thesis using False w by (intro exI [of _ ths]) (auto simp: stop_server_def in_set_conv_nth)
  qed
  then obtain ths where s: "stop_server w = Inr (map Suc [0..<nat n] @ [0],
      w\<lparr>sub_threads := ths, sub_els := None, main_joinable := False\<rparr>)" "True \<notin> set ths" by blast
  let ?v = "w\<lparr>sub_threads := ths, sub_els := None, main_joinable := False\<rparr>"
  let ?is = "map Suc [0..<nat n] @ [0]"
  let ?w' = "fold (\<lambda>i. on_loop i stop) ?is ?v"
  have f: "is_stop (loops ?w' i)" if "i \<le> nat n" for i
  proof -
    have "i \<in> set ?is" using that by (cases i) auto
    then show ?thesis unfolding fold_stop by blast
  qed
  have "pool_of ?w' = pool_of ?v" "conns ?w' = conns ?v" by (rule fold_stop_pool, rule fold_stop_conns)
  then show ?thesis using s f by (intro exI [of _ ?w']) (simp add: stop_pb_def pool_of_def del: fold_append)
qed

lemma configured_pool:
  "sub_els (configured n rt wt ps svcs w) = sub_els w" "sub_threads (configured n rt wt ps svcs w) = sub_threads w"
proof -
  have s: "sub_els u = sub_els w \<and> sub_threads u = sub_threads w"
    if "u = foldl (\<lambda>w (svc, name, mds). snd (add_service svc name mds w)) w svcs" for u :: world
    unfolding that
    by (induction svcs arbitrary: w) (simp_all add: add_service_def Let_def split: prod.splits)
  have p: "sub_els u = sub_els v \<and> sub_threads u = sub_threads v"
    if "u = foldl (\<lambda>w p. snd (add_protocol p w)) v ps" for u v :: world
    unfolding that by (induction ps arbitrary: v) (simp_all add: add_protocol_def)
  show "sub_els (configured n rt wt ps svcs w) = sub_els w" "sub_threads (configured n rt wt ps svcs w) = sub_threads w"
    using s [OF refl] p [OF refl] by (simp_all add: configured_def set_thread_num_def Let_def)
qed

lemma reachable_threads:
  assumes "new_pb_world wfd lfd = Inr w0" and "start_pb wfds (configured n rt wt ps svcs w0) = Inr w"
    and "server_reachable app w s" and "k = max 0 (min 144 n)"
  shows "pool_of (fst s) = (k, True, if k = 0 then None else Some (nat k), replicate (nat k) True)"
proof -
  let ?c = "configured n rt wt ps svcs w0"
  have w0: "\<not> main_joinable ?c" "sub_els ?c = None" "sub_threads ?c = []"
    using assms(1) by (auto simp: configured_frame configured_pool new_pb_world_def and_then_Inr_iff)
  have n: "thread_num ?c = k"
    by (simp add: assms(4) configured_def set_thread_num_def MaxThreadNum_def Let_def max_def min_def)
  from started_pool [OF assms(2) w0] reachable_pool [OF assms(3)] n assms(4) show ?thesis by simp
qed


end
