(* ===== verification/Echo_Programs.thy ===== *)
theory Echo_Programs
  imports Controllers Base_Utils Client_Loop Shutdown Long_Connections Log_Records
begin

text \<open>
  The programs of \<^verbatim>\<open>examples/echo\<close>: the server with its service, and the clients that call it once,
  several times on one connection, and with a closure. What \<^verbatim>\<open>protoc\<close> generates from \<^verbatim>\<open>echo.proto\<close>
  (the messages with their serialisation) is a parameter; \<open>codec_ok\<close> is what protobuf documents of
  it. Sleeping has no effect on the state, and the lines the programs log are left out.
\<close>

section \<open>The messages\<close>

record echo_request =
  req_logid :: nat
  req_message :: "byte list"

record echo_response =
  resp_logid :: nat
  resp_result :: "byte list"

record echo_codec =
  serialise_req :: "echo_request \<Rightarrow> byte list"
  parse_req :: "byte list \<Rightarrow> echo_request option"
  serialise_resp :: "echo_response \<Rightarrow> byte list"
  parse_resp :: "byte list \<Rightarrow> echo_response option"

text \<open>A message that was serialised is parsed to itself; the fields \<^verbatim>\<open>logid\<close> are \<^verbatim>\<open>uint64\<close>.\<close>

definition codec_ok :: "echo_codec \<Rightarrow> bool" where
  "codec_ok C \<longleftrightarrow> (\<forall>x. req_logid x < 2 ^ 64 \<longrightarrow> parse_req C (serialise_req C x) = Some x) \<and>
     (\<forall>y. resp_logid y < 2 ^ 64 \<longrightarrow> parse_resp C (serialise_resp C y) = Some y)"

section \<open>The server\<close>

text \<open>\<^verbatim>\<open>EchoServiceImpl::echo\<close>: the response, and the closures the guard ran when the method returned.\<close>

definition echo_impl :: "echo_request \<Rightarrow> nat option \<Rightarrow> echo_response \<times> nat list" where
  "echo_impl request d =
     (let done_runs = guard_life d []
      in (\<lparr>resp_logid = req_logid request, resp_result = req_message request @ '' powered by EchoService''\<rparr>, done_runs))"

text \<open>The application of the server: the bytes of the request are parsed, the only method is called
  with \<^verbatim>\<open>done\<close>, and \<^verbatim>\<open>done\<close> serialises the response.\<close>

definition echo_service :: "echo_codec \<Rightarrow> app" where
  "echo_service C svc md pb_data =
     (case parse_req C pb_data of
        None \<Rightarrow> ParseFails
      | Some request \<Rightarrow>
          (case echo_impl request (Some 0) of
             (resp, [_]) \<Rightarrow> Replies (Some (serialise_resp C resp))
           | _ \<Rightarrow> Defers))"

text \<open>\<^verbatim>\<open>main\<close> up to \<^verbatim>\<open>start\<close>: the time limits and the number of threads are flags; the assertions are on.\<close>

definition echo_server_start ::
  "int \<Rightarrow> int \<Rightarrow> (nat \<Rightarrow> int) \<Rightarrow> int \<Rightarrow> int \<Rightarrow> int \<Rightarrow> world result"
where
  "echo_server_start wfd lfd wfds read_ms write_ms threads =
     and_then (new_pb_world wfd lfd) (\<lambda>w0.
     let (ok1, w1) = add_protocol SimpleProtocol w0 in
     if \<not> ok1 then Inl Aborted else
     let (ok2, w2) = add_protocol HTTPProtocol w1 in
     if \<not> ok2 then Inl Aborted else
     let (ok3, w3) = add_service 0 ''EchoService'' [(''echo'', 0)] w2 in
     if \<not> ok3 then Inl Aborted else
       start_pb wfds (set_thread_num threads (w3\<lparr>read_timeout_ms := read_ms, write_timeout_ms := write_ms\<rparr>)))"

text \<open>\<^verbatim>\<open>while (!sm.is_close()) sm.wait_for_signal()\<close>: the list says of each wait whether SIGINT came in it.\<close>

fun wait_close :: "bool list \<Rightarrow> status_manager \<Rightarrow> status_manager option" where
  "wait_close sigs s =
     (if is_close s then Some s
      else (case sigs of [] \<Rightarrow> None | b # bs \<Rightarrow> wait_close bs (if b then set_close s else s)))"

declare wait_close.simps [simp del]

text \<open>The whole program, with the state \<open>run\<close> that the loops have reached when it stops them. The result is
  the exit code with the last state, \<open>None\<close> while it waits.\<close>

definition echo_server_main ::
  "bool \<Rightarrow> log_system \<Rightarrow> int \<Rightarrow> int \<Rightarrow> (nat \<Rightarrow> int) \<Rightarrow> int \<Rightarrow> int \<Rightarrow> int \<Rightarrow> bool \<Rightarrow> (world \<Rightarrow> world) \<Rightarrow>
   bool list \<Rightarrow> (int \<times> world option) option result"
where
  "echo_server_main can_open ls wfd lfd wfds read_ms write_ms threads registers run sigs =
     (if \<not> fst (init_log_file ''log/app.log'' DEBUG 30 (TimeStamp 0 0) can_open ls) then Inr (Some (1, None))
      else and_then (echo_server_start wfd lfd wfds read_ms write_ms threads) (\<lambda>w.
        and_then (register_signals registers) (\<lambda>_.
        case wait_close sigs new_status_manager of
          None \<Rightarrow> Inr None
        | Some _ \<Rightarrow> and_then (stop_pb (run w)) (\<lambda>w'. Inr (Some (0, Some w'))))))"

section \<open>The clients\<close>

datatype 'a finish = NotConnected | Finished 'a

text \<open>A client without a loop has the null pointer for it; this stands in its place.\<close>

definition no_loop :: "unit event_loop" where
  "no_loop = \<lparr>is_stop = True, wake_count = 0, funcs = [], timers = new_timer_manager, channels = Map.empty,
     interests = Map.empty\<rparr>"

definition chosen_protocol :: "bool \<Rightarrow> protocol" where
  "chosen_protocol use_simple = (if use_simple then SimpleProtocol else HTTPProtocol)"

text \<open>The beginning of the clients that wait: \<open>f\<close> is the descriptor, \<open>answer\<close> what \<^verbatim>\<open>connect\<close> says.\<close>

definition connect_sync :: "bool \<Rightarrow> int \<Rightarrow> timestamp \<Rightarrow> connect_answer \<Rightarrow> client_world finish result" where
  "connect_sync use_simple f now answer =
     and_then (pb_client_connect None True f True now answer no_loop) (\<lambda>w.
       if \<not> connected (client w) then Inr NotConnected
       else Inr (Finished (set_protocol (Some (chosen_protocol use_simple)) w)))"

text \<open>A call of the generated stub without a closure: the message parsed from the response.\<close>

definition stub_echo ::
  "echo_codec \<Rightarrow> pb_controller \<Rightarrow> echo_request \<Rightarrow> (write_answer \<times> write_answer) list \<Rightarrow> read_answer list \<Rightarrow>
   client_world \<Rightarrow> (echo_response option \<times> client_world) option result"
where
  "stub_echo C cntl req was ras w =
     and_then (call_with (Some cntl) ''EchoService'' ''echo'' (serialise_req C req) None was ras w) (\<lambda>r.
       Inr (case r of None \<Rightarrow> None | Some (bs, w') \<Rightarrow> Some (Option.bind bs (parse_resp C), w')))"

definition sync_request :: echo_request where
  "sync_request = \<lparr>req_logid = 1000, req_message = ''helloworld''\<rparr>"

text \<open>\<^verbatim>\<open>sync_client.cpp\<close>\<close>

definition sync_client_main ::
  "echo_codec \<Rightarrow> bool \<Rightarrow> int \<Rightarrow> timestamp \<Rightarrow> connect_answer \<Rightarrow> (write_answer \<times> write_answer) list \<Rightarrow>
   read_answer list \<Rightarrow> (echo_response option \<times> client_world) finish option result"
where
  "sync_client_main C use_simple f now answer was ras =
     and_then (connect_sync use_simple f now answer) (\<lambda>r.
       case r of
         NotConnected \<Rightarrow> Inr (Some NotConnected)
       | Finished w \<Rightarrow> and_then (stub_echo C new_pb_controller sync_request was ras w) (\<lambda>r.
           Inr (map_option Finished r)))"

text \<open>\<^verbatim>\<open>long_conn_client.cpp\<close>: the loop over \<open>i\<close>, with the kernel's answers of each call.\<close>

definition long_request :: "int \<Rightarrow> echo_request" where
  "long_request i = \<lparr>req_logid = nat ((1000 + i) mod 2 ^ 64), req_message = ''helloworld '' @ print_int i\<rparr>"

fun long_calls ::
  "echo_codec \<Rightarrow> pb_controller \<Rightarrow> int \<Rightarrow> int \<Rightarrow> ((write_answer \<times> write_answer) list \<times> read_answer list) list \<Rightarrow>
   client_world \<Rightarrow> (echo_response option list \<times> client_world) option result"
where
  "long_calls C cntl num i answers w =
     (if i < num then
        (case answers of
           [] \<Rightarrow> Inr None
         | (was, ras) # rest \<Rightarrow>
             and_then (stub_echo C cntl (long_request i) was ras w) (\<lambda>r. case r of None \<Rightarrow> Inr None | Some (resp, w') \<Rightarrow>
             and_then (long_calls C cntl num (i + 1) rest w') (\<lambda>r. case r of None \<Rightarrow> Inr None | Some (resps, w'') \<Rightarrow>
               Inr (Some (resp # resps, w'')))))
      else Inr (Some ([], w)))"

declare long_calls.simps [simp del]

definition long_conn_main ::
  "echo_codec \<Rightarrow> bool \<Rightarrow> int \<Rightarrow> int \<Rightarrow> timestamp \<Rightarrow> connect_answer \<Rightarrow>
   ((write_answer \<times> write_answer) list \<times> read_answer list) list \<Rightarrow>
   (echo_response option list \<times> client_world) finish option result"
where
  "long_conn_main C use_simple call_method_num f now answer answers =
     and_then (connect_sync use_simple f now answer) (\<lambda>r.
       case r of
         NotConnected \<Rightarrow> Inr (Some NotConnected)
       | Finished w \<Rightarrow>
           and_then (long_calls C (cntl_step (SetConnType ConnType_Single) new_pb_controller) call_method_num 0 answers w)
             (\<lambda>r. Inr (map_option Finished r)))"

section \<open>The client with a closure\<close>

definition async_request :: echo_request where
  "async_request = \<lparr>req_logid = 1000, req_message = ''helloworld''\<rparr>"

text \<open>\<^verbatim>\<open>async_call\<close>: the closure is number 0.\<close>

definition async_call :: "echo_codec \<Rightarrow> client_world \<Rightarrow> (byte list option \<times> client_world) option result" where
  "async_call C w =
     call_with (Some new_pb_controller) ''EchoService'' ''echo'' (serialise_req C async_request) (Some 0) [] [] w"

text \<open>\<^verbatim>\<open>recv_resp\<close> sets \<^verbatim>\<open>get_resp\<close>: the response that closure 0 found, \<open>None\<close> before it has run.\<close>

definition recv_resp :: "echo_codec \<Rightarrow> client_world \<Rightarrow> echo_response option option" where
  "recv_resp C w = (case filter (\<lambda>r. fst r = 0) (done_runs w) of [] \<Rightarrow> None | (_, bs) # _ \<Rightarrow> Some (parse_resp C bs))"

text \<open>\<^verbatim>\<open>async_client.cpp\<close>: \<open>early\<close> is what the thread of the loop has done when the main thread looks at
  \<^verbatim>\<open>connected\<close>, \<open>late\<close> what it does until the main thread looks at \<^verbatim>\<open>get_resp\<close>. \<open>None\<close> is a main thread
  that waits. At the end the loop is stopped.\<close>

definition async_client_main ::
  "echo_codec \<Rightarrow> bool \<Rightarrow> int \<Rightarrow> int \<Rightarrow> bool \<Rightarrow> timestamp \<Rightarrow> connect_answer \<Rightarrow> client_event list \<Rightarrow> client_event list \<Rightarrow>
   (echo_response option \<times> client_world) option result"
where
  "async_client_main C use_simple wfd f nb now answer early late =
     and_then (new_event_loop 0 wfd) (\<lambda>l.
     and_then (pb_client_connect (Some 0) True f nb now answer l) (\<lambda>w.
     and_then (client_loop_run early w) (\<lambda>w1.
     if \<not> connected (client w1) then Inr None
     else
       and_then (async_call C (set_protocol (Some (chosen_protocol use_simple)) w1)) (\<lambda>r.
       case r of
         None \<Rightarrow> Inr None
       | Some (_, w2) \<Rightarrow>
           and_then (client_loop_run late w2) (\<lambda>w3.
           case recv_resp C w3 of
             None \<Rightarrow> Inr None
           | Some resp \<Rightarrow> Inr (Some (resp, w3\<lparr>client_loop := stop (client_loop w3)\<rparr>)))))))"

end
