(* ===== verification/Echo_Runs.thy ===== *)
theory Echo_Runs
  imports Echo_Programs
begin

text \<open>
  The programs of \<^verbatim>\<open>examples/echo\<close> run together: the server is started as its \<^verbatim>\<open>main\<close> starts it, accepts a
  client, and each client gets the answers to all its calls, over the bytes that both sides
  exchange. The events are those of an undisturbed run: no time limit passes, and the sockets
  take and give whole messages.
\<close>

section \<open>The connection that was accepted\<close>

lemma new_connection_ready:
  assumes w: "world_inv w" and a: "conns w a = None" and f: "f \<notin> open_fds w" "f \<noteq> -1"
  shows "\<exists>w' i c. acceptor_handle_events now EPOLLIN (Accepted f) a True w = Inr w' \<and> own (Some i) a c w' \<and>
    awaiting c \<and> rbuf c = new_buffer InitialBufferSize \<and> fd c = f \<and> proto_idx c = 0 \<and>
    protocols w' = protocols w \<and> services w' = services w \<and> sent w' = sent w"
proof -
  let ?v = "w\<lparr>open_fds := insert f (open_fds w)\<rparr>"
  let ?r = "new_connection_callback now a True f ?v"
  have "pool_ok ?v" using w by (simp add: world_inv_def world_reg_def pool_ok_def)
  from get_next_el_ok [OF this] obtain i w1 where i: "get_next_el ?v = Inr (i, w1)" by blast
  have g: "protocols w1 = protocols w \<and> services w1 = services w \<and> sent w1 = sent w \<and> loops w1 = loops w"
    using i by (auto simp: get_next_el_def Let_def split: if_splits option.splits)
  have k: "interests (loops w i) f = None" using w f(1) by (simp add: world_inv_def world_reg_closed)
  let ?c = "(new_tcp_connection f (Some i) True now)\<lparr>event := EPOLLIN, sevent := EPOLLIN\<rparr>"
  obtain w2 where u: "update_conn a (put_conn a ((new_tcp_connection f (Some i) True now)\<lparr>event := EPOLLIN\<rparr>)
      (on_loop i (add_channel a now) w1)) = Inr w2" "conns w2 a = Some ?c"
    "protocols w2 = protocols w \<and> services w2 = services w \<and> sent w2 = sent w"
    using k g by (simp add: update_conn_def get_conn_def loop_of_def update_on_loop_def new_tcp_connection_def
        update_channel_def do_epoll_ctl_def put_conn_def on_loop_def add_channel_def)
  obtain w3 c where t: "(if read_timeout_ms w2 > 0 then start_timer a now (read_timeout_ms w2) True w2 else Inr w2) = Inr w3"
    "conns w3 a = Some c" "c = ?c \<or> c = bump_timer ?c"
    "protocols w3 = protocols w \<and> services w3 = services w \<and> sent w3 = sent w"
    using u(2,3) by (cases "read_timeout_ms w2 > 0")
      (auto simp: start_timer_def get_conn_def loop_of_def new_tcp_connection_def bump_timer_def put_conn_def on_loop_def)
  let ?d = "c\<lparr>data_read_cb := Some DataReadCb, close_cb := Some CloseCb, write_complete_cb := Some WriteCompleteCb\<rparr>"
  have r: "?r = Inr (put_conn a ?d w3)"
    using i u(1) t(1,2)
    by (simp add: new_connection_callback_def set_event_def get_conn_def)
       (simp add: put_conn_def on_loop_def)
  have "safe (handled None a w) ?r" by (rule new_connection_handled [OF w a f])
  then have "world_inv (put_conn a ?d w3)" unfolding r by (simp add: safe_def handled_def)
  from own_inv [OF this, of a ?d] have "own (Some i) a ?d (put_conn a ?d w3)"
    using t(3) by (auto simp: new_tcp_connection_def bump_timer_def)
  moreover have "awaiting ?d"
    using t(3) by (auto simp: awaiting_def new_tcp_connection_def bump_timer_def new_buffer_def InitialBufferSize_def
        buf_ok_def pack_room_def)
  ultimately show ?thesis
    using r t(3,4)
    by (intro exI [of _ "put_conn a ?d w3"] exI [of _ i] exI [of _ ?d])
       (auto simp: acceptor_handle_events_def new_tcp_connection_def bump_timer_def)
qed

section \<open>The server starts\<close>

text \<open>What the program registers is the configuration of one service and both protocols, so all that is
  shown of a server that was configured and started holds of it.\<close>

lemma echo_server_configured:
  assumes "new_pb_world wfd lfd = Inr w0"
  shows "echo_server_start wfd lfd wfds read_ms write_ms threads =
    start_pb wfds (configured threads read_ms write_ms [SimpleProtocol, HTTPProtocol]
      [(0, ''EchoService'', [(''echo'', 0)])] w0)"
proof -
  have "protocols w0 = [] \<and> name2protocols w0 = Map.empty \<and> services w0 = Map.empty"
    using assms by (auto simp: new_pb_world_def and_then_Inr_iff)
  with assms show ?thesis
    by (cases w0)
       (simp add: echo_server_start_def add_protocol_def add_service_def configured_def set_thread_num_def Let_def)
qed

lemma make_loops_frame:
  "make_loops k wfd w = Inr w' \<Longrightarrow> protocols w' = protocols w \<and> services w' = services w \<and> sent w' = sent w \<and>
    conns w' = conns w \<and> open_fds w' \<subseteq> open_fds w \<union> range wfd"
  by (induction k arbitrary: w') (fastforce simp: and_then_Inr_iff on_loop_def)+

lemma start_pb_frame:
  "start_pb wfd w = Inr w' \<Longrightarrow> protocols w' = protocols w \<and> services w' = services w \<and> sent w' = sent w \<and>
    conns w' = conns w \<and> open_fds w' \<subseteq> open_fds w \<union> range wfd"
  using make_loops_frame
  by (fastforce simp: start_pb_def and_then_Inr_iff start_server_def Let_def split: if_splits)

lemma echo_server_started:
  assumes "wfd \<noteq> lfd"
  shows "\<exists>w. echo_server_start wfd lfd wfds read_ms write_ms threads = Inr w \<and> system_ok (w, \<lambda>_. Idle) \<and>
    protocols w = [SimpleProtocol, HTTPProtocol] \<and> find_service_method ''EchoService'' ''echo'' w = Some (0, 0) \<and>
    sent w = (\<lambda>_. []) \<and> conns w = Map.empty \<and> open_fds w \<subseteq> {wfd, lfd} \<union> range wfds"
proof -
  let ?conf = "configured threads read_ms write_ms [SimpleProtocol, HTTPProtocol] [(0, ''EchoService'', [(''echo'', 0)])]"
  from boot_ok [OF assms, of wfds threads read_ms write_ms] obtain w0 w where w: "new_pb_world wfd lfd = Inr w0"
    "start_pb wfds (?conf w0) = Inr w" "system_ok (w, \<lambda>_. Idle)" by blast
  have "protocols (?conf w0) = [SimpleProtocol, HTTPProtocol] \<and> sent (?conf w0) = (\<lambda>_. []) \<and> conns (?conf w0) = Map.empty \<and>
      services (?conf w0) = [''EchoService'' \<mapsto> (0, [''echo'' \<mapsto> 0])] \<and> open_fds (?conf w0) = {wfd, lfd}"
    using w(1) by (auto simp: new_pb_world_def and_then_Inr_iff configured_def add_protocol_def add_service_def
        set_thread_num_def Let_def)
  with start_pb_frame [OF w(2)] w echo_server_configured [OF w(1)] show ?thesis
    by (auto simp: find_service_method_def)
qed

section \<open>One call\<close>

definition echo_answer :: "echo_request \<Rightarrow> echo_response" where
  "echo_answer request =
     \<lparr>resp_logid = req_logid request, resp_result = req_message request @ '' powered by EchoService''\<rparr>"

lemma echo_service_replies:
  assumes "codec_ok C" and "req_logid req < 2 ^ 64"
  shows "echo_service C s m (serialise_req C req) = Replies (Some (serialise_resp C (echo_answer req)))"
  using assms by (simp add: echo_service_def codec_ok_def echo_impl_def echo_answer_def guard_life_def)

text \<open>The bytes of a call: what the client sends, and what the server answers.\<close>

definition echo_bytes :: "echo_codec \<Rightarrow> protocol \<Rightarrow> conn_type \<Rightarrow> echo_request \<Rightarrow> byte list" where
  "echo_bytes C pr ct req = request_wire pr ct ''EchoService'' ''echo'' (serialise_req C req)"

definition echo_reply_bytes :: "echo_codec \<Rightarrow> protocol \<Rightarrow> conn_type \<Rightarrow> echo_request \<Rightarrow> byte list" where
  "echo_reply_bytes C pr ct req =
     response_wire pr (seen_type pr ConnType_Short ct) RpcStatus_OK (serialise_resp C (echo_answer req))"

text \<open>Both fit the buffers as they are made, and \<open>k\<close> bytes of room in the sockets.\<close>

definition echo_fits :: "echo_codec \<Rightarrow> protocol \<Rightarrow> conn_type \<Rightarrow> nat \<Rightarrow> echo_request \<Rightarrow> bool" where
  "echo_fits C pr ct k req \<longleftrightarrow> req_logid req < 2 ^ 64 \<and> length (echo_bytes C pr ct req) \<le> min 1024 k \<and>
     length (echo_reply_bytes C pr ct req) \<le> min 1024 k"

lemma echo_fits_lengths:
  assumes "echo_fits C pr ct k req"
  shows "length (serialise_req C req) \<le> 1024" and "length (serialise_resp C (echo_answer req)) \<le> 1024"
    and "message_fits ''EchoService'' ''echo'' (serialise_req C req)" and "path_ok pr ''EchoService'' ''echo''"
proof -
  show "length (serialise_req C req) \<le> 1024" using assms
    by (cases pr) (auto simp: echo_fits_def echo_bytes_def simple_request_wire_def http_request_wire_def http_head_wire_def)
  then show "message_fits ''EchoService'' ''echo'' (serialise_req C req)" by (simp add: message_fits_def)
  show "length (serialise_resp C (echo_answer req)) \<le> 1024" using assms
    by (cases pr) (auto simp: echo_fits_def echo_reply_bytes_def simple_response_wire_def http_response_wire_def http_head_wire_def)
  show "path_ok pr ''EchoService'' ''echo''" by (cases pr) (simp_all add: plain_def)
qed

lemma seen_single: "seen_type pr ConnType_Short ConnType_Single \<noteq> ConnType_Short"
  by (cases pr) (simp_all add: conn_type_read_def)

lemma seen_short: "seen_type pr ConnType_Short ConnType_Short = ConnType_Short"
  by (cases pr) (simp_all add: conn_type_read_def)

lemma stub_answered:
  assumes C: "codec_ok C" "req_logid req < 2 ^ 64"
    and r: "call_method (cntl_conn_type cntl) ''EchoService'' ''echo'' (serialise_req C req) None was ras cw =
      Inr (Some (Some (serialise_resp C (echo_answer req)), cw'))"
  shows "stub_echo C cntl req was ras cw = Inr (Some (Some (echo_answer req), cw'))"
  using C r by (simp add: stub_echo_def call_with_def codec_ok_def) (simp add: echo_answer_def)

lemma echo_exchange:
  assumes C: "codec_ok C" and fits: "echo_fits C pr ConnType_Single k req"
    and w: "ready i p f pr 1024 w" "find_service_method ''EchoService'' ''echo'' w = Some (s, m)"
    and cw: "client_ready pr 1024 16 cw" and cntl: "cntl_conn_type cntl = ConnType_Single"
  shows "\<exists>w' cw' resp. one_call (echo_service C) now i p k (echo_bytes C pr ConnType_Single req) w = Inr w' \<and>
    ready i p f pr 1024 w' \<and> services w' = services w \<and> sent w' f = sent w f @ resp \<and>
    stub_echo C cntl req [(Room k, Room k)] [Pending resp] cw = Inr (Some (Some (echo_answer req), cw')) \<and>
    client_ready pr 1024 16 cw' \<and> client_sent cw' = client_sent cw @ echo_bytes C pr ConnType_Single req"
proof -
  let ?pl = "serialise_req C req" and ?out = "serialise_resp C (echo_answer req)"
  let ?x = "(''EchoService'', ''echo'', ?pl, ?out)"
  have id: "req_logid req < 2 ^ 64" using fits by (simp add: echo_fits_def)
  note len = echo_fits_lengths [OF fits]
  have out: "length ?out < 2 ^ 31" using len(2) by simp
  have "good_call (echo_service C) w pr ConnType_Single 1024 k ?x"
    using len fits w(2) out echo_service_replies [OF C id]
    by (simp add: good_call_def echo_fits_def echo_bytes_def echo_reply_bytes_def)
  from one_call_ready [OF w(1) this seen_single, of now] obtain w' where w':
    "one_call (echo_service C) now i p k (echo_bytes C pr ConnType_Single req) w = Inr w'"
    "ready i p f pr 1024 w'" "services w' = services w"
    "sent w' f = sent w f @ echo_reply_bytes C pr ConnType_Single req"
    by (auto simp: request_of_def response_of_def echo_bytes_def echo_reply_bytes_def)
  from fits have sz: "length (request_wire pr ConnType_Single ''EchoService'' ''echo'' ?pl) \<le> k"
    "length (response_wire pr (seen_type pr ConnType_Short ConnType_Single) RpcStatus_OK ?out) \<le> 1024"
    by (simp_all add: echo_fits_def echo_bytes_def echo_reply_bytes_def)
  from client_next_call [OF cw _ _ len(3) sz out, of "[]" "[]"] obtain cw' where
    "call_method ConnType_Single ''EchoService'' ''echo'' ?pl None [(Room k, Room k)]
       [Pending (echo_reply_bytes C pr ConnType_Single req)] cw = Inr (Some (Some ?out, cw'))"
    "client_ready pr 1024 16 cw'" "client_sent cw' = client_sent cw @ echo_bytes C pr ConnType_Single req"
    by (auto simp: echo_bytes_def echo_reply_bytes_def)
  with w' stub_answered [OF C id, of cntl] cntl show ?thesis by metis
qed

section \<open>The client of one connection\<close>

lemma connect_sync_ok:
  "f \<noteq> -1 \<Longrightarrow> \<exists>w. connect_sync use_simple f now ConnectOk = Inr (Finished w) \<and>
     client_ready (chosen_protocol use_simple) 1024 16 w \<and> client_sent w = []"
  by (auto simp: connect_sync_def pb_client_connect_def set_protocol_def client_ready_def new_pb_client_def
      new_tcp_connection_def tcp_connection.defs on_client_def idle_client_def new_buffer_def InitialBufferSize_def
      buf_ok_def pack_room_def clear_def)

lemma long_calls_served:
  assumes C: "codec_ok C" and cntl: "cntl_conn_type cntl = ConnType_Single"
    and "\<forall>j \<in> {i..<num}. echo_fits C pr ConnType_Single k (long_request j)"
    and "ready e p f pr 1024 w" and "find_service_method ''EchoService'' ''echo'' w = Some (s, m)"
    and "client_ready pr 1024 16 cw"
  shows "\<exists>w' cw' resps.
    all_calls (echo_service C) now e p k (map (\<lambda>j. echo_bytes C pr ConnType_Single (long_request j)) [i..num - 1]) w = Inr w' \<and>
    ready e p f pr 1024 w' \<and> sent w' f = sent w f @ concat resps \<and>
    long_calls C cntl num i (map (\<lambda>r. ([(Room k, Room k)], [Pending r])) resps) cw =
      Inr (Some (map (\<lambda>j. Some (echo_answer (long_request j))) [i..num - 1], cw')) \<and>
    client_sent cw' = client_sent cw @ concat (map (\<lambda>j. echo_bytes C pr ConnType_Single (long_request j)) [i..num - 1])"
  using assms(3-)
proof (induction "nat (num - i)" arbitrary: i w cw)
  case 0
  then show ?case by (intro exI [of _ w] exI [of _ cw] exI [of _ "[]"]) (simp add: long_calls.simps)
next
  case (Suc n)
  then have i: "i < num" by simp
  let ?b = "\<lambda>j. echo_bytes C pr ConnType_Single (long_request j)"
  have up: "[i..num - 1] = i # [i + 1..num - 1]" using i by (simp add: upto_rec1)
  have "echo_fits C pr ConnType_Single k (long_request i)" using Suc.prems(1) i by simp
  from echo_exchange [OF C this Suc.prems(2,3,4) cntl, of now] obtain w1 cw1 r where step:
    "one_call (echo_service C) now e p k (?b i) w = Inr w1" "ready e p f pr 1024 w1" "services w1 = services w"
    "sent w1 f = sent w f @ r"
    "stub_echo C cntl (long_request i) [(Room k, Room k)] [Pending r] cw = Inr (Some (Some (echo_answer (long_request i)), cw1))"
    "client_ready pr 1024 16 cw1" "client_sent cw1 = client_sent cw @ ?b i" by blast
  have svc: "find_service_method ''EchoService'' ''echo'' w1 = Some (s, m)"
    using Suc.prems(3) step(3) by (simp add: find_service_method_def)
  have "n = nat (num - (i + 1))" using Suc.hyps(2) by simp
  from Suc.hyps(1) [OF this _ step(2) svc step(6)] Suc.prems(1) obtain w' cw' rs where
    "all_calls (echo_service C) now e p k (map ?b [i + 1..num - 1]) w1 = Inr w'"
    "ready e p f pr 1024 w'" "sent w' f = sent w1 f @ concat rs"
    "long_calls C cntl num (i + 1) (map (\<lambda>r. ([(Room k, Room k)], [Pending r])) rs) cw1 =
      Inr (Some (map (\<lambda>j. Some (echo_answer (long_request j))) [i + 1..num - 1], cw'))"
    "client_sent cw' = client_sent cw1 @ concat (map ?b [i + 1..num - 1])" by auto
  with step i show ?case unfolding up
    by (intro exI [of _ w'] exI [of _ cw'] exI [of _ "r # rs"])
       (simp add: long_calls.simps [of C cntl num i])
qed

section \<open>The programs together\<close>

text \<open>The server as it is started, with a client that has connected to it.\<close>

lemma echo_accepted:
  assumes "wfd \<noteq> lfd" and f: "f \<notin> {wfd, lfd} \<union> range wfds" "f \<noteq> -1"
  shows "\<exists>w0 w1 e c. echo_server_start wfd lfd wfds read_ms write_ms threads = Inr w0 \<and>
    acceptor_handle_events t EPOLLIN (Accepted f) a True w0 = Inr w1 \<and>
    find_service_method ''EchoService'' ''echo'' w1 = Some (0, 0) \<and> sent w1 f = [] \<and>
    own (Some e) a c w1 \<and> awaiting c \<and> rbuf c = new_buffer InitialBufferSize \<and> fd c = f \<and> proto_idx c = 0 \<and>
    protocols w1 = [SimpleProtocol, HTTPProtocol]"
proof -
  from echo_server_started [OF assms(1), of wfds read_ms write_ms threads] obtain w0 where w0:
    "echo_server_start wfd lfd wfds read_ms write_ms threads = Inr w0" "world_inv w0" "conns w0 a = None"
    "protocols w0 = [SimpleProtocol, HTTPProtocol]" "find_service_method ''EchoService'' ''echo'' w0 = Some (0, 0)"
    "sent w0 f = []" "open_fds w0 \<subseteq> {wfd, lfd} \<union> range wfds" by (auto simp: system_ok_def)
  have "f \<notin> open_fds w0" using w0(7) f(1) by blast
  from new_connection_ready [OF w0(2,3) this f(2), of t] w0 show ?thesis
    by (fastforce simp: find_service_method_def)
qed

lemma buffer_made: "unread (new_buffer InitialBufferSize) = []" "writeable (new_buffer InitialBufferSize) = 1024"
  by (simp_all add: new_buffer_def InitialBufferSize_def unread_def writeable_def sz_sub_def)

definition protocol_number :: "bool \<Rightarrow> nat" where
  "protocol_number use_simple = (if use_simple then 0 else 1)"

lemma protocol_chosen:
  "protocol_number b < length [SimpleProtocol, HTTPProtocol]"
  "[SimpleProtocol, HTTPProtocol] ! protocol_number b = chosen_protocol b"
  "k < protocol_number b \<Longrightarrow> [SimpleProtocol, HTTPProtocol] ! k \<noteq> chosen_protocol b"
  by (simp_all add: protocol_number_def chosen_protocol_def split: if_splits)

text \<open>C3. The echo server, started, and the long-connection client: after connect and accept,
  every call of the client is answered with the echo of its request, in order, on the one
  connection, for any number of calls and either protocol.\<close>

lemma long_client_served:
  assumes fds: "wfd \<noteq> lfd" "f \<notin> {wfd, lfd} \<union> range wfds" "f \<noteq> -1" "cf \<noteq> -1" and C: "codec_ok C"
    and fits: "\<forall>j \<in> {0..<num}. echo_fits C (chosen_protocol use_simple) ConnType_Single k (long_request j)"
  shows "\<exists>w0 w1 w2 e cw resps. echo_server_start wfd lfd wfds read_ms write_ms threads = Inr w0 \<and>
    acceptor_handle_events t EPOLLIN (Accepted f) a True w0 = Inr w1 \<and>
    all_calls (echo_service C) t e a k (map (\<lambda>j. echo_bytes C (chosen_protocol use_simple) ConnType_Single (long_request j))
      [0..num - 1]) w1 = Inr w2 \<and> sent w2 f = concat resps \<and>
    long_conn_main C use_simple num cf t ConnectOk (map (\<lambda>r. ([(Room k, Room k)], [Pending r])) resps) =
      Inr (Some (Finished (map (\<lambda>j. Some (echo_answer (long_request j))) [0..num - 1], cw))) \<and>
    client_sent cw = concat (map (\<lambda>j. echo_bytes C (chosen_protocol use_simple) ConnType_Single (long_request j)) [0..num - 1])"
proof -
  let ?pr = "chosen_protocol use_simple"
  let ?cntl = "cntl_step (SetConnType ConnType_Single) new_pb_controller"
  from echo_accepted [OF fds(1-3), of read_ms write_ms threads t a] obtain w0 w1 e c where w:
    "echo_server_start wfd lfd wfds read_ms write_ms threads = Inr w0"
    "acceptor_handle_events t EPOLLIN (Accepted f) a True w0 = Inr w1"
    "find_service_method ''EchoService'' ''echo'' w1 = Some (0, 0)" "sent w1 f = []"
    and c: "own (Some e) a c w1" "awaiting c" "rbuf c = new_buffer InitialBufferSize" "fd c = f" "proto_idx c = 0"
    "protocols w1 = [SimpleProtocol, HTTPProtocol]" by blast
  have ready: "ready e a f ?pr 1024 w1"
    unfolding ready_def using c buffer_made protocol_chosen
    by (intro exI [of _ c] exI [of _ "protocol_number use_simple"]) auto
  from connect_sync_ok [OF fds(4)] obtain cw where cw: "connect_sync use_simple cf t ConnectOk = Inr (Finished cw)"
    "client_ready ?pr 1024 16 cw" "client_sent cw = []" by blast
  have "cntl_conn_type ?cntl = ConnType_Single" by simp
  from long_calls_served [where now = t, OF C this fits ready w(3) cw(2)] w cw show ?thesis
    by (fastforce simp: long_conn_main_def)
qed

text \<open>The server's side of a call after which it closes.\<close>

lemma short_call_served:
  assumes C: "codec_ok C" and fits: "echo_fits C pr ConnType_Short k req" and pr: "pr = chosen_protocol use_simple"
    and svc: "find_service_method ''EchoService'' ''echo'' w = Some (0, 0)" "sent w f = []"
    and c: "own (Some e) a c w" "awaiting c" "rbuf c = new_buffer InitialBufferSize" "fd c = f" "proto_idx c = 0"
      "protocols w = [SimpleProtocol, HTTPProtocol]"
  shows "\<exists>w2. one_call (echo_service C) t e a k (echo_bytes C pr ConnType_Short req) w = Inr w2 \<and>
    sent w2 f = response_wire pr ConnType_Short RpcStatus_OK (serialise_resp C (echo_answer req)) \<and>
    conns w2 a = None \<and> f \<notin> open_fds w2"
proof -
  let ?pl = "serialise_req C req" and ?out = "serialise_resp C (echo_answer req)"
  have id: "req_logid req < 2 ^ 64" using fits by (simp add: echo_fits_def)
  note len = echo_fits_lengths [OF fits]
  have out: "length ?out < 2 ^ 31" using len(2) by simp
  have sz: "length (request_wire pr ConnType_Short ''EchoService'' ''echo'' ?pl) \<le> 1024"
    "length (response_wire pr ConnType_Short RpcStatus_OK ?out) \<le> k"
    using fits by (simp_all add: echo_fits_def echo_bytes_def echo_reply_bytes_def seen_short)
  have "can_call w c (protocol_number use_simple) pr ''EchoService'' ''echo'' ?pl"
    using len(3,4) c(5,6) protocol_chosen pr by (auto simp: can_call_def)
  from served_over_sockets [where app = "echo_service C" and now = t and later = t and ct = ConnType_Short and
      ra = "Pending []" and k = k and n = k and ?wa1.0 = "Room 0" and ?wa2.0 = "Room 0",
      OF c(1,2) _ this _ svc(1) echo_service_replies [OF C id] out] c buffer_made sz
  show ?thesis unfolding seen_short by (auto simp: one_call_def echo_bytes_def call_over_def svc(2))
qed

lemma sync_client_served:
  assumes fds: "wfd \<noteq> lfd" "f \<notin> {wfd, lfd} \<union> range wfds" "f \<noteq> -1" "cf \<noteq> -1" and C: "codec_ok C"
    and fits: "echo_fits C (chosen_protocol use_simple) ConnType_Short k sync_request"
  shows "\<exists>w0 w1 w2 e cw resp. echo_server_start wfd lfd wfds read_ms write_ms threads = Inr w0 \<and>
    acceptor_handle_events t EPOLLIN (Accepted f) a True w0 = Inr w1 \<and>
    one_call (echo_service C) t e a k (echo_bytes C (chosen_protocol use_simple) ConnType_Short sync_request) w1 = Inr w2 \<and>
    sent w2 f = resp \<and> conns w2 a = None \<and> f \<notin> open_fds w2 \<and>
    sync_client_main C use_simple cf t ConnectOk [(Room k, Room k)] [Pending resp] =
      Inr (Some (Finished (Some (echo_answer sync_request), cw))) \<and>
    client_sent cw = echo_bytes C (chosen_protocol use_simple) ConnType_Short sync_request"
proof -
  let ?pr = "chosen_protocol use_simple"
  let ?pl = "serialise_req C sync_request" and ?out = "serialise_resp C (echo_answer sync_request)"
  from echo_accepted [OF fds(1-3), of read_ms write_ms threads t a] obtain w0 w1 e c where w:
    "echo_server_start wfd lfd wfds read_ms write_ms threads = Inr w0"
    "acceptor_handle_events t EPOLLIN (Accepted f) a True w0 = Inr w1"
    "find_service_method ''EchoService'' ''echo'' w1 = Some (0, 0)" "sent w1 f = []"
    and c: "own (Some e) a c w1" "awaiting c" "rbuf c = new_buffer InitialBufferSize" "fd c = f" "proto_idx c = 0"
    "protocols w1 = [SimpleProtocol, HTTPProtocol]" by blast
  have id: "req_logid sync_request < 2 ^ 64" using fits by (simp add: echo_fits_def)
  note len = echo_fits_lengths [OF fits]
  have out: "length ?out < 2 ^ 31" using len(2) by simp
  from fits have sz: "length (request_wire ?pr ConnType_Short ''EchoService'' ''echo'' ?pl) \<le> k"
    "length (response_wire ?pr ConnType_Short RpcStatus_OK ?out) \<le> 1024"
    by (simp_all add: echo_fits_def echo_bytes_def echo_reply_bytes_def seen_short)
  from short_call_served [OF C fits refl w(3,4) c, of t] obtain w2 where w2:
    "one_call (echo_service C) t e a k (echo_bytes C ?pr ConnType_Short sync_request) w1 = Inr w2"
    "sent w2 f = response_wire ?pr ConnType_Short RpcStatus_OK ?out" "conns w2 a = None" "f \<notin> open_fds w2" by blast
  from connect_sync_ok [OF fds(4)] obtain cw where cw: "connect_sync use_simple cf t ConnectOk = Inr (Finished cw)"
    "client_ready ?pr 1024 16 cw" "client_sent cw = []" by blast
  from client_next_call [OF cw(2) _ _ len(3) sz out, of "[]" "[]"] obtain cw' where cw':
    "call_method ConnType_Short ''EchoService'' ''echo'' ?pl None [(Room k, Room k)]
       [Pending (response_wire ?pr ConnType_Short RpcStatus_OK ?out)] cw = Inr (Some (Some ?out, cw'))"
    "client_sent cw' = echo_bytes C ?pr ConnType_Short sync_request"
    by (auto simp: echo_bytes_def cw(3))
  have "stub_echo C new_pb_controller sync_request [(Room k, Room k)]
      [Pending (response_wire ?pr ConnType_Short RpcStatus_OK ?out)] cw = Inr (Some (Some (echo_answer sync_request), cw'))"
    by (rule stub_answered [OF C id]) (simp add: new_pb_controller_def cw'(1))
  then show ?thesis using w(1,2) w2 cw(1) cw'(2) by (auto simp: sync_client_main_def)
qed

text \<open>The client with a closure, up to the call: its loop runs the function that waits for the
  connection, and the socket becomes writable.\<close>

lemma async_connects:
  assumes "cf \<noteq> -1" and "cf \<noteq> cwfd"
  shows "\<exists>(l :: unit event_loop) v u. new_event_loop 0 cwfd = Inr l \<and>
    pb_client_connect (Some 0) True cf True t (ConnectErr EINPROGRESS) l = Inr v \<and>
    client_loop_run [RunFuncs, ClientIO EPOLLOUT (Pending []) (Room 0) (Room 0) (Some 0)] v = Inr u \<and>
    connected (client u) \<and> at_rest (set_protocol (Some pr) u) \<and>
    rbuf (client u) = new_buffer InitialBufferSize \<and> wbuf (client u) = new_buffer InitialBufferSize \<and>
    client_sent u = [] \<and> done_runs u = []"
proof -
  obtain l :: "unit event_loop" where l: "new_event_loop 0 cwfd = Inr l" "new_to cf l"
    using assms(2) by (simp add: new_event_loop_ok new_to_def)
  from connect_in_progress [OF assms(1) l(2), of 0 t] obtain v0 v where v:
    "pb_client_connect (Some 0) True cf True t (ConnectErr EINPROGRESS) l = Inr v0" "run_funcs v0 = Inr v"
    "connecting v" "rbuf (client v) = new_buffer InitialBufferSize" "wbuf (client v) = new_buffer InitialBufferSize"
    "client_sent v = []" "done_runs v = []" by blast
  from connect_done [OF v(3), of "Pending []" "Room 0" "Room 0"] obtain u where u:
    "client_handle_events EPOLLOUT (Pending []) (Room 0) (Room 0) (Some 0) v = Inr u" "at_rest u"
    "rbuf (client u) = new_buffer InitialBufferSize" "wbuf (client u) = new_buffer InitialBufferSize"
    "client_sent u = []" "done_runs u = []" using v by auto
  have "at_rest (set_protocol (Some pr) u)" "connected (client u)"
    using u(2) by (simp_all add: set_protocol_def at_rest_def in_loop_def registered_def)
  with l(1) v(1,2) u show ?thesis by (intro exI [of _ l] exI [of _ v0] exI [of _ u]) simp
qed

text \<open>The client with a closure, whose thread finds the connection made.\<close>

text \<open>C17. The echo server and the client with a closure: the client connects in its loop,
  calls, and its closure gets the echo of its request; the server closes the short
  connection.\<close>

lemma async_client_served:
  assumes fds: "wfd \<noteq> lfd" "f \<notin> {wfd, lfd} \<union> range wfds" "f \<noteq> -1" "cf \<noteq> -1" "cf \<noteq> cwfd" and C: "codec_ok C"
    and fits: "echo_fits C (chosen_protocol use_simple) ConnType_Short k async_request"
  shows "\<exists>w0 w1 w2 e cw resp. echo_server_start wfd lfd wfds read_ms write_ms threads = Inr w0 \<and>
    acceptor_handle_events t EPOLLIN (Accepted f) a True w0 = Inr w1 \<and>
    one_call (echo_service C) t e a k (echo_bytes C (chosen_protocol use_simple) ConnType_Short async_request) w1 = Inr w2 \<and>
    sent w2 f = resp \<and> conns w2 a = None \<and> f \<notin> open_fds w2 \<and>
    async_client_main C use_simple cwfd cf True t (ConnectErr EINPROGRESS)
      [RunFuncs, ClientIO EPOLLOUT (Pending []) (Room 0) (Room 0) (Some 0)]
      [RunFuncs, ClientIO EPOLLOUT (Pending []) (Room k) (Room k) None, ClientIO EPOLLIN (Pending resp) (Room 0) (Room 0) None] =
      Inr (Some (Some (echo_answer async_request), cw)) \<and>
    client_sent cw = echo_bytes C (chosen_protocol use_simple) ConnType_Short async_request"
proof -
  let ?pr = "chosen_protocol use_simple"
  let ?pl = "serialise_req C async_request" and ?out = "serialise_resp C (echo_answer async_request)"
  from echo_accepted [OF fds(1-3), of read_ms write_ms threads t a] obtain w0 w1 e c where w:
    "echo_server_start wfd lfd wfds read_ms write_ms threads = Inr w0"
    "acceptor_handle_events t EPOLLIN (Accepted f) a True w0 = Inr w1"
    "find_service_method ''EchoService'' ''echo'' w1 = Some (0, 0)" "sent w1 f = []"
    and c: "own (Some e) a c w1" "awaiting c" "rbuf c = new_buffer InitialBufferSize" "fd c = f" "proto_idx c = 0"
    "protocols w1 = [SimpleProtocol, HTTPProtocol]" by blast
  have id: "req_logid async_request < 2 ^ 64" using fits by (simp add: echo_fits_def)
  note len = echo_fits_lengths [OF fits]
  have out: "length ?out < 2 ^ 31" using len(2) by simp
  from short_call_served [OF C fits refl w(3,4) c, of t] obtain w2 where w2:
    "one_call (echo_service C) t e a k (echo_bytes C ?pr ConnType_Short async_request) w1 = Inr w2"
    "sent w2 f = response_wire ?pr ConnType_Short RpcStatus_OK ?out" "conns w2 a = None" "f \<notin> open_fds w2" by blast
  from async_connects [OF fds(4,5), of t ?pr] obtain l :: "unit event_loop" and v0 u where
    l: "new_event_loop 0 cwfd = Inr l"
    and v: "pb_client_connect (Some 0) True cf True t (ConnectErr EINPROGRESS) l = Inr v0"
    and early: "client_loop_run [RunFuncs, ClientIO EPOLLOUT (Pending []) (Room 0) (Room 0) (Some 0)] v0 = Inr u"
    and u: "connected (client u)" "at_rest (set_protocol (Some ?pr) u)" "rbuf (client u) = new_buffer InitialBufferSize"
      "wbuf (client u) = new_buffer InitialBufferSize" "client_sent u = []" "done_runs u = []" by blast
  let ?u = "set_protocol (Some ?pr) u"
  have rest: "client_protocol (client ?u) = Some ?pr" "rbuf (client ?u) = new_buffer InitialBufferSize"
    "wbuf (client ?u) = new_buffer InitialBufferSize" "client_sent ?u = []" "done_runs ?u = []"
    using u by (simp_all add: set_protocol_def)
  have room: "pack_room (clear (wbuf (client ?u))) ''EchoService'' ''echo''" "buf_ok (rbuf (client ?u))"
    using rest(2,3) by (simp_all add: pack_room_def clear_def new_buffer_def InitialBufferSize_def buf_ok_def)
  have sz: "length (request_wire ?pr ConnType_Short ''EchoService'' ''echo'' ?pl) \<le> k"
    "length (response_wire ?pr ConnType_Short RpcStatus_OK ?out) \<le> length (data (rbuf (client ?u)))"
    using fits rest(2)
    by (simp_all add: echo_fits_def echo_bytes_def echo_reply_bytes_def seen_short new_buffer_def InitialBufferSize_def)
  from call_through_loop [OF u(2) rest(1) room(1) len(3) sz(1) room(2) sz(2) out, of 0 "[]" "[]"] obtain u1 u2 where call:
    "call_method ConnType_Short ''EchoService'' ''echo'' ?pl (Some 0) [] [] ?u = Inr (Some (None, u1))"
    "client_loop_run [RunFuncs, ClientIO EPOLLOUT (Pending []) (Room k) (Room k) None,
      ClientIO EPOLLIN (Pending (response_wire ?pr ConnType_Short RpcStatus_OK ?out)) (Room 0) (Room 0) None] u1 = Inr u2"
    "client_sent u2 = echo_bytes C ?pr ConnType_Short async_request" "done_runs u2 = [(0, ?out)]"
    using rest(4,5) by (auto simp: echo_bytes_def)
  have "async_call C ?u = Inr (Some (None, u1))" using call(1) by (simp add: async_call_def call_with_def new_pb_controller_def)
  moreover have "recv_resp C u2 = Some (Some (echo_answer async_request))"
    using call(4) C id by (simp add: recv_resp_def codec_ok_def) (simp add: echo_answer_def)
  ultimately have "async_client_main C use_simple cwfd cf True t (ConnectErr EINPROGRESS)
      [RunFuncs, ClientIO EPOLLOUT (Pending []) (Room 0) (Room 0) (Some 0)]
      [RunFuncs, ClientIO EPOLLOUT (Pending []) (Room k) (Room k) None,
       ClientIO EPOLLIN (Pending (response_wire ?pr ConnType_Short RpcStatus_OK ?out)) (Room 0) (Room 0) None] =
      Inr (Some (Some (echo_answer async_request), u2\<lparr>client_loop := stop (client_loop u2)\<rparr>))"
    using l v early u(1) call(2)
    by (simp add: async_client_main_def del: client_loop_run.simps)
  with w(1,2) w2 call(3) show ?thesis by fastforce
qed

section \<open>The server program\<close>

lemma wait_close_signal:
  "wait_close sigs s = None \<longleftrightarrow> \<not> is_close s \<and> True \<notin> set sigs"
proof (induction sigs arbitrary: s)
  case (Cons b bs)
  have "is_close (set_close s)" by (simp add: is_close_def set_close_def)
  with Cons [of "if b then set_close s else s"] show ?case by (subst wait_close.simps) auto
qed (simp add: wait_close.simps)

lemma init_log_opens: "fst (init_log_file name DEBUG m t can_open ls) = can_open"
  by (simp add: init_log_file_def init_appender_def open_log_def init_log_def set_severity_def set_appender_def Let_def
      split: prod.splits option.splits)

lemma echo_server_ends:
  assumes "wfd \<noteq> lfd"
    and "\<And>w. echo_server_start wfd lfd wfds read_ms write_ms threads = Inr w \<Longrightarrow>
      \<exists>ph. server_reachable (echo_service C) w (run w, ph)"
  shows "\<exists>w'. echo_server_main can_open ls wfd lfd wfds read_ms write_ms threads True run sigs =
      Inr (if \<not> can_open then Some (1, None) else if True \<in> set sigs then Some (0, Some w') else None) \<and>
    (\<forall>i \<le> nat (max 0 (min 144 threads)). is_stop (loops w' i)) \<and> True \<notin> set (sub_threads w') \<and> \<not> main_joinable w'"
proof -
  from boot_ok [OF assms(1), of wfds threads read_ms write_ms "[SimpleProtocol, HTTPProtocol]"
      "[(0, ''EchoService'', [(''echo'', 0)])]"] obtain w0 w where w: "new_pb_world wfd lfd = Inr w0"
    "start_pb wfds (configured threads read_ms write_ms [SimpleProtocol, HTTPProtocol]
      [(0, ''EchoService'', [(''echo'', 0)])] w0) = Inr w" by blast
  then have start: "echo_server_start wfd lfd wfds read_ms write_ms threads = Inr w"
    using echo_server_configured [OF w(1)] by simp
  from assms(2) [OF start] obtain ph where "server_reachable (echo_service C) w (run w, ph)" by blast
  from stop_pb_ok [OF reachable_threads [OF w this refl]] obtain w' where w': "stop_pb (run w) = Inr w'"
    "\<forall>i \<le> nat (max 0 (min 144 threads)). is_stop (loops w' i)" "True \<notin> set (sub_threads w')" "\<not> main_joinable w'" by auto
  have new: "\<not> is_close new_status_manager" by (simp add: is_close_def new_status_manager_def)
  show ?thesis
    using start w' wait_close_signal [of sigs new_status_manager] new
    by (intro exI [of _ w'])
       (auto simp: echo_server_main_def init_log_opens register_signals_def split: option.splits)
qed

end
