(* ===== verification/Echo_Samples.thy ===== *)
theory Echo_Samples
  imports Echo_Runs Samples
begin

text \<open>
  Instances for the programs of \<^verbatim>\<open>examples/echo\<close>: a way to write messages as text, that is read back, and
  runs of the server, of the clients and of a call that comes too early.
\<close>

section \<open>Messages as text\<close>

definition text_of :: "nat \<Rightarrow> byte list \<Rightarrow> byte list" where
  "text_of n s = to_string n @ '' '' @ s"

definition of_text :: "byte list \<Rightarrow> (nat \<times> byte list) option" where
  "of_text bs = (case dropWhile is_digit bs of [] \<Rightarrow> None | _ # s \<Rightarrow> Some (digits_value (takeWhile is_digit bs), s))"

lemma of_text_of: "of_text (text_of n s) = Some (n, s)"
proof -
  have "\<not> is_digit (CHR '' '')" by (simp add: is_digit_def)
  then show ?thesis
    using to_string_digits [of n] by (simp add: of_text_def text_of_def dropWhile_append2 takeWhile_append2)
qed

definition text_codec :: echo_codec where
  "text_codec = \<lparr>serialise_req = (\<lambda>x. text_of (req_logid x) (req_message x)),
     parse_req = (\<lambda>bs. map_option (\<lambda>(n, s). \<lparr>req_logid = n, req_message = s\<rparr>) (of_text bs)),
     serialise_resp = (\<lambda>y. text_of (resp_logid y) (resp_result y)),
     parse_resp = (\<lambda>bs. map_option (\<lambda>(n, s). \<lparr>resp_logid = n, resp_result = s\<rparr>) (of_text bs))\<rparr>"

lemma text_codec_ok: "codec_ok text_codec"
  by (simp add: codec_ok_def text_codec_def of_text_of)

lemma text_fits:
  assumes "n < 10 ^ 4" and "length s \<le> 100"
  shows "echo_fits text_codec pr ct 1024 \<lparr>req_logid = n, req_message = s\<rparr>"
proof -
  have n: "length (to_string n) \<le> 4" using length_to_string [of n 4] assms(1) by simp
  have d: "length (to_string k) \<le> 3" if "k < 1000" for k using length_to_string [of k 3] that by simp
  have c: "length (connection_value ct) \<le> 12" "length (connection_value (conn_type_read ConnType_Short ct)) \<le> 12"
    by (simp_all add: connection_value_def)
  show ?thesis
    using assms n c d [of "length (text_of n s)"] d [of "length (text_of n (s @ '' powered by EchoService''))"]
    by (cases pr) (auto simp: echo_fits_def echo_bytes_def echo_reply_bytes_def text_codec_def echo_answer_def
        simple_request_wire_def simple_response_wire_def http_request_wire_def http_response_wire_def http_head_wire_def
        text_of_def)
qed

section \<open>The programs\<close>

lemma digits_01: "print_int 0 = ''0''" "print_int 1 = ''1''"
  by code_simp+

lemma long_requests: "long_request 0 = \<lparr>req_logid = 1000, req_message = ''helloworld 0''\<rparr>"
  "long_request 1 = \<lparr>req_logid = 1001, req_message = ''helloworld 1''\<rparr>"
  by (simp_all add: long_request_def digits_01)

theorem long_client_served_witness:
  "\<exists>w0 w1 w2 e cw resps. echo_server_start 3 4 (\<lambda>i. 10 + int i) 2000 2000 2 = Inr w0 \<and>
    acceptor_handle_events (TimeStamp 0 0) EPOLLIN (Accepted 7) 1 True w0 = Inr w1 \<and>
    all_calls (echo_service text_codec) (TimeStamp 0 0) e 1 1024
      (map (\<lambda>j. echo_bytes text_codec HTTPProtocol ConnType_Single (long_request j)) [0..2 - 1]) w1 = Inr w2 \<and>
    long_conn_main text_codec False 2 5 (TimeStamp 0 0) ConnectOk
      (map (\<lambda>r. ([(Room 1024, Room 1024)], [Pending r])) resps) =
      Inr (Some (Finished ([Some \<lparr>resp_logid = 1000, resp_result = ''helloworld 0 powered by EchoService''\<rparr>,
        Some \<lparr>resp_logid = 1001, resp_result = ''helloworld 1 powered by EchoService''\<rparr>], cw)))"
proof -
  have "echo_fits text_codec HTTPProtocol ConnType_Single 1024 (long_request j)" if "j \<in> {0..<2}" for j
  proof -
    have "j = 0 \<or> j = 1" using that by auto
    then show ?thesis by (auto simp: long_requests text_fits)
  qed
  then have fits: "\<forall>j \<in> {0..<2}. echo_fits text_codec (chosen_protocol False) ConnType_Single 1024 (long_request j)"
    by (simp add: chosen_protocol_def)
  have two: "[0..2 - 1 :: int] = [0, 1]" by (simp add: upto_rec1)
  have fds: "(7 :: int) \<notin> {3, 4} \<union> range (\<lambda>i. 10 + int i)" by auto
  have answers: "map (\<lambda>j. Some (echo_answer (long_request j))) [0..2 - 1] =
    [Some \<lparr>resp_logid = 1000, resp_result = ''helloworld 0 powered by EchoService''\<rparr>,
     Some \<lparr>resp_logid = 1001, resp_result = ''helloworld 1 powered by EchoService''\<rparr>]"
    unfolding two by (simp add: long_requests echo_answer_def)
  from long_client_served [OF _ fds _ _ text_codec_ok fits, of 5 2000 2000 2 "TimeStamp 0 0" 1]
  show ?thesis unfolding answers by (simp add: chosen_protocol_def) blast
qed

theorem async_client_served_witness:
  "\<exists>cw resp. async_client_main text_codec True 3 5 True (TimeStamp 0 0) (ConnectErr EINPROGRESS)
      [RunFuncs, ClientIO EPOLLOUT (Pending []) (Room 0) (Room 0) (Some 0)]
      [RunFuncs, ClientIO EPOLLOUT (Pending []) (Room 1024) (Room 1024) None,
       ClientIO EPOLLIN (Pending resp) (Room 0) (Room 0) None] =
      Inr (Some (Some \<lparr>resp_logid = 1000, resp_result = ''helloworld powered by EchoService''\<rparr>, cw))"
proof -
  have "echo_fits text_codec (chosen_protocol True) ConnType_Short 1024 async_request"
    by (simp add: async_request_def text_fits)
  moreover have "(7 :: int) \<notin> {3, 4} \<union> range (\<lambda>i. 10 + int i)" by auto
  moreover have "echo_answer async_request = \<lparr>resp_logid = 1000, resp_result = ''helloworld powered by EchoService''\<rparr>"
    by (simp add: async_request_def echo_answer_def)
  ultimately show ?thesis
    using async_client_served [of 3 4 7 "\<lambda>i. 10 + int i" 5 3 text_codec True 1024 2000 2000 2 "TimeStamp 0 0" 1] text_codec_ok
    by fastforce
qed

section \<open>The end of a server\<close>


section \<open>A call that comes too early\<close>

definition connecting_client :: "client_world" where
  "connecting_client = \<lparr>client = (new_pb_client (Some 0) 5 (TimeStamp 0 0))\<lparr>event := EPOLLOUT, sevent := EPOLLOUT,
     client_protocol := Some SimpleProtocol, close_cb := Some ClientCloseCb,
     data_read_cb := Some ClientDataReadCb, write_complete_cb := Some ClientWriteCompleteCb,
     client_conn_cb := Some ClientConnCb\<rparr>,
     client_loop = \<lparr>is_stop = False, wake_count = 0, funcs = [], timers = new_timer_manager,
       channels = Map.empty, interests = [5 \<mapsto> (EPOLLOUT, ConnPtr 0)]\<rparr>, client_sent = [], done_runs = []\<rparr>"

theorem early_call_lost_witness:
  "\<exists>w1 w2 w3 w4. conn_publish (Some 0) connecting_client = Inr w1 \<and> connected (client w1) \<and>
    call_method ConnType_Short ''Echo'' ''echo'' ''hi'' (Some 9) [] [] w1 = Inr (Some (None, w2)) \<and>
    conn_withdraw w2 = Inr w3 \<and> run_funcs w3 = Inr w4 \<and> stranded 9 w4 \<and> client_sent w4 = [] \<and> done_runs w4 = []"
proof -
  have f: "client_protocol (client connecting_client) = Some SimpleProtocol" "client_sent connecting_client = []"
    "done_runs connecting_client = []" "wbuf (client connecting_client) = new_buffer InitialBufferSize"
    by (simp_all add: connecting_client_def new_pb_client_def new_tcp_connection_def tcp_connection.defs)
  have "connecting connecting_client"
    by (simp add: connecting_def connecting_client_def new_pb_client_def new_tcp_connection_def tcp_connection.defs
        in_loop_def registered_def registration_def)
  moreover have "pack_room (clear (wbuf (client connecting_client))) ''Echo'' ''echo''"
    unfolding f by (simp add: pack_room_def clear_def new_buffer_def InitialBufferSize_def buf_ok_def)
  moreover have "message_fits ''Echo'' ''echo'' ''hi''" by (simp add: message_fits_def)
  ultimately show ?thesis using early_call_lost [of connecting_client SimpleProtocol "''Echo''" "''echo''" "''hi''"] f by metis
qed

end
