(* ===== verification/Time_Limits.thy ===== *)
theory Time_Limits
  imports Server_Rounds
begin

text \<open>
  The time limits of the connections. Whatever the handlers do, a connection keeps an armed limit:
  its loop holds a timer with its current number, or is about to run it. So no connection of a
  server with a read limit can stay for ever, whatever its peer does or does not do.
\<close>

section \<open>Armed limits\<close>

definition limit_task :: "nat \<Rightarrow> nat \<Rightarrow> conn \<Rightarrow> bool \<Rightarrow> task" where
  "limit_task i p c r = TimeoutCallback i p (conn_ts c) (timer_id c) r"

definition armed :: "world \<Rightarrow> nat \<Rightarrow> conn \<Rightarrow> bool" where
  "armed w p c \<longleftrightarrow>
     (\<exists>i r. el c = Some i \<and> limit_task i p c r \<in># image_mset snd (timers_of (timers (loops w i))))"

text \<open>Two states of a connection with the same limit.\<close>

definition same_limit :: "conn \<Rightarrow> conn \<Rightarrow> bool" where
  "same_limit c d \<longleftrightarrow> el d = el c \<and> conn_ts d = conn_ts c \<and> timer_id d = timer_id c"

lemma same_limit_refl [simp]: "same_limit c c"
  by (simp add: same_limit_def)

lemma same_limit_trans [trans]: "same_limit c d \<Longrightarrow> same_limit d e \<Longrightarrow> same_limit c e"
  by (simp add: same_limit_def)

lemma same_limitD: "same_limit c d \<Longrightarrow> el d = el c \<and> limit_task i p d r = limit_task i p c r"
  by (simp add: same_limit_def limit_task_def)

lemma armed_same: "armed w p c \<Longrightarrow> same_limit c d \<Longrightarrow> armed w p d"
  by (simp add: armed_def same_limit_def limit_task_def)

definition more_timers :: "world \<Rightarrow> world \<Rightarrow> bool" where
  "more_timers w w' \<longleftrightarrow> (\<forall>i. timers_of (timers (loops w i)) \<subseteq># timers_of (timers (loops w' i)))"

lemma more_timers_refl [simp]: "more_timers w w"
  by (simp add: more_timers_def)

lemma more_timers_trans [trans]: "more_timers w v \<Longrightarrow> more_timers v u \<Longrightarrow> more_timers w u"
  unfolding more_timers_def using subset_mset.order_trans by blast

lemma armed_more: "armed w p c \<Longrightarrow> more_timers w w' \<Longrightarrow> armed w' p c"
  unfolding armed_def more_timers_def by (metis image_mset_subseteq_mono mset_subset_eqD)

text \<open>What a handler may do to the limits: outside \<open>X\<close>, each connection that is there afterwards is
  armed, or has the limit it had.\<close>

definition keeps_limits :: "nat set \<Rightarrow> world \<Rightarrow> world \<Rightarrow> bool" where
  "keeps_limits X w w' \<longleftrightarrow> more_timers w w' \<and> read_timeout_ms w' = read_timeout_ms w \<and>
     (\<forall>p d. conns w' p = Some d \<longrightarrow> p \<notin> X \<longrightarrow> armed w' p d \<or> (\<exists>c. conns w p = Some c \<and> same_limit c d))"

lemma keeps_limitsI:
  assumes "more_timers w w'" and "read_timeout_ms w' = read_timeout_ms w"
    and "\<And>p d. conns w' p = Some d \<Longrightarrow> p \<notin> X \<Longrightarrow> armed w' p d \<or> (\<exists>c. conns w p = Some c \<and> same_limit c d)"
  shows "keeps_limits X w w'"
  using assms by (simp add: keeps_limits_def)

lemma keeps_limitsD:
  assumes "keeps_limits X w w'" and "conns w' p = Some d" and "p \<notin> X"
  obtains "armed w' p d" | c where "conns w p = Some c" "same_limit c d"
  using assms unfolding keeps_limits_def by blast

lemma keeps_armed: "keeps_limits X w w' \<Longrightarrow> armed w p c \<Longrightarrow> same_limit c d \<Longrightarrow> armed w' p d"
  unfolding keeps_limits_def by (blast intro: armed_more armed_same)

lemma keeps_limits_refl [simp]: "keeps_limits X w w"
  by (rule keeps_limitsI) auto

text \<open>A step that keeps the timers, and the limit of each connection outside \<open>Y\<close>.\<close>

lemma keeps_limits_step:
  assumes k: "keeps_limits X w w1" and t: "more_timers w1 w2" and r: "read_timeout_ms w2 = read_timeout_ms w1"
    and c: "\<And>p d. conns w2 p = Some d \<Longrightarrow> p \<notin> Y \<Longrightarrow>
      armed w2 p d \<or> p \<notin> X \<and> (\<exists>c. conns w1 p = Some c \<and> same_limit c d)"
  shows "keeps_limits Y w w2"
proof (rule keeps_limitsI)
  show "more_timers w w2" using k t by (auto simp: keeps_limits_def intro: more_timers_trans)
  show "read_timeout_ms w2 = read_timeout_ms w" using k r by (simp add: keeps_limits_def)
  fix p d
  assume "conns w2 p = Some d" "p \<notin> Y"
  from c [OF this] show "armed w2 p d \<or> (\<exists>c. conns w p = Some c \<and> same_limit c d)"
  proof (elim disjE conjE exE)
    fix c assume "p \<notin> X" and c1: "conns w1 p = Some c" "same_limit c d"
    from keeps_limitsD [OF k c1(1) \<open>p \<notin> X\<close>] show ?thesis
    proof cases
      case 1
      with c1(2) t show ?thesis using armed_more armed_same by blast
    next
      case (2 b)
      with c1(2) show ?thesis using same_limit_trans by blast
    qed
  qed simp
qed

section \<open>The primitive operations\<close>

named_theorems limits

abbreviation within_limits :: "nat set \<Rightarrow> world \<Rightarrow> world result \<Rightarrow> bool" where
  "within_limits X w r \<equiv> ensures r (keeps_limits X w)"

lemma keeping_bind_from:
  "within_limits Y w m \<Longrightarrow> (\<And>v. keeps_limits Y w v \<Longrightarrow> within_limits X w (f v)) \<Longrightarrow> within_limits X w (and_then m f)"
  by (rule ensures_through)

lemmas keeping_bind = keeping_bind_from [where Y = X and X = X for X]

lemma get_conn_Inr: "get_conn p w = Inr c \<longleftrightarrow> conns w p = Some c"
  by (simp add: get_conn_def split: option.splits)

lemma keeps_put:
  assumes "keeps_limits X w v" and "get_conn p v = Inr c" and "same_limit c d"
  shows "keeps_limits X w (put_conn p d v)"
  by (rule keeps_limits_step [OF assms(1)])
     (use assms(2,3) in \<open>auto simp: more_timers_def put_conn_def get_conn_Inr split: if_splits\<close>)

lemma keeps_on_loop:
  assumes "keeps_limits X w v" and "timers_of (timers (loops v i)) \<subseteq># timers_of (timers (f (loops v i)))"
  shows "keeps_limits X w (on_loop i f v)"
  by (rule keeps_limits_step [OF assms(1)])
     (use assms(2) in \<open>auto simp: more_timers_def on_loop_def\<close>)

lemma keeps_sys_close: "keeps_limits X w v \<Longrightarrow> keeps_limits X w (sys_close f v)"
  by (erule keeps_limits_step) (auto simp: more_timers_def sys_close_def)

lemma keeps_free: "keeps_limits X w v \<Longrightarrow> keeps_limits X w (free_conn p v)"
  by (erule keeps_limits_step) (auto simp: more_timers_def free_conn_def split: if_splits)

lemma keeps_rest:
  "keeps_limits X w v \<Longrightarrow> keeps_limits X w (send_bytes f bs v)"
  "keeps_limits X w v \<Longrightarrow> keeps_limits X w (v\<lparr>deferred := ds\<rparr>)"
  "keeps_limits X w v \<Longrightarrow> keeps_limits X w (v\<lparr>open_fds := fs\<rparr>)"
  "keeps_limits X w v \<Longrightarrow> keeps_limits X w (v\<lparr>next_el := n\<rparr>)"
  by (auto simp: keeps_limits_def more_timers_def send_bytes_def armed_def)

lemma same_limit_updates [simp]:
  "same_limit c (d\<lparr>event := ev\<rparr>) = same_limit c d" "same_limit c (d\<lparr>sevent := ev\<rparr>) = same_limit c d"
  "same_limit c (d\<lparr>ctx := x\<rparr>) = same_limit c d" "same_limit c (d\<lparr>proto_idx := k\<rparr>) = same_limit c d"
  "same_limit c (d\<lparr>rbuf := b\<rparr>) = same_limit c d" "same_limit c (d\<lparr>wbuf := b\<rparr>) = same_limit c d"
  "same_limit c (d\<lparr>data_read_cb := cb\<rparr>) = same_limit c d" "same_limit c (d\<lparr>close_cb := cb\<rparr>) = same_limit c d"
  "same_limit c (d\<lparr>write_complete_cb := cb\<rparr>) = same_limit c d"
  by (simp_all add: same_limit_def)

lemma update_channel_limit: "update_channel q c k = Inr (d, k') \<Longrightarrow> same_limit c d"
  by (auto simp: update_channel_def do_epoll_ctl_def same_limit_def split: if_splits option.splits)

lemma set_event_limits [limits]: "keeps_limits X w v \<Longrightarrow> within_limits X w (set_event p ev v)"
  unfolding set_event_def by (rule ensures_and_then) (simp add: keeps_put)

lemma update_on_loop_limits [limits]:
  assumes "keeps_limits X w v"
  shows "within_limits X w (update_on_loop i p v)"
proof -
  have "keeps_limits X w (put_conn p d (on_loop i (\<lambda>l. l\<lparr>interests := k\<rparr>) v))"
    if "get_conn p v = Inr c" "same_limit c d" for c d k
    using that keeps_on_loop [OF assms, of i "\<lambda>l. l\<lparr>interests := k\<rparr>"]
    by (intro keeps_put [of X w _ p c]) (simp_all add: get_conn_Inr)
  then show ?thesis
    unfolding update_on_loop_def
    by (intro ensures_and_then) (auto dest: update_channel_limit)
qed

lemma update_conn_limits [limits]: "keeps_limits X w v \<Longrightarrow> within_limits X w (update_conn p v)"
  unfolding update_conn_def by (intro ensures_and_then limits)

lemma delete_conn_limits [limits]: "keeps_limits X w v \<Longrightarrow> within_limits X w (delete_conn p v)"
  unfolding delete_conn_def by (rule ensures_and_then) (simp add: keeps_free keeps_sys_close)

lemma close_callback_limits [limits]: "keeps_limits X w v \<Longrightarrow> within_limits X w (close_callback p v)"
  unfolding close_callback_def Let_def
  by (rule limits keeping_bind ensures_and_then keeps_on_loop keeps_sys_close | assumption | simp)+

lemma conn_close_limits [limits]: "keeps_limits X w v \<Longrightarrow> within_limits X w (conn_close p v)"
  unfolding conn_close_def by (intro ensures_and_then ensures_option limits) simp_all

text \<open>A limit that is started is armed.\<close>

lemma start_timer_limits:
  assumes k: "keeps_limits X w v"
  shows "within_limits (X - {p}) w (start_timer p now ms r v)"
  unfolding start_timer_def Let_def
proof (intro ensures_and_then)
  fix c i
  assume c: "get_conn p v = Inr c" and i: "loop_of (bump_timer c) = Inr i"
  let ?c = "bump_timer c"
  let ?v = "on_loop i (run_after now ms (TimeoutCallback i p (conn_ts ?c) (timer_id ?c) r)) (put_conn p ?c v)"
  have el: "el ?c = Some i" using i by (simp add: loop_of_def split: option.splits)
  have t: "timers_of (timers (loops ?v j)) = (if j = i then add_mset
      (after_now_ms now ms, limit_task i p ?c r) (timers_of (timers (loops v j))) else timers_of (timers (loops v j)))" for j
    by (simp add: tmq.push limit_task_def put_conn_def)
  have "keeps_limits (X - {p}) w ?v"
  proof (rule keeps_limits_step [OF k])
    show "more_timers v ?v" by (simp add: more_timers_def tmq.push)
    show "read_timeout_ms ?v = read_timeout_ms v" by simp
    fix q d
    assume d: "conns ?v q = Some d" "q \<notin> X - {p}"
    show "armed ?v q d \<or> q \<notin> X \<and> (\<exists>c. conns v q = Some c \<and> same_limit c d)"
    proof (cases "q = p")
      case True
      then have "d = ?c" using d by simp
      then show ?thesis using True el t [of i] unfolding armed_def by (auto intro!: exI [of _ r])
    next
      case False
      then show ?thesis using d by simp
    qed
  qed
  then show "within_limits (X - {p}) w (Inr ?v)" by simp
qed

lemma start_timer_limits_new [limits]: "keeps_limits {} w v \<Longrightarrow> within_limits {} w (start_timer p now ms r v)"
  using start_timer_limits [of "{}"] by simp

section \<open>The callbacks\<close>

lemma arm_write_limits [limits]: "keeps_limits {} w v \<Longrightarrow> within_limits {} w (arm_write now p v)"
  unfolding arm_write_def Let_def
  by (rule limits keeping_bind ensures_and_then ensures_if keeps_on_loop | assumption | simp)+

lemma response_limits [limits]: "keeps_limits {} w v \<Longrightarrow> within_limits {} w (response_callback now p r v)"
  unfolding response_callback_def Let_def split_def
  by (rule limits keeping_bind ensures_option ensures_and_then ensures_if keeps_put | assumption | simp)+

lemma request_limits [limits]: "keeps_limits {} w v \<Longrightarrow> within_limits {} w (request_callback app now p v)"
  unfolding request_callback_def
  by (intro ensures_and_then ensures_option) (auto intro: limits keeps_rest split: option.splits app_reply.splits)

lemma data_read_limits [limits]: "keeps_limits {} w v \<Longrightarrow> within_limits {} w (data_read_callback app now p v)"
  unfolding data_read_callback_def Let_def split_def
  by (rule limits keeping_bind ensures_and_then ensures_if keeps_put | assumption | simp)+

lemma write_complete_limits [limits]: "keeps_limits {} w v \<Longrightarrow> within_limits {} w (write_complete_callback now p v)"
  unfolding write_complete_callback_def Let_def
  by (rule limits keeping_bind ensures_option ensures_and_then ensures_if keeps_put | assumption | simp)+

lemma timeout_limits [limits]: "keeps_limits X w v \<Longrightarrow> within_limits X w (timeout_callback i p t tid r v)"
  unfolding timeout_callback_def by (intro ensures_if ensures_and_then ensures_Inr limits)

text \<open>A new connection is armed when the server has a read limit.\<close>

lemma get_next_el_limits: "keeps_limits X w v \<Longrightarrow> get_next_el v = Inr (i, u) \<Longrightarrow> keeps_limits X w u"
  by (auto simp: get_next_el_def Let_def keeps_rest split: if_splits option.splits)

lemma keeps_new:
  assumes "keeps_limits {} w v"
  shows "keeps_limits {a} w (put_conn a c v)"
  by (rule keeps_limits_step [OF assms]) (auto simp: more_timers_def put_conn_def split: if_splits)

lemma keeping_start:
  "0 < read_timeout_ms w \<Longrightarrow> keeps_limits {a} w v \<Longrightarrow>
    within_limits {} w (if read_timeout_ms v > 0 then start_timer a now (read_timeout_ms v) True v else Inr v)"
  using start_timer_limits [of "{a}" w v a now "read_timeout_ms v" True] by (simp add: keeps_limits_def)

lemma new_connection_limits [limits]:
  assumes "0 < read_timeout_ms w" and "keeps_limits {} w v"
  shows "within_limits {} w (new_connection_callback now a nb f v)"
proof -
  have put: "within_limits {} w (Inr (put_conn a (c\<lparr>data_read_cb := cb1, close_cb := cb2, write_complete_cb := cb3\<rparr>) u))"
    if "keeps_limits {} w u" "get_conn a u = Inr c" for u c cb1 cb2 cb3
    using that by (simp add: keeps_put)
  have new: "keeps_limits {a} w (on_loop i (add_channel a now) (put_conn a c u))"
    if "get_next_el v = Inr (i, u)" for i u c
    by (rule keeps_on_loop [OF keeps_new [OF get_next_el_limits [OF assms(2) that]]]) simp
  show ?thesis
    unfolding new_connection_callback_def Let_def split_def
  proof (rule ensures_and_then, rule ensures_if)
    fix r
    assume r: "get_next_el v = Inr r"
    let ?v = "on_loop (fst r) (add_channel a now) (put_conn a (new_tcp_connection f (Some (fst r)) True now) (snd r))"
    have "within_limits {a} w (set_event a EPOLLIN ?v)" using new r by (intro limits) simp
    then show "within_limits {} w (and_then (set_event a EPOLLIN ?v) (\<lambda>w4. and_then (update_conn a w4) (\<lambda>w5.
        and_then (if read_timeout_ms w5 > 0 then start_timer a now (read_timeout_ms w5) True w5 else Inr w5)
          (\<lambda>w6. and_then (get_conn a w6) (\<lambda>c. Inr (put_conn a (c\<lparr>data_read_cb := Some DataReadCb,
            close_cb := Some CloseCb, write_complete_cb := Some WriteCompleteCb\<rparr>) w6))))))"
      by (rule keeping_bind_from)
         (rule keeping_bind_from [OF update_conn_limits], assumption,
          rule keeping_bind_from [OF keeping_start [OF assms(1)]], assumption,
          rule ensures_and_then, rule put)
  qed simp
qed

section \<open>Steps of the server\<close>

lemma run_callback_limits [limits]: "keeps_limits {} w v \<Longrightarrow> within_limits {} w (run_callback app now p cb v)"
  unfolding run_callback_def by (auto intro: limits split: option.splits server_cb.splits)

lemma conn_events_limits [limits]:
  assumes "keeps_limits {} w v"
  shows "within_limits {} w (conn_handle_events app now p ev ra wa1 wa2 v)"
  unfolding conn_handle_events_def split_def
proof (intro ensures_and_then limits)
  fix c r
  assume c: "get_conn p v = Inr c" and r: "tcp_handle_events ev ra wa1 wa2 c = Inr r"
  have "same_but_buffers c (fst r)"
    using tcp_handle_events_frame [of ev ra wa1 wa2 c "fst r" "fst (snd r)" "snd (snd r)"] r by simp
  then have "same_limit c (fst r)" by (simp add: same_limit_def same_but_buffersD(4,6,7))
  then show "keeps_limits {} w (put_conn p (fst r) (send_bytes (fd c) (fst (snd r)) v))"
    using assms c by (intro keeps_put [of _ _ _ p c] keeps_rest) (simp_all add: get_conn_Inr)
qed

lemma handle_io_limits [limits]:
  assumes "0 < read_timeout_ms w" and "keeps_limits {} w v"
  shows "within_limits {} w (handle_io app i now e v)"
proof (cases e)
  case (AcceptIO ev answer a nb)
  have "within_limits {} w (new_connection_callback now a nb f (v\<lparr>open_fds := fs\<rparr>))" for f fs
    by (intro new_connection_limits assms keeps_rest)
  then show ?thesis using AcceptIO assms(2) by (simp add: acceptor_handle_events_def split: accept_answer.splits)
next
  case (WakeIO ev)
  then show ?thesis using keeps_on_loop [OF assms(2), of i "wakeuper_handle_events ev"]
    by (simp add: wakeuper_handle_events_def)
qed (use assms(2) in \<open>simp add: limits\<close>)

lemma exec_task_limits [limits]: "keeps_limits {} w v \<Longrightarrow> within_limits {} w (exec_task t v)"
  by (cases t) (simp_all add: limits)

lemma run_deferred_limits [limits]: "keeps_limits {} w v \<Longrightarrow> within_limits {} w (run_deferred now p r v)"
  unfolding run_deferred_def by (intro limits keeps_rest)

section \<open>Every connection is limited\<close>

text \<open>The timers a loop has taken from its queue and is about to run.\<close>

fun in_timers :: "phase \<Rightarrow> task list" where
  "in_timers (Timers ts) = ts"
| "in_timers _ = []"

definition limited :: "world \<times> (nat \<Rightarrow> phase) \<Rightarrow> bool" where
  "limited s \<longleftrightarrow> 0 < read_timeout_ms (fst s) \<and>
     (\<forall>p c. conns (fst s) p = Some c \<longrightarrow>
        armed (fst s) p c \<or> (\<exists>i r. el c = Some i \<and> limit_task i p c r \<in> set (in_timers (snd s i))))"

lemma limitedE:
  assumes "limited (w, ph)" and "conns w p = Some c"
  obtains "armed w p c" | i r where "el c = Some i" "limit_task i p c r \<in> set (in_timers (ph i))"
  using assms unfolding limited_def fst_conv snd_conv by blast

lemma outcome_InrE:
  assumes "Inr s = outcome ph i nx m"
  obtains w where "m = Inr w" "s = (w, ph(i := nx))"
  using assms by (cases m) (auto simp: outcome_def)

lemma not_in_empty: "p \<notin> {}"
  by simp

lemma limited_kept:
  assumes "limited (w, ph)" and "keeps_limits {} w w'" and "\<And>i. set (in_timers (ph i)) \<subseteq> set (in_timers (ph' i))"
  shows "limited (w', ph')"
proof -
  have "armed w' p d \<or> (\<exists>i r. el d = Some i \<and> limit_task i p d r \<in> set (in_timers (ph' i)))"
    if d: "conns w' p = Some d" for p d
    using keeps_limitsD [OF assms(2) d not_in_empty]
  proof cases
    case (2 c)
    from limitedE [OF assms(1) 2(1)] show ?thesis
    proof cases
      case 1
      then show ?thesis using keeps_armed [OF assms(2) _ 2(2)] by blast
    next
      case (2 i r)
      with same_limitD [OF \<open>same_limit c d\<close>, of i p r] subsetD [OF assms(3) [of i]] show ?thesis by metis
    qed
  qed simp
  then show ?thesis using assms(1,2) by (simp add: limited_def keeps_limits_def)
qed

lemma limit_closes:
  assumes "world_inv w" and "conns w p = Some c" and "el c = Some i" and "exec_task (limit_task i p c r) w = Inr w'"
  shows "conns w' p = None"
proof -
  from timeout_handled [OF assms(1), of i p "conn_ts c" "timer_id c" r None] obtain w1 where
    "timeout_callback i p (conn_ts c) (timer_id c) r w = Inr w1" by blast
  from assms(1) have reg: "world_reg w" by (simp add: world_inv_def)
  from world_regD [OF reg assms(2)] assms(3) have "channels (loops w i) p = Some (conn_ts c)" by auto
  then have "close_callback p w = Inr w'"
    using assms(2,4) by (simp add: limit_task_def timeout_callback_def)
  with close_callback_ok [OF reg assms(2)] show ?thesis by auto
qed

lemma step_limited:
  assumes "server_step app s (Inr s')" and "system_ok s" and "limited s"
  shows "limited s'"
proof -
  have rt: "0 < read_timeout_ms (fst s)" using assms(3) by (simp add: limited_def)
  have k: "limited s'" if "Inr s' = outcome ph i nx m" "s = (w, ph)" "within_limits {} w m"
      "set (in_timers (ph i)) \<subseteq> set (in_timers nx)" for w ph i nx m
  proof -
    from outcome_InrE [OF that(1)] obtain w' where w': "m = Inr w'" "s' = (w', ph(i := nx))" .
    show ?thesis unfolding w'(2)
    proof (rule limited_kept [of w ph w'])
      show "keeps_limits {} w w'" using w'(1) that(3) by simp
      show "limited (w, ph)" using assms(3) that(2) by simp
      show "set (in_timers (ph j)) \<subseteq> set (in_timers ((ph(i := nx)) j))" for j using that(4) by (cases "j = i") auto
    qed
  qed
  show ?thesis
    using assms(1)
  proof cases
    case (timer ph i t ts w)
    from outcome_InrE [OF timer(2)] obtain w' where w': "exec_task t w = Inr w'" "s' = (w', ph(i := Timers ts))" .
    have kl: "keeps_limits {} w w'" using ensuresD [OF exec_task_limits w'(1)] by simp
    have "armed w' p d \<or> (\<exists>j r. el d = Some j \<and> limit_task j p d r \<in> set (in_timers ((ph(i := Timers ts)) j)))"
      if d: "conns w' p = Some d" for p d
      using keeps_limitsD [OF kl d not_in_empty]
    proof cases
      case (2 c)
      from limitedE [OF assms(3) [unfolded timer(1)] 2(1)] show ?thesis
      proof cases
        case 1
        then show ?thesis using keeps_armed [OF kl _ 2(2)] by blast
      next
        case j: (2 j r)
        have "j = i \<Longrightarrow> limit_task j p c r \<noteq> t"
          using limit_closes [of w p c i r w'] 2(1) j(1) w'(1) d assms(2) timer(1) by (auto simp: system_ok_def)
        with j timer(3) have "limit_task j p c r \<in> set (in_timers ((ph(i := Timers ts)) j))" by (cases "j = i") auto
        with j(1) same_limitD [OF 2(2), of j p r] show ?thesis by metis
      qed
    qed simp
    then show ?thesis using w'(2) rt timer(1) kl by (simp add: limited_def keeps_limits_def)
  next
    case (collect ph i now w ts l)
    from due_timers_ok [of now "loops w i"] collect(4) obtain due m where t: "ts = map snd due"
      "l = (loops w i)\<lparr>timers := m\<rparr>" "mset due = filter_mset (\<lambda>t. fst t < now) (timers_of (timers (loops w i)))"
      "timers_of m = filter_mset (\<lambda>t. \<not> fst t < now) (timers_of (timers (loops w i)))" by auto
    have parts: "timers_of (timers (loops w i)) = mset due + timers_of m"
      unfolding t(3,4) by (rule multiset_partition)
    let ?w = "on_loop i (\<lambda>_. l) w" and ?ph = "ph(i := Timers ts)"
    have "armed ?w p c \<or> (\<exists>j r. el c = Some j \<and> limit_task j p c r \<in> set (in_timers (?ph j)))"
      if c: "conns w p = Some c" for p c
      using limitedE [OF assms(3) [unfolded collect(1)] c]
    proof cases
      case 1
      then obtain j r where j: "el c = Some j" "limit_task j p c r \<in> snd ` set_mset (timers_of (timers (loops w j)))"
        by (auto simp: armed_def)
      show ?thesis
      proof (cases "j = i")
        case True
        with j parts t(1) consider "limit_task i p c r \<in> set ts" | "limit_task i p c r \<in> snd ` set_mset (timers_of m)"
          by auto
        then show ?thesis
        proof cases
          case 2
          then have "armed ?w p c" using j(1) True by (auto simp: armed_def t(2))
          then show ?thesis ..
        qed (use j(1) True in auto)
      qed (use j in \<open>auto simp: armed_def\<close>)
    next
      case (2 j r)
      then show ?thesis using collect(3) by (cases "j = i") auto
    qed
    then show ?thesis using collect(2) rt collect(1) by (simp add: limited_def)
  next
    case (event ph i q ev rest e w now)
    show ?thesis by (rule k [OF event(2,1)]) (use event rt in \<open>simp_all add: limits\<close>)
  next
    case (func ph i t ts w)
    show ?thesis by (rule k [OF func(2,1)]) (use func in \<open>simp_all add: limits\<close>)
  next
    case (poll ph i w evs)
    show ?thesis unfolding poll(2)
      by (rule limited_kept [OF assms(3) [unfolded poll(1)]]) (use poll(3) in auto)
  next
    case (round ph i w)
    show ?thesis unfolding round(2)
      by (rule limited_kept [OF assms(3) [unfolded round(1)]]) (use round(3) in auto)
  next
    case (swap ph i w fs l)
    have "keeps_limits {} w (on_loop i (\<lambda>_. l) w)"
      using swap(4) by (intro keeps_on_loop) (auto simp: swap_funcs_def)
    then show ?thesis unfolding swap(2)
      by (rule limited_kept [OF assms(3) [unfolded swap(1)]]) (use swap(3) in auto)
  next
    case (deferred p w now r ph)
    from assms(2) deferred show ?thesis by (simp add: system_ok_def)
  qed
qed

section \<open>A round as steps\<close>

abbreviation steps :: "app \<Rightarrow> world \<times> (nat \<Rightarrow> phase) \<Rightarrow> world \<times> (nat \<Rightarrow> phase) \<Rightarrow> bool" where
  "steps app \<equiv> (\<lambda>s s'. server_step app s (Inr s'))\<^sup>*\<^sup>*"

lemma outcome_Inr: "outcome ph i nx (Inr w) = Inr (w, ph(i := nx))"
  by (simp add: outcome_def)

lemma steps_events:
  assumes "run_all (handle_io app i now) es w = Inr w'" and "answers_ok app i now es w"
  shows "steps app (w, ph(i := Events (map report_of es))) (w', ph(i := Events []))"
  using assms
proof (induction es arbitrary: w)
  case (Cons e es)
  let ?ph = "ph(i := Events (map report_of (e # es)))"
  from Cons.prems(1) obtain w1 where w1: "handle_io app i now e w = Inr w1" "run_all (handle_io app i now) es w1 = Inr w'"
    by (auto simp: and_then_Inr_iff)
  from server_step.event [of ?ph i "fst (report_of e)" "snd (report_of e)" "map report_of es" e w app now,
      OF _ event_of_report] Cons.prems(2) w1(1)
  have "server_step app (w, ?ph) (Inr (w1, ph(i := Events (map report_of es))))" by (simp add: outcome_Inr)
  moreover from Cons.IH [OF w1(2)] Cons.prems(2) w1(1)
  have "steps app (w1, ph(i := Events (map report_of es))) (w', ph(i := Events []))"
    by (simp del: fun_upd_apply)
  ultimately show ?case by (rule converse_rtranclp_into_rtranclp)
qed simp

lemma steps_tasks:
  assumes "run_all exec_task ts w = Inr w'"
  shows "steps app (w, ph(i := Funcs ts)) (w', ph(i := Funcs []))"
    and "steps app (w, ph(i := Timers ts)) (w', ph(i := Timers []))"
proof -
  have "steps app (w, ph(i := Funcs ts)) (w', ph(i := Funcs [])) \<and>
      steps app (w, ph(i := Timers ts)) (w', ph(i := Timers []))"
    using assms
  proof (induction ts arbitrary: w)
    case (Cons t ts)
    then obtain w1 where w1: "exec_task t w = Inr w1" "run_all exec_task ts w1 = Inr w'" by (auto simp: and_then_Inr_iff)
    have "server_step app (w, ph(i := Funcs (t # ts))) (Inr (w1, ph(i := Funcs ts)))"
      using server_step.func [of "ph(i := Funcs (t # ts))" i t ts app w] w1(1) by (simp add: outcome_Inr)
    moreover have "server_step app (w, ph(i := Timers (t # ts))) (Inr (w1, ph(i := Timers ts)))"
      using server_step.timer [of "ph(i := Timers (t # ts))" i t ts app w] w1(1) by (simp add: outcome_Inr)
    ultimately show ?case using Cons.IH [OF w1(2)] by (blast intro: converse_rtranclp_into_rtranclp)
  qed simp
  then show "steps app (w, ph(i := Funcs ts)) (w', ph(i := Funcs []))"
    "steps app (w, ph(i := Timers ts)) (w', ph(i := Timers []))" by blast+
qed

text \<open>An iteration of the loop is a sequence of steps; at its end come the due timers.\<close>

lemma round_steps:
  assumes r: "server_round app i (Ready es) now w = Inr w'" and ph: "ph i = Idle" and run: "\<not> is_stop (loops w i)"
    and poll: "poll_ok_for app i (Ready es) now w"
  shows "\<exists>w2 ts l. steps app (w, ph) (on_loop i (\<lambda>_. l) w2, ph(i := Timers ts)) \<and> due_timers now (loops w2 i) = Inr (ts, l) \<and>
    run_all exec_task ts (on_loop i (\<lambda>_. l) w2) = Inr w' \<and> steps app (w, ph) (w', ph)"
proof -
  let ?swapped = "\<lambda>w1. on_loop i (\<lambda>_. snd (swap_funcs (loops w1 i))) w1"
  from r obtain w1 w2 ts l where w1: "run_all (handle_io app i now) es w = Inr w1"
    and w2: "run_all exec_task (fst (swap_funcs (loops w1 i))) (?swapped w1) = Inr w2"
    and d: "due_timers now (loops w2 i) = Inr (ts, l)" and w3: "run_all exec_task ts (on_loop i (\<lambda>_. l) w2) = Inr w'"
    by (auto simp: server_round_def loop_body_def and_then_Inr_iff Let_def split_beta)
  have upd: "(ph(i := x))(i := y) = ph(i := y)" "ph(i := Idle) = ph" for x y using ph by auto
  have ans: "reported w i (map report_of es)" "answers_ok app i now es w" using poll by (simp_all add: poll_ok_for_def)
  have "steps app (w, ph) (w, ph(i := Events (map report_of es)))"
    by (intro r_into_rtranclp server_step.poll ph run ans)
  also note steps_events [OF w1 ans(2)]
  also (rtranclp_trans) have "steps app (w1, ph(i := Events [])) (?swapped w1, ph(i := Funcs (fst (swap_funcs (loops w1 i)))))"
    using server_step.swap [of "ph(i := Events [])" i w1 _ _ app] by (intro r_into_rtranclp) (simp add: upd)
  also (rtranclp_trans) note steps_tasks(1) [OF w2]
  also (rtranclp_trans) have "steps app (w2, ph(i := Funcs [])) (on_loop i (\<lambda>_. l) w2, ph(i := Timers ts))"
    using server_step.collect [OF _ d, of "ph(i := Funcs [])" app] by (intro r_into_rtranclp) (simp add: upd)
  finally (rtranclp_trans) have a: "steps app (w, ph) (on_loop i (\<lambda>_. l) w2, ph(i := Timers ts))" .
  also note steps_tasks(2) [OF w3]
  also (rtranclp_trans) have "steps app (w', ph(i := Timers [])) (w', ph)"
    using server_step.round [of "ph(i := Timers [])" i app w'] by (intro r_into_rtranclp) (simp add: upd)
  finally (rtranclp_trans) show ?thesis using a d w3 by blast
qed

lemma steps_keep:
  assumes "steps app s s'" and "system_ok s" and "limited s" and "sync_app app"
  shows "system_ok s' \<and> limited s'"
  using assms(1)
proof induction
  case base
  show ?case using assms(2,3) by blast
next
  case (step u v)
  obtain w ph where u: "u = (w, ph)" by (cases u)
  from step_ok [OF step(2) [unfolded u]] step(3) assms(4) step_limited [OF step(2)] show ?case
    by (simp add: u)
qed

section \<open>Rounds\<close>

text \<open>A time limit that fires starts no timer.\<close>

definition same_timers :: "world \<Rightarrow> world \<Rightarrow> bool" where
  "same_timers w w' \<longleftrightarrow> (\<forall>j. timers (loops w' j) = timers (loops w j))"

lemma same_timers_frames [simp]:
  "same_timers v (put_conn p c w) = same_timers v w" "same_timers v (sys_close f w) = same_timers v w"
  "same_timers v (free_conn p w) = same_timers v w"
  "same_timers v (on_loop i (\<lambda>l. l\<lparr>interests := k\<rparr>) w) = same_timers v w"
  "same_timers v (on_loop i (remove_channel p t) w) = same_timers v w"
  by (auto simp: same_timers_def put_conn_def free_conn_def on_loop_def)

lemma same_timers_refl [simp]: "same_timers w w"
  by (simp add: same_timers_def)

lemma same_timers_bind:
  "ensures m (same_timers v) \<Longrightarrow> (\<And>w. same_timers v w \<Longrightarrow> ensures (f w) (same_timers v)) \<Longrightarrow>
    ensures (and_then m f) (same_timers v)"
  by (rule ensures_through)

lemma same_timers_ops:
  assumes "same_timers v w"
  shows "ensures (set_event p ev w) (same_timers v)" "ensures (update_conn p w) (same_timers v)"
    "ensures (delete_conn p w) (same_timers v)"
  unfolding set_event_def update_conn_def update_on_loop_def delete_conn_def split_def
  by (intro ensures_and_then; simp add: assms)+

lemma same_timers_close: "same_timers v w \<Longrightarrow> ensures (close_callback p w) (same_timers v)"
  unfolding close_callback_def Let_def
  by (rule same_timers_ops same_timers_bind ensures_and_then | assumption | simp)+

lemma timeouts_same_timers:
  assumes "run_all exec_task ts w = Inr w'" and "\<forall>t \<in> set ts. timeout_of i t"
  shows "same_timers w w'"
  using assms
proof (induction ts arbitrary: w)
  case (Cons t ts)
  then obtain w1 where w1: "exec_task t w = Inr w1" "run_all exec_task ts w1 = Inr w'" by (auto simp: and_then_Inr_iff)
  have "ensures (exec_task t w) (same_timers w)"
    using Cons.prems(2) same_timers_close [of w w]
    by (cases t) (auto simp: timeout_callback_def intro: ensures_and_then)
  with w1(1) have "same_timers w w1" by simp
  with Cons.IH [OF w1(2)] Cons.prems(2) show ?case by (simp add: same_timers_def)
qed simp

text \<open>After a round of a loop none of its connections has a limit that was due.\<close>

definition no_overdue :: "timestamp \<Rightarrow> nat \<Rightarrow> world \<Rightarrow> bool" where
  "no_overdue now i w \<longleftrightarrow> (\<forall>p c. conns w p = Some c \<longrightarrow> el c = Some i \<longrightarrow>
     (\<exists>t r. (t, limit_task i p c r) \<in># timers_of (timers (loops w i)) \<and> \<not> t < now))"

lemma system_ok_loop: "system_ok (w, ph) \<Longrightarrow> loop_ok w i (ph i)"
  by (simp add: system_ok_def)

lemma round_no_overdue:
  assumes ok: "system_ok (w, ph)" "limited (w, ph)" "sync_app app" and ph: "ph i = Idle" and run: "\<not> is_stop (loops w i)"
    and poll: "poll_ok_for app i (Ready es) now w" and r: "server_round app i (Ready es) now w = Inr w'"
  shows "no_overdue now i w'"
proof -
  from round_steps [where ph = ph, OF r ph run poll] obtain w2 ts l where
    st: "steps app (w, ph) (on_loop i (\<lambda>_. l) w2, ph(i := Timers ts))" and
    d: "due_timers now (loops w2 i) = Inr (ts, l)" and
    e: "run_all exec_task ts (on_loop i (\<lambda>_. l) w2) = Inr w'" and
    all: "steps app (w, ph) (w', ph)" by blast
  from steps_keep [OF st ok] have "system_ok (on_loop i (\<lambda>_. l) w2, ph(i := Timers ts))" by blast
  from system_ok_loop [OF this, of i] have "loop_ok (on_loop i (\<lambda>_. l) w2) i (Timers ts)" by simp
  from loop_ok_phase [OF this] have "\<forall>t \<in> set ts. timeout_of i t" by simp
  from timeouts_same_timers [OF e this] have t: "timers (loops w' i) = timers l" by (simp add: same_timers_def)
  from due_timers_ok [of now "loops w2 i"] d have l: "\<not> fst x < now" if "x \<in># timers_of (timers l)" for x
    using that by auto
  show ?thesis
    unfolding no_overdue_def
  proof (intro allI impI)
    fix p c
    assume c: "conns w' p = Some c" "el c = Some i"
    from steps_keep [OF all ok] have "limited (w', ph)" by blast
    from limitedE [OF this c(1)] have "armed w' p c" using c(2) ph by cases auto
    then obtain x r where "x \<in># timers_of (timers (loops w' i))" "snd x = limit_task i p c r"
      using c(2) by (auto simp: armed_def)
    then show "\<exists>t r. (t, limit_task i p c r) \<in># timers_of (timers (loops w' i)) \<and> \<not> t < now"
      using l t by (metis prod.collapse)
  qed
qed

section \<open>From the start\<close>

lemma boot_limited:
  assumes "0 < rt" and "new_pb_world wfd lfd = Inr w0" and "start_pb wfds (configured n rt wt ps svcs w0) = Inr w"
  shows "limited (w, \<lambda>_. Idle)"
proof -
  have m: "conns v = conns u \<and> read_timeout_ms v = read_timeout_ms u" if "make_loops k wfds u = Inr v" for k u v
    using that by (induction k arbitrary: v) (auto simp: and_then_Inr_iff)
  have "conns w = conns w0 \<and> read_timeout_ms w = rt"
    using assms(3) m configured_frame(1) [of n rt wt ps svcs w0]
    by (fastforce simp: start_pb_def and_then_Inr_iff start_server_def Let_def configured_def split: if_splits)
  moreover have "conns w0 = Map.empty" using assms(2) by (auto simp: new_pb_world_def and_then_Inr_iff)
  ultimately show ?thesis using assms(1) by (simp add: limited_def)
qed

lemma reachable_steps: "server_reachable app w s \<Longrightarrow> steps app (w, \<lambda>_. Idle) s"
  by (induction rule: server_reachable.induct) (auto intro: rtranclp.rtrancl_into_rtrancl)

lemma boot_keeps:
  assumes "wfd \<noteq> lfd" and "sync_app app" and "0 < rt" and "new_pb_world wfd lfd = Inr w0"
    and "start_pb wfds (configured n rt wt ps svcs w0) = Inr w" and "server_reachable app w s"
  shows "system_ok s \<and> limited s"
proof -
  from boot_ok [OF assms(1), of wfds n rt wt ps svcs] assms(4,5) have "system_ok (w, \<lambda>_. Idle)" by auto
  from steps_keep [OF reachable_steps [OF assms(6)] this boot_limited [OF assms(3-5)] assms(2)] show ?thesis .
qed

text \<open>C7. With a positive read limit every live connection has, in every reachable state, a
  running time limit with its current number: in the timer queue of its loop or about to run
  there.\<close>

lemma connections_limited:
  assumes "wfd \<noteq> lfd" and "sync_app app" and "0 < rt" and "new_pb_world wfd lfd = Inr w0"
    and "start_pb wfds (configured n rt wt ps svcs w0) = Inr w" and "server_reachable app w (v, ph)"
    and "conns v p = Some c"
  shows "\<exists>i r. el c = Some i \<and> (TimeoutCallback i p (conn_ts c) (timer_id c) r \<in> set (in_timers (ph i)) \<or>
    (\<exists>t. (t, TimeoutCallback i p (conn_ts c) (timer_id c) r) \<in># timers_of (timers (loops v i))))"
proof -
  from boot_keeps [OF assms(1-6)] have "limited (v, ph)" by blast
  from limitedE [OF this assms(7)] show ?thesis
    by cases (force simp: armed_def limit_task_def)+
qed

text \<open>C9. After a round of a loop at a time no connection of that loop has a current limit
  before that time: every connection whose limit ran out was closed in the round.\<close>

lemma overdue_closed:
  assumes "wfd \<noteq> lfd" and "sync_app app" and "0 < rt" and "new_pb_world wfd lfd = Inr w0"
    and "start_pb wfds (configured n rt wt ps svcs w0) = Inr w" and "server_reachable app w (v, ph)"
    and "ph i = Idle" and "\<not> is_stop (loops v i)"
    and "poll_ok_for app i (Ready es) now v" and "server_round app i (Ready es) now v = Inr v'"
    and "conns v' p = Some c" and "el c = Some i"
  shows "\<exists>t r. (t, TimeoutCallback i p (conn_ts c) (timer_id c) r) \<in># timers_of (timers (loops v' i)) \<and> \<not> t < now"
proof -
  from boot_keeps [OF assms(1-6)] have "system_ok (v, ph)" "limited (v, ph)" by blast+
  from round_no_overdue [OF this assms(2,7-10)] assms(11,12) show ?thesis
    by (auto simp: no_overdue_def limit_task_def)
qed

end
