(* ===== verification/Isolation.thy ===== *)
theory Isolation
  imports Server_Steps
begin

text \<open>
  Connections do not disturb each other. A handler works on one connection \<open>p\<close> and its descriptor
  \<open>f\<close>; what the server, the loops and the kernel hold of every other connection is the same after
  it, and when \<open>p\<close> is gone after it, \<open>f\<close> is closed. Each operation is shown to spare the others; the steps of the server follow.
\<close>

section \<open>What the others see\<close>

definition spares :: "nat \<Rightarrow> int \<Rightarrow> world \<Rightarrow> world \<Rightarrow> bool" where
  "spares p f w v \<longleftrightarrow> (\<forall>q. q \<noteq> p \<longrightarrow> conns v q = conns w q) \<and> (\<forall>c. conns v p = Some c \<longrightarrow> fd c = f) \<and>
     (\<forall>g. g \<noteq> f \<longrightarrow> sent v g = sent w g \<and> (g \<in> open_fds v \<longleftrightarrow> g \<in> open_fds w) \<and>
       (\<forall>i. interests (loops v i) g = interests (loops w i) g)) \<and>
     (\<forall>q i. q \<noteq> p \<longrightarrow> channels (loops v i) q = channels (loops w i) q) \<and>
     (-1 \<in> open_fds v \<longrightarrow> -1 \<in> open_fds w) \<and>
     (conns v p = None \<longrightarrow> f \<noteq> -1 \<longrightarrow> f \<in> open_fds v \<longrightarrow> conns w p = None \<and> f \<in> open_fds w)"

lemma sparesD:
  assumes "spares p f w v"
  shows "q \<noteq> p \<Longrightarrow> conns v q = conns w q" "g \<noteq> f \<Longrightarrow> sent v g = sent w g"
    "g \<noteq> f \<Longrightarrow> g \<in> open_fds v \<longleftrightarrow> g \<in> open_fds w" "g \<noteq> f \<Longrightarrow> interests (loops v i) g = interests (loops w i) g"
    "q \<noteq> p \<Longrightarrow> channels (loops v i) q = channels (loops w i) q" "get_conn p v = Inr c \<Longrightarrow> fd c = f"
    "conns v p = None \<Longrightarrow> f \<noteq> -1 \<Longrightarrow> f \<in> open_fds v \<Longrightarrow> conns w p = None \<and> f \<in> open_fds w"
    "-1 \<in> open_fds v \<Longrightarrow> -1 \<in> open_fds w"
  using assms by (simp_all add: spares_def get_conn_def split: option.splits)

abbreviation sparing :: "nat \<Rightarrow> int \<Rightarrow> world \<Rightarrow> world result \<Rightarrow> bool" where
  "sparing p f w r \<equiv> ensures r (spares p f w)"

named_theorems isolation

lemma sparing_bind:
  "sparing p f w m \<Longrightarrow> (\<And>v. spares p f w v \<Longrightarrow> sparing p f w (k v)) \<Longrightarrow> sparing p f w (and_then m k)"
  by (rule ensures_through)

section \<open>The operations\<close>

lemma spares_put [isolation]: "spares p f w v \<Longrightarrow> fd c = f \<Longrightarrow> spares p f w (put_conn p c v)"
  by (simp add: spares_def put_conn_def)

lemma spares_primitive [isolation]:
  "spares p f w v \<Longrightarrow> f \<notin> open_fds v \<or> f = -1 \<Longrightarrow> spares p f w (free_conn p v)"
  "spares p f w v \<Longrightarrow> spares p f w (sys_close f v)"
  "spares p f w v \<Longrightarrow> spares p f w (send_bytes f bs v)"
  "spares p f w v \<Longrightarrow> spares p f w (v\<lparr>deferred := ds\<rparr>)" "spares p f w v \<Longrightarrow> spares p f w (v\<lparr>next_el := n\<rparr>)"
  by (auto simp: spares_def free_conn_def sys_close_def send_bytes_def)

text \<open>A change of a loop: its queues, and what it holds of \<open>p\<close> and \<open>f\<close>.\<close>

lemma spares_on_loop:
  assumes "spares p f w v" and "\<And>g. g \<noteq> f \<Longrightarrow> interests (h (loops v i)) g = interests (loops v i) g"
    and "\<And>q. q \<noteq> p \<Longrightarrow> channels (h (loops v i)) q = channels (loops v i) q"
  shows "spares p f w (on_loop i h v)"
  using assms by (simp add: spares_def)

lemma spares_loops [isolation]:
  "spares p f w v \<Longrightarrow> spares p f w (on_loop i (add_func t) v)"
  "spares p f w v \<Longrightarrow> spares p f w (on_loop i (run_after now ms t) v)"
  "spares p f w v \<Longrightarrow> spares p f w (on_loop i (add_channel p ts) v)"
  "spares p f w v \<Longrightarrow> spares p f w (on_loop i (remove_channel p ts) v)"
  "spares p f w v \<Longrightarrow> spares p f w (on_loop i (wakeuper_handle_events ev) v)"
  by (rule spares_on_loop; simp add: channels_remove wakeuper_handle_events_def)+

lemma update_channel_spares:
  "update_channel q c k = Inr (d, k') \<Longrightarrow> fd d = fd c \<and> (\<forall>g. g \<noteq> fd c \<longrightarrow> k' g = k g)"
  by (auto simp: update_channel_def do_epoll_ctl_def split: if_splits option.splits)

lemma set_event_spares [isolation]: "spares p f w v \<Longrightarrow> sparing p f w (set_event p ev v)"
  unfolding set_event_def by (rule ensures_and_then) (simp add: spares_put sparesD(6))

lemma update_on_loop_spares [isolation]:
  assumes "spares p f w v"
  shows "sparing p f w (update_on_loop i p v)"
  unfolding update_on_loop_def split_def
proof (intro ensures_and_then)
  fix c r
  assume c: "get_conn p v = Inr c" and r: "update_channel (ConnPtr p) c (interests (loops v i)) = Inr r"
  have d: "fd (fst r) = f" "\<forall>g. g \<noteq> f \<longrightarrow> snd r g = interests (loops v i) g"
    using update_channel_spares [of "ConnPtr p" c _ "fst r" "snd r"] r sparesD(6) [OF assms c] by auto
  have "spares p f w (on_loop i (\<lambda>l. l\<lparr>interests := snd r\<rparr>) v)"
    by (rule spares_on_loop [OF assms]) (simp_all add: d)
  then show "sparing p f w (Inr (put_conn p (fst r) (on_loop i (\<lambda>l. l\<lparr>interests := snd r\<rparr>) v)))"
    using spares_put d by simp
qed

lemma update_conn_spares [isolation]: "spares p f w v \<Longrightarrow> sparing p f w (update_conn p v)"
  unfolding update_conn_def by (intro ensures_and_then isolation)

lemma delete_conn_spares [isolation]: "spares p f w v \<Longrightarrow> sparing p f w (delete_conn p v)"
  unfolding delete_conn_def by (rule ensures_and_then) (auto simp: sparesD(6) intro: isolation)

lemma close_callback_spares [isolation]: "spares p f w v \<Longrightarrow> sparing p f w (close_callback p v)"
  unfolding close_callback_def Let_def
proof (rule sparing_bind [OF set_event_spares], assumption, rule sparing_bind [OF update_conn_spares], assumption,
    rule ensures_and_then, rule ensures_and_then)
  fix v c i
  assume "spares p f w v" and "get_conn p v = Inr c"
  then show "sparing p f w (delete_conn p (on_loop i (remove_channel p (conn_ts c)) (sys_close (fd c) v)))"
    using sparesD(6) by (auto intro!: isolation)
qed

lemma conn_close_spares [isolation]: "spares p f w v \<Longrightarrow> sparing p f w (conn_close p v)"
  unfolding conn_close_def by (intro ensures_and_then ensures_option isolation) simp_all

lemma start_timer_spares [isolation]: "spares p f w v \<Longrightarrow> sparing p f w (start_timer p now ms r v)"
  unfolding start_timer_def Let_def
  by (intro ensures_and_then) (auto simp: sparesD(6) intro!: isolation)

lemma arm_write_spares [isolation]: "spares p f w v \<Longrightarrow> sparing p f w (arm_write now p v)"
  unfolding arm_write_def Let_def
  by (rule isolation sparing_bind ensures_and_then ensures_if | assumption | simp)+

lemma response_spares [isolation]: "spares p f w v \<Longrightarrow> sparing p f w (response_callback now p r v)"
  unfolding response_callback_def Let_def split_def
  by (rule isolation sparing_bind ensures_option ensures_and_then ensures_if | assumption | simp add: sparesD(6))+

lemma request_spares [isolation]: "spares p f w v \<Longrightarrow> sparing p f w (request_callback app now p v)"
  unfolding request_callback_def
  by (intro ensures_and_then ensures_option) (auto intro: isolation split: option.splits app_reply.splits)

lemma data_read_spares [isolation]: "spares p f w v \<Longrightarrow> sparing p f w (data_read_callback app now p v)"
  unfolding data_read_callback_def Let_def split_def
  by (rule isolation sparing_bind ensures_and_then ensures_if | assumption | simp add: sparesD(6))+

lemma write_complete_spares [isolation]: "spares p f w v \<Longrightarrow> sparing p f w (write_complete_callback now p v)"
  unfolding write_complete_callback_def Let_def
  by (rule isolation sparing_bind ensures_option ensures_and_then ensures_if | assumption | simp add: sparesD(6))+

lemma timeout_spares [isolation]: "spares p f w v \<Longrightarrow> sparing p f w (timeout_callback i p t tid r v)"
  unfolding timeout_callback_def by (intro ensures_if ensures_and_then ensures_Inr isolation)

lemma get_next_el_spares: "spares p f w v \<Longrightarrow> get_next_el v = Inr r \<Longrightarrow> spares p f w (snd r)"
  by (auto simp: get_next_el_def Let_def isolation split: if_splits option.splits)

lemma new_connection_spares [isolation]:
  assumes "spares a f w v"
  shows "sparing a f w (new_connection_callback now a nb f v)"
proof -
  have fd: "fd (new_tcp_connection f e b t) = f" for e b t by (simp add: new_tcp_connection_def)
  show ?thesis
    unfolding new_connection_callback_def Let_def split_def
    by (rule ensures_and_then)
       (rule isolation get_next_el_spares [OF assms] sparing_bind ensures_and_then ensures_if
        | assumption | simp add: sparesD(6) fd)+
qed

lemma run_callback_spares [isolation]: "spares p f w v \<Longrightarrow> sparing p f w (run_callback app now p cb v)"
  unfolding run_callback_def by (auto intro: isolation split: option.splits server_cb.splits)

lemma conn_events_spares [isolation]:
  assumes "spares p f w v"
  shows "sparing p f w (conn_handle_events app now p ev ra wa1 wa2 v)"
  unfolding conn_handle_events_def split_def
proof (intro ensures_and_then isolation assms)
  fix c r
  assume c: "get_conn p v = Inr c" and r: "tcp_handle_events ev ra wa1 wa2 c = Inr r"
  have "same_but_buffers c (fst r)"
    using tcp_handle_events_frame [of ev ra wa1 wa2 c "fst r" "fst (snd r)" "snd (snd r)"] r by simp
  then show "fd (fst r) = f" using same_but_buffersD(1) sparesD(6) [OF assms c] by fastforce
  show "spares p f w (send_bytes (fd c) (fst (snd r)) v)"
    using assms sparesD(6) [OF assms c] by (auto intro: isolation)
qed

text \<open>The connection a step works on, with its descriptor.\<close>

fun event_subject :: "io_event \<Rightarrow> nat \<Rightarrow> int \<Rightarrow> bool" where
  "event_subject (ConnIO p ev ra wa1 wa2) q f \<longleftrightarrow> q = p"
| "event_subject (AcceptIO ev (Accepted g) a nb) q f \<longleftrightarrow> q = a \<and> f = g"
| "event_subject _ q f \<longleftrightarrow> True"

fun task_subject :: "task \<Rightarrow> nat" where
  "task_subject (UpdateChannel i p) = p"
| "task_subject (TimeoutCallback i p t tid r) = p"

lemma accepted_spares:
  assumes "spares a f w w" and "f \<noteq> -1"
  shows "sparing a f w (new_connection_callback now a nb f (w\<lparr>open_fds := insert f (open_fds w)\<rparr>))"
proof -
  let ?w = "w\<lparr>open_fds := insert f (open_fds w)\<rparr>"
  have there: "ensures (new_connection_callback now a nb f ?w) (\<lambda>v. conns v a \<noteq> None)"
    unfolding new_connection_callback_def Let_def split_def by (rule ensures_and_then ensures_if | simp)+
  have "sparing a f ?w (new_connection_callback now a nb f ?w)"
    using assms(1) by (intro new_connection_spares) (simp add: spares_def)
  with there assms(2) show ?thesis by (auto simp: ensures_def spares_def)
qed

lemma handle_io_spares [isolation]:
  "spares p f w w \<Longrightarrow> event_subject e p f \<Longrightarrow> answers_fresh e w \<Longrightarrow> sparing p f w (handle_io app i now e w)"
  by (cases "(e, p, f)" rule: event_subject.cases)
     (auto simp: acceptor_handle_events_def accepted_spares intro!: isolation)

lemma exec_task_spares [isolation]: "spares (task_subject t) f w v \<Longrightarrow> sparing (task_subject t) f w (exec_task t v)"
  by (cases t) (auto intro: isolation)

lemma run_deferred_spares [isolation]: "spares p f w v \<Longrightarrow> sparing p f w (run_deferred now p r v)"
  unfolding run_deferred_def by (intro isolation)

section \<open>The steps\<close>

text \<open>The view of the peer of a connection: the object, what was sent on its descriptor, and what the
  kernel and the loops hold of it.\<close>

definition same_view :: "nat \<Rightarrow> world \<Rightarrow> world \<Rightarrow> bool" where
  "same_view q w v \<longleftrightarrow> conns v q = conns w q \<and> (\<forall>c. conns w q = Some c \<longrightarrow> sent v (fd c) = sent w (fd c) \<and>
     (fd c \<in> open_fds v \<longleftrightarrow> fd c \<in> open_fds w) \<and>
     (\<forall>i. interests (loops v i) (fd c) = interests (loops w i) (fd c) \<and> channels (loops v i) q = channels (loops w i) q))"

lemma same_view_refl [simp]: "same_view q w w"
  by (simp add: same_view_def)

lemma same_view_trans [trans]: "same_view q u v \<Longrightarrow> same_view q v w \<Longrightarrow> same_view q u w"
  by (simp add: same_view_def)

lemma spares_view:
  assumes "spares p f w v" and "q \<noteq> p" and "\<And>d. conns w q = Some d \<Longrightarrow> fd d \<noteq> f"
  shows "same_view q w v"
  using assms by (simp add: same_view_def spares_def)

lemma outcome_cases:
  assumes "Inr s = outcome ph i nx m"
  obtains w where "m = Inr w" "fst s = w"
  using assms by (cases m) (auto simp: outcome_def)

text \<open>Each step is about one connection and one descriptor, which is that of the connection, or, when
  the connection is not there, of none, or one that \<^verbatim>\<open>accept\<close> has just opened.\<close>

definition subject :: "world \<Rightarrow> nat \<Rightarrow> int \<Rightarrow> bool" where
  "subject w p f \<longleftrightarrow> (\<forall>c. conns w p = Some c \<longrightarrow> fd c = f) \<and> (\<forall>q d. q \<noteq> p \<longrightarrow> conns w q = Some d \<longrightarrow> fd d \<noteq> f) \<and>
     (conns w p = None \<longrightarrow> f = -1 \<or> f \<notin> open_fds w)"

lemma own_descriptor:
  assumes "world_reg w"
  shows "\<exists>f. subject w p f"
proof (cases "conns w p")
  case None
  have "fd d \<noteq> -1" if "conns w q = Some d" for q d
    using world_regD [OF assms that] by blast
  then show ?thesis using None by (auto simp: subject_def intro: exI [of _ "-1"])
next
  case (Some c)
  then show ?thesis using world_reg_fd [OF assms Some] by (auto simp: subject_def intro: exI [of _ "fd c"])
qed

lemma subject_spares: "subject w p f \<Longrightarrow> spares p f w w"
  by (simp add: subject_def spares_def)

lemma spares_quiet:
  assumes "interests l = interests (loops w i)" and "channels l = channels (loops w i)" and "subject w p f"
  shows "spares p f w (on_loop i (\<lambda>_. l) w)"
  using assms by (simp add: spares_def subject_def)

lemma step_spares:
  assumes step: "server_step app s (Inr s')" and reg: "world_reg (fst s)"
  shows "\<exists>p f. subject (fst s) p f \<and> spares p f (fst s) (fst s')"
proof -
  have one: ?thesis if "\<And>f. spares p f (fst s) (fst s) \<Longrightarrow> spares p f (fst s) (fst s')" for p
    using own_descriptor [OF reg, of p] that subject_spares by blast
  have none: "\<exists>p f. subject (fst s) p f \<and> spares p f (fst s) (fst s)"
    using own_descriptor [OF reg, of 0] subject_spares by blast
  show ?thesis
    using step
  proof cases
    case (event ph i q ev rest e w now)
    from outcome_cases [OF event(2)] have h: "handle_io app i now e w = Inr (fst s')" by blast
    show ?thesis
    proof (cases "\<exists>ev g a nb. e = AcceptIO ev (Accepted g) a nb")
      case True
      then obtain ev' g a nb where e: "e = AcceptIO ev' (Accepted g) a nb" by blast
      with event(5) have a: "conns w a = None" "g \<notin> open_fds w" by simp_all
      have "fd d \<noteq> g" if "conns w q' = Some d" for q' d
        using world_regD [OF reg [unfolded event(1) fst_conv] that] a(2) by blast
      with a have sub: "subject w a g" by (simp add: subject_def)
      from ensuresD [OF handle_io_spares [OF subject_spares [OF this]] h] e event(1,5) sub show ?thesis by auto
    next
      case False
      define p where "p = (case e of ConnIO p ev ra wa1 wa2 \<Rightarrow> p | _ \<Rightarrow> 0)"
      have "event_subject e p f" for f
        using False by (cases "(e, p, f)" rule: event_subject.cases) (auto simp: p_def)
      then show ?thesis
        using ensuresD [OF handle_io_spares h] event(1,5) by (intro one [of p]) simp
    qed
  next
    case (func ph i t ts w)
    from outcome_cases [OF func(2)] have "exec_task t w = Inr (fst s')" by blast
    then show ?thesis using ensuresD [OF exec_task_spares] func(1) by (intro one [of "task_subject t"]) simp
  next
    case (timer ph i t ts w)
    from outcome_cases [OF timer(2)] have "exec_task t w = Inr (fst s')" by blast
    then show ?thesis using ensuresD [OF exec_task_spares] timer(1) by (intro one [of "task_subject t"]) simp
  next
    case (deferred p w ph now r)
    then have "run_deferred now p r w = Inr (fst s')" by (cases "run_deferred now p r w") auto
    then show ?thesis using ensuresD [OF run_deferred_spares] deferred(1) by (intro one [of p]) simp
  next
    case (swap ph i w fs l)
    have "interests l = interests (loops w i)" "channels l = channels (loops w i)" using swap by (auto simp: swap_funcs_def)
    from spares_quiet [OF this, of 0] own_descriptor [OF reg, of 0] swap(1,2) show ?thesis by (metis fst_conv)
  next
    case (collect ph i now w ts l)
    have "interests l = interests (loops w i)" "channels l = channels (loops w i)"
      using collect by (auto simp: due_timers_def and_then_Inr_iff)
    from spares_quiet [OF this, of 0] own_descriptor [OF reg, of 0] collect(1,2) show ?thesis by (metis fst_conv)
  qed (use none in auto)
qed

lemma step_isolated:
  assumes "server_step app s (Inr s')" and "world_reg (fst s)"
  shows "\<exists>p. \<forall>q. q \<noteq> p \<longrightarrow> same_view q (fst s) (fst s')"
proof -
  from step_spares [OF assms] obtain p f where "subject (fst s) p f" "spares p f (fst s) (fst s')" by blast
  then show ?thesis by (intro exI [of _ p]) (auto simp: subject_def intro: spares_view)
qed

section \<open>Descriptors\<close>

text \<open>The descriptors that are open: those of the server itself, \<open>B\<close>, and those of the connections.\<close>

definition fds_accounted :: "int set \<Rightarrow> world \<Rightarrow> bool" where
  "fds_accounted B w \<longleftrightarrow> -1 \<notin> B \<and>
     (\<forall>g. g \<in> open_fds w \<longleftrightarrow> g \<in> B \<or> (\<exists>p c. conns w p = Some c \<and> fd c = g)) \<and>
     (\<forall>p c. conns w p = Some c \<longrightarrow> fd c \<notin> B)"

lemma step_fds:
  assumes step: "server_step app s (Inr s')" and reg: "world_reg (fst s)" "world_reg (fst s')"
    and acc: "fds_accounted B (fst s)"
  shows "fds_accounted B (fst s')"
proof -
  obtain w v where wv: "fst s = w" "fst s' = v" by blast
  from step_spares [OF step reg(1)] wv obtain p f where sub: "subject w p f" and sp: "spares p f w v" by blast
  note reg = reg [unfolded wv] and acc = acc [unfolded wv]
  have other: "conns v q = conns w q" if "q \<noteq> p" for q using sparesD(1) [OF sp that] .
  have own: "fd c = f" "f \<in> open_fds v" "f \<noteq> -1" if "conns v p = Some c" for c
    using that sp world_regD [OF reg(2) that] by (auto simp: spares_def)
  have fB: "f \<notin> B" if "f \<noteq> -1"
  proof (cases "conns w p")
    case None
    then show ?thesis using sub that acc by (auto simp: subject_def fds_accounted_def)
  next
    case (Some c)
    then show ?thesis using sub acc by (auto simp: subject_def fds_accounted_def)
  qed
  have minus: "fd c \<noteq> -1" if "conns u q = Some c" "world_reg u" for u q c
    using world_regD [OF that(2,1)] by blast
  have "g \<in> open_fds v \<longleftrightarrow> g \<in> B \<or> (\<exists>q c. conns v q = Some c \<and> fd c = g)" for g
  proof (cases "g = f")
    case False
    have "(\<exists>q c. conns v q = Some c \<and> fd c = g) \<longleftrightarrow> (\<exists>q c. conns w q = Some c \<and> fd c = g)"
      using False own(1) other sub unfolding subject_def by metis
    then show ?thesis using sparesD(3) [OF sp False] acc by (simp add: fds_accounted_def)
  next
    case True
    show ?thesis
    proof (cases "conns v p")
      case (Some c)
      then show ?thesis using own True by blast
    next
      case None
      have "\<not> (\<exists>q c. conns v q = Some c \<and> fd c = f)"
        using None other sub unfolding subject_def by (metis option.distinct(1))
      moreover have "f \<notin> open_fds v"
      proof (cases "f = -1")
        case True
        have "-1 \<notin> open_fds w" using acc minus [OF _ reg(1)] by (auto simp: fds_accounted_def)
        then show ?thesis using sparesD(8) [OF sp] True by blast
      next
        case False
        then show ?thesis using sparesD(7) [OF sp None] sub by (auto simp: subject_def)
      qed
      moreover have "f \<notin> B" using fB acc by (cases "f = -1") (auto simp: fds_accounted_def)
      ultimately show ?thesis using True by blast
    qed
  qed
  moreover have "fd c \<notin> B" if "conns v q = Some c" for q c
    using that own fB other acc by (cases "q = p") (auto simp: fds_accounted_def)
  ultimately show ?thesis using acc by (simp add: fds_accounted_def wv)
qed


text \<open>The descriptors the server opens when it is made and started.\<close>

definition server_fds :: "int \<Rightarrow> int \<Rightarrow> (nat \<Rightarrow> int) \<Rightarrow> int \<Rightarrow> int set" where
  "server_fds wfd lfd wfds n = {wfd, lfd} \<union> wfds ` {1..nat (max 0 (min 144 n))}"

lemma boot_fds:
  assumes "new_pb_world wfd lfd = Inr w0" and "start_pb wfds (configured n rt wt ps svcs w0) = Inr w"
    and "-1 \<notin> server_fds wfd lfd wfds n"
  shows "fds_accounted (server_fds wfd lfd wfds n) w"
proof -
  let ?c = "configured n rt wt ps svcs w0"
  have m: "open_fds v = open_fds u \<union> wfds ` {1..k} \<and> conns v = conns u" if "make_loops k wfds u = Inr v" for k u v
    using that
  proof (induction k arbitrary: v)
    case (Suc k)
    show ?case
    proof (cases "make_loops k wfds u")
      case (Inr v0)
      with Suc.prems have "open_fds v = insert (wfds (Suc k)) (open_fds v0) \<and> conns v = conns v0"
        by (simp add: new_event_loop_ok) (use on_loop_frame in fastforce)
      with Suc.IH [OF Inr] show ?thesis by (simp add: atLeastAtMostSuc_conv)
    qed (use Suc.prems in simp)
  qed simp
  have n: "thread_num ?c = max 0 (min 144 n)"
    by (simp add: configured_def set_thread_num_def MaxThreadNum_def Let_def max_def min_def)
  have c: "open_fds ?c = {wfd, lfd}" "conns ?c = Map.empty"
    using assms(1) by (auto simp: configured_frame new_pb_world_def and_then_Inr_iff)
  from assms(2) obtain v where v: "(if thread_num ?c > 0 then make_loops (nat (thread_num ?c)) wfds ?c else Inr ?c) = Inr v"
    "start_server v = Inr w" by (auto simp: start_pb_def and_then_Inr_iff)
  have "open_fds v = {wfd, lfd} \<union> wfds ` {1..nat (thread_num ?c)} \<and> conns v = Map.empty"
    using v(1) m c by (cases "thread_num ?c > 0") simp_all
  moreover have "open_fds w = open_fds v \<and> conns w = conns v"
    using v(2) by (auto simp: start_server_def Let_def split: if_splits)
  ultimately have "open_fds w = {wfd, lfd} \<union> wfds ` {1..nat (thread_num ?c)} \<and> conns w = Map.empty" by simp
  then show ?thesis using assms(3) by (simp add: fds_accounted_def server_fds_def n)
qed

lemma reachable_fds:
  assumes "wfd \<noteq> lfd" and "sync_app app" and "new_pb_world wfd lfd = Inr w0"
    and "start_pb wfds (configured n rt wt ps svcs w0) = Inr w" and "-1 \<notin> server_fds wfd lfd wfds n"
    and "server_reachable app w s"
  shows "fds_accounted (server_fds wfd lfd wfds n) (fst s)"
  using assms(6)
proof induction
  case start
  from boot_fds [OF assms(3-5)] show ?case by simp
next
  case (step u v)
  from boot_ok [OF assms(1), of wfds n rt wt ps svcs] assms(3,4) have start: "system_ok (w, \<lambda>_. Idle)" by auto
  from reachable_ok [OF step(1) start assms(2)] reachable_ok [OF server_reachable.step [OF step(1,2)] start assms(2)]
  have "world_reg (fst u)" "world_reg (fst v)" by (simp_all add: system_ok_def world_inv_def)
  from step_fds [OF step(2) this step(3)] show ?case .
qed


end
