(* ===== verification/Lifecycles.thy ===== *)
theory Lifecycles
  imports Isolation Shutdown Base_Utils Pb_Client
begin

text \<open>
  Constructors and destructors, and the descriptors they open and close: \<^verbatim>\<open>WakeUper\<close>, \<^verbatim>\<open>EventLoop\<close>,
  \<^verbatim>\<open>Acceptor\<close>, \<^verbatim>\<open>PbServer\<close>, \<^verbatim>\<open>PbClient\<close>. A destructor is the list of the descriptors it closes, in
  order; a thread that is destroyed while it is joinable ends the program.
\<close>

section \<open>Channels and loops\<close>

text \<open>\<^verbatim>\<open>~Channel\<close>\<close>

definition channel_dtor :: "'c channel_scheme \<Rightarrow> int list" where
  "channel_dtor c = (if fd c \<noteq> -1 then [fd c] else [])"

text \<open>The constructor of the waker of loop \<open>me\<close>; \<open>efd\<close> is what \<^verbatim>\<open>eventfd\<close> returns.\<close>

definition new_wakeuper :: "nat \<Rightarrow> int \<Rightarrow> channel result" where
  "new_wakeuper me efd =
     (let c = (new_channel (-1) (Some me))\<lparr>fd := efd\<rparr>
      in if fd c = -1 then Inl Aborted else Inr (c\<lparr>event := EPOLLIN\<rparr>))"

definition wakeuper_setup :: "channel \<Rightarrow> interest \<Rightarrow> (channel \<times> interest) result" where
  "wakeuper_setup c k = update_channel WakeUperPtr (c\<lparr>event := EPOLLIN\<rparr>) k"

text \<open>An event loop with the members that own descriptors; \<open>ep\<close> is what \<^verbatim>\<open>epoll_create\<close> returns.\<close>

record 'f loop_object =
  loop_state :: "'f event_loop"
  epfd :: int
  wakeuper :: channel

definition new_loop_object :: "nat \<Rightarrow> int \<Rightarrow> int \<Rightarrow> 'f loop_object result" where
  "new_loop_object me efd ep =
     and_then (new_wakeuper me efd) (\<lambda>wk.
       if ep = -1 then Inl Aborted
       else and_then (wakeuper_setup wk Map.empty) (\<lambda>(wk', k).
         Inr \<lparr>loop_state = \<lparr>is_stop = False, wake_count = 0, funcs = [], timers = new_timer_manager,
           channels = Map.empty, interests = k\<rparr>, epfd = ep, wakeuper = wk'\<rparr>))"

text \<open>\<^verbatim>\<open>~EventLoop\<close>, then the members.\<close>

definition loop_dtor :: "'f loop_object \<Rightarrow> int list" where
  "loop_dtor l = (if epfd l \<noteq> -1 then [epfd l] else []) @ channel_dtor (wakeuper l)"

lemma new_loop_object_iff:
  "new_loop_object me efd ep = Inr l \<longleftrightarrow> efd \<noteq> -1 \<and> ep \<noteq> -1 \<and> new_event_loop me efd = Inr (loop_state l) \<and>
     epfd l = ep \<and> wakeuper l = \<lparr>fd = efd, event = EPOLLIN, sevent = EPOLLIN, el = Some me\<rparr>"
  by (cases l)
     (auto simp: new_loop_object_def new_wakeuper_def wakeuper_setup_def new_channel_def Let_def
      new_event_loop_ok update_channel_def do_epoll_ctl_def)

text \<open>A loop closes what it opened.\<close>

lemma loop_dtor_closes: "new_loop_object me efd ep = Inr l \<Longrightarrow> loop_dtor l = [ep, efd]"
  by (simp add: new_loop_object_iff loop_dtor_def channel_dtor_def)

section \<open>The acceptor and the server\<close>

definition new_acceptor :: "kernel_answers \<Rightarrow> string \<Rightarrow> nat \<Rightarrow> interest \<Rightarrow> (channel \<times> interest) result" where
  "new_acceptor k addr port reg =
     and_then (listen_socket k addr port 1024) (\<lambda>(f, _).
       update_channel AcceptorPtr ((new_channel (-1) None)\<lparr>fd := f, event := EPOLLIN, el := Some 0\<rparr>) reg)"

text \<open>The members of \<^verbatim>\<open>TCPServer\<close> in the order of their declaration: the main loop, then the acceptor.\<close>

definition new_server_members ::
  "kernel_answers \<Rightarrow> string \<Rightarrow> nat \<Rightarrow> int \<Rightarrow> int \<Rightarrow> (task loop_object \<times> channel) result"
where
  "new_server_members k addr port efd ep =
     and_then (new_loop_object 0 efd ep) (\<lambda>l.
     and_then (new_acceptor k addr port (interests (loop_state l))) (\<lambda>(a, reg).
       Inr (l\<lparr>loop_state := (loop_state l)\<lparr>interests := reg\<rparr>\<rparr>, a)))"

text \<open>What the members open is the server the other theories start from.\<close>

lemma server_members_world:
  assumes "new_server_members k addr port efd ep = Inr (l, a)" and "k Socket \<noteq> efd"
  shows "\<exists>w. new_pb_world efd (fd a) = Inr w \<and> loops w 0 = loop_state l \<and> open_fds w = {efd, fd a}"
    and "loop_dtor l = [ep, efd]" and "channel_dtor a = [fd a]" and "efd \<noteq> fd a" "efd \<noteq> -1" "fd a \<noteq> -1" "ep \<noteq> -1"
proof -
  from assms(1) obtain l0 reg where l0: "new_loop_object 0 efd ep = Inr l0"
    "new_acceptor k addr port (interests (loop_state l0)) = Inr (a, reg)"
    "l = l0\<lparr>loop_state := (loop_state l0)\<lparr>interests := reg\<rparr>\<rparr>"
    by (auto simp: new_server_members_def and_then_Inr_iff)
  note n = l0(1) [unfolded new_loop_object_iff]
  from l0(2) obtain f tr where f: "listen_socket k addr port 1024 = Inr (f, tr)"
    "update_channel AcceptorPtr ((new_channel (-1) None)\<lparr>fd := f, event := EPOLLIN, el := Some 0\<rparr>)
      (interests (loop_state l0)) = Inr (a, reg)"
    by (auto simp: new_acceptor_def and_then_Inr_iff)
  have fk: "f = k Socket" "f \<noteq> -1" using f(1) by (simp_all add: listen_socket_iff)
  then have fe: "f \<noteq> efd" using assms(2) by simp
  have s: "loop_state l0 = \<lparr>is_stop = False, wake_count = 0, funcs = [], timers = new_timer_manager,
     channels = Map.empty, interests = [efd \<mapsto> (EPOLLIN, WakeUperPtr)]\<rparr>"
    using n by (simp add: new_event_loop_ok)
  have u: "a = \<lparr>fd = f, event = EPOLLIN, sevent = EPOLLIN, el = Some 0\<rparr>"
    "reg = [efd \<mapsto> (EPOLLIN, WakeUperPtr), f \<mapsto> (EPOLLIN, AcceptorPtr)]"
    using f(2) fe by (auto simp: s new_channel_def update_channel_def do_epoll_ctl_def)
  show "\<exists>w. new_pb_world efd (fd a) = Inr w \<and> loops w 0 = loop_state l \<and> open_fds w = {efd, fd a}"
    using fe u l0(3) s by (simp add: new_pb_world_def new_event_loop_ok new_channel_def update_channel_def do_epoll_ctl_def)
  show "loop_dtor l = [ep, efd]" using n l0(3) by (simp add: loop_dtor_def channel_dtor_def)
  show "channel_dtor a = [fd a]" "efd \<noteq> fd a" "efd \<noteq> -1" "fd a \<noteq> -1" "ep \<noteq> -1"
    using u fk fe n by (simp_all add: channel_dtor_def)
qed

section \<open>The end of a server\<close>

text \<open>\<^verbatim>\<open>delete [] _sub_els\<close>: the loops of the array are destroyed last to first.\<close>

definition free_subs :: "(nat \<Rightarrow> 'f loop_object) \<Rightarrow> nat \<Rightarrow> int list" where
  "free_subs objs n = concat (map (\<lambda>i. loop_dtor (objs i)) (rev [1..<Suc n]))"

definition close_all :: "int list \<Rightarrow> world \<Rightarrow> world" where
  "close_all fs w = fold sys_close fs w"

text \<open>\<^verbatim>\<open>~PbServer\<close> deletes the protocols and the services; then the members go in reverse order, the
  threads first. The result is the world with the protocols and services that were deleted.\<close>

definition pb_server_dtor ::
  "'f loop_object \<Rightarrow> channel \<Rightarrow> world \<Rightarrow> (world \<times> protocol list \<times> nat set) result"
where
  "pb_server_dtor l a w =
     (if True \<in> set (sub_threads w) then Inl Aborted
      else if main_joinable w then Inl Aborted
      else Inr (close_all (channel_dtor a @ loop_dtor l) w, protocols w, fst ` ran (services w)))"

text \<open>\<^verbatim>\<open>stop\<close>, with the loops it frees, and the destructor.\<close>

definition tear_down ::
  "(nat \<Rightarrow> 'f loop_object) \<Rightarrow> channel \<Rightarrow> world \<Rightarrow> (world \<times> protocol list \<times> nat set) result"
where
  "tear_down objs a w =
     and_then (stop_pb w) (\<lambda>w1.
       pb_server_dtor (objs 0) a
         (case sub_els w of None \<Rightarrow> w1 | Some n \<Rightarrow> close_all (free_subs objs n) w1))"

lemma close_all_frame:
  "open_fds (close_all fs w) = open_fds w - set fs" "conns (close_all fs w) = conns w"
  "sub_threads (close_all fs w) = sub_threads w" "main_joinable (close_all fs w) = main_joinable w"
  "protocols (close_all fs w) = protocols w" "services (close_all fs w) = services w"
proof -
  have "open_fds (close_all fs w) = open_fds w - set fs \<and> conns (close_all fs w) = conns w \<and>
      sub_threads (close_all fs w) = sub_threads w \<and> main_joinable (close_all fs w) = main_joinable w \<and>
      protocols (close_all fs w) = protocols w \<and> services (close_all fs w) = services w"
    unfolding close_all_def by (induction fs arbitrary: w) (auto simp: sys_close_def)
  then show "open_fds (close_all fs w) = open_fds w - set fs" "conns (close_all fs w) = conns w"
    "sub_threads (close_all fs w) = sub_threads w" "main_joinable (close_all fs w) = main_joinable w"
    "protocols (close_all fs w) = protocols w" "services (close_all fs w) = services w" by simp_all
qed

lemma set_free_subs: "set (free_subs objs n) = (\<Union>i \<in> {1..n}. set (loop_dtor (objs i)))"
  unfolding free_subs_def set_concat set_map set_rev set_upt atLeastLessThanSuc_atLeastAtMost by simp

lemma fold_stop_frame:
  "open_fds (fold (\<lambda>i. on_loop i stop) is w) = open_fds w \<and> protocols (fold (\<lambda>i. on_loop i stop) is w) = protocols w \<and>
    services (fold (\<lambda>i. on_loop i stop) is w) = services w"
  by (induction "is" arbitrary: w) simp_all

lemma stop_pb_frame:
  assumes "stop_pb w = Inr w'"
  shows "open_fds w' = open_fds w" "protocols w' = protocols w" "services w' = services w"
proof -
  from assms obtain ls v where v: "stop_server w = Inr (ls, v)" "w' = fold (\<lambda>i. on_loop i stop) ls v"
    by (auto simp: stop_pb_def and_then_Inr_iff)
  have "open_fds v = open_fds w \<and> protocols v = protocols w \<and> services v = services w"
    using v(1) by (auto simp: stop_server_def and_then_Inr_iff split: option.splits)
  with fold_stop_frame [of ls v] v(2) show "open_fds w' = open_fds w" "protocols w' = protocols w" "services w' = services w"
    by auto
qed

text \<open>A server that runs cannot be destroyed.\<close>

lemma running_not_destroyed:
  assumes "new_pb_world wfd lfd = Inr w0" and "start_pb wfds (configured n rt wt ps svcs w0) = Inr w"
    and "server_reachable app w s"
  shows "pb_server_dtor l a (fst s) = Inl Aborted"
  using reachable_threads [OF assms refl] by (simp add: pb_server_dtor_def pool_of_def)

text \<open>What is left of a server that was stopped and destroyed: the connections.\<close>

lemma torn_down_gen:
  assumes pool: "pool_of v = (N, True, if N = 0 then None else Some (nat N), replicate (nat N) True)" "0 \<le> N"
    and objs: "loop_dtor (objs 0) = [ep 0, wfd]" "channel_dtor a = [lfd]"
      "\<And>i. 0 < i \<Longrightarrow> loop_dtor (objs i) = [ep i, wfds i]"
  shows "\<exists>w' svs. tear_down objs a v = Inr (w', protocols v, svs) \<and> conns w' = conns v \<and>
    open_fds w' = open_fds v - ep ` {0..nat N} - ({wfd, lfd} \<union> wfds ` {1..nat N})"
proof -
  from stop_pb_ok [OF pool] obtain w1 where w1: "stop_pb v = Inr w1" "True \<notin> set (sub_threads w1)"
    "\<not> main_joinable w1" "conns w1 = conns v" by blast
  note fr = stop_pb_frame [OF w1(1)]
  let ?w2 = "case sub_els v of None \<Rightarrow> w1 | Some n \<Rightarrow> close_all (free_subs objs n) w1"
  have els: "sub_els v = (if N = 0 then None else Some (nat N))" using pool(1) by (simp add: pool_of_def)
  have "(\<Union>i \<in> {1..nat N}. set (loop_dtor (objs i))) = (\<Union>i \<in> {1..nat N}. {ep i, wfds i})"
    by (rule SUP_cong) (simp_all add: objs(3))
  also have "\<dots> = ep ` {1..nat N} \<union> wfds ` {1..nat N}" by blast
  finally have u: "set (free_subs objs (nat N)) = ep ` {1..nat N} \<union> wfds ` {1..nat N}" by (simp only: set_free_subs)
  have w2: "open_fds ?w2 = open_fds v - (ep ` {1..nat N} \<union> wfds ` {1..nat N})" "sub_threads ?w2 = sub_threads w1"
    "main_joinable ?w2 = main_joinable w1" "conns ?w2 = conns v" "protocols ?w2 = protocols v"
    using w1(4) fr u els by (simp_all add: close_all_frame)
  let ?w' = "close_all (channel_dtor a @ loop_dtor (objs 0)) ?w2"
  have "tear_down objs a v = Inr (?w', protocols v, fst ` ran (services ?w2))"
    using w1 w2 by (simp add: tear_down_def pb_server_dtor_def)
  moreover have "{0..nat N} = insert 0 {1..nat N}" by auto
  then have "open_fds ?w' = open_fds v - ep ` {0..nat N} - ({wfd, lfd} \<union> wfds ` {1..nat N})"
    using w2(1) objs(1,2) by (auto simp: close_all_frame)
  moreover have "conns ?w' = conns v" using w2(4) by (simp add: close_all_frame)
  ultimately show ?thesis by blast
qed

text \<open>C14. Stopping and destroying a server in any reachable state closes every descriptor its
  loops and its acceptor opened and leaves exactly those of the connections open; the connections
  are not freed.\<close>

lemma torn_down:
  assumes members: "new_server_members k addr port wfd (ep 0) = Inr (objs 0, a)" "k Socket \<noteq> wfd"
      "\<And>i. 0 < i \<Longrightarrow> new_loop_object i (wfds i) (ep i) = Inr (objs i)"
    and w: "new_pb_world wfd (fd a) = Inr w0" "start_pb wfds (configured n rt wt ps svcs w0) = Inr w"
      "server_reachable app w s" "sync_app app"
    and E: "E = ep ` {0..nat (max 0 (min 144 n))}" "\<forall>p c. conns (fst s) p = Some c \<longrightarrow> fd c \<notin> E"
  shows "\<exists>w' svs. tear_down objs a ((fst s)\<lparr>open_fds := open_fds (fst s) \<union> E\<rparr>) = Inr (w', protocols (fst s), svs) \<and>
    open_fds w' = {fd c | p c. conns (fst s) p = Some c} \<and> conns w' = conns (fst s)"
proof -
  let ?v = "(fst s)\<lparr>open_fds := open_fds (fst s) \<union> E\<rparr>" and ?C = "{fd c | p c. conns (fst s) p = Some c}"
  let ?B = "server_fds wfd (fd a) wfds n"
  note m = server_members_world [OF members(1,2)]
  have sub: "loop_dtor (objs i) = [ep i, wfds i]" "wfds i \<noteq> -1" if "0 < i" for i
    using loop_dtor_closes [OF members(3) [OF that]] members(3) [OF that, unfolded new_loop_object_iff] by simp_all
  have "wfds i \<noteq> -1" if "i \<in> {1..j}" for i j using sub(2) that by simp
  then have "-1 \<notin> wfds ` {1..j}" for j by (metis imageE)
  then have B: "-1 \<notin> ?B" using m(5,6) by (simp add: server_fds_def)
  note acc = reachable_fds [OF m(4) w(4,1,2) B w(3)]
  obtain N where N: "N = max 0 (min 144 n)" "0 \<le> N" by simp
  have "pool_of ?v = (N, True, if N = 0 then None else Some (nat N), replicate (nat N) True)"
    using reachable_threads [OF w(1-3) N(1)] by simp
  from torn_down_gen [where ep = ep and wfds = wfds, OF this N(2) m(2,3) sub(1)] obtain w' svs where
    t: "tear_down objs a ?v = Inr (w', protocols ?v, svs)" "conns w' = conns ?v"
      "open_fds w' = open_fds ?v - E - ?B" unfolding server_fds_def E(1) N(1) by blast
  have "open_fds (fst s) = ?B \<union> ?C" using acc unfolding fds_accounted_def set_eq_iff by blast
  moreover have "?C \<inter> (?B \<union> E) = {}" using acc E(2) unfolding fds_accounted_def by blast
  ultimately have "open_fds ?v - E - ?B = ?C" by (simp add: Int_Un_distrib) blast
  with t show ?thesis by simp
qed

section \<open>The client\<close>

text \<open>\<^verbatim>\<open>~PbClient\<close>: the protocol is deleted, then the channel closes its descriptor, which leaves the
  interest list of the loop. The result is the client's loop, that lives on, with the descriptors
  closed and the protocol deleted.\<close>

definition pb_client_dtor :: "client_world \<Rightarrow> unit event_loop \<times> int list \<times> protocol option" where
  "pb_client_dtor w =
     (let p = client_protocol (client w); w1 = set_protocol None w; fs = channel_dtor (client w1) in
      ((client_loop w1)\<lparr>interests := fold (\<lambda>f k. k(f := None)) fs (interests (client_loop w1))\<rparr>, fs, p))"

text \<open>A client that goes away while its connection is being made leaves the loop a function that is
  bound to it.\<close>

lemma client_leaves_function:
  assumes "pb_client_connect (Some e) True f True now (ConnectErr EINPROGRESS) l = Inr w"
  shows "funcs (fst (pb_client_dtor w)) = funcs l @ [()]"
  using assms
  by (cases "f = -1") (auto simp: pb_client_connect_def pb_client_dtor_def set_protocol_def on_client_def Let_def)

lemma client_dtor_closes:
  assumes "pb_client_connect e True f nb now answer l = Inr w"
  shows "fst (snd (pb_client_dtor (set_protocol p w))) = [f]" "snd (snd (pb_client_dtor (set_protocol p w))) = p"
    "interests (fst (pb_client_dtor (set_protocol p w))) f = None"
  using assms
  by (auto simp: pb_client_connect_def pb_client_dtor_def set_protocol_def on_client_def new_pb_client_def
      new_tcp_connection_def tcp_connection.defs channel_dtor_def Let_def split: if_splits connect_answer.splits)

end
