(* ===== verification/Accept_Race.thy ===== *)
theory Accept_Race
  imports Server_IO Shutdown
begin

text \<open>
  \<^verbatim>\<open>PbServer::new_connection_callback\<close> cut where the code can be overtaken. It runs in the thread of
  the main loop; as soon as the channel is registered, the loop that was chosen may handle events of
  the connection in its own thread, before the callbacks are set. The other theories run the callback
  as one step; here the steps of the chosen loop come in between.
\<close>

section \<open>The callback in pieces\<close>

text \<open>Up to \<^verbatim>\<open>update_channel\<close>: the connection is known to the loop and to the kernel.\<close>

definition accept_register :: "timestamp \<Rightarrow> nat \<Rightarrow> bool \<Rightarrow> int \<Rightarrow> world \<Rightarrow> world result" where
  "accept_register now a nb conn w =
     and_then (get_next_el w) (\<lambda>(i, w1).
     let w2 = put_conn a (new_tcp_connection conn (Some i) True now) w1;
         w3 = on_loop i (add_channel a now) w2 in
     if \<not> nb then Inl Aborted
     else and_then (set_event a EPOLLIN w3) (update_conn a))"

definition accept_limit :: "timestamp \<Rightarrow> nat \<Rightarrow> world \<Rightarrow> world result" where
  "accept_limit now a w =
     (if read_timeout_ms w > 0 then start_timer a now (read_timeout_ms w) True w else Inr w)"

text \<open>A callback is set through the pointer, whatever has become of the connection.\<close>

definition on_conn :: "(conn \<Rightarrow> conn) \<Rightarrow> nat \<Rightarrow> world \<Rightarrow> world result" where
  "on_conn f a w = and_then (get_conn a w) (\<lambda>c. Inr (put_conn a (f c) w))"

definition accept_rest :: "timestamp \<Rightarrow> nat \<Rightarrow> world \<Rightarrow> world result" where
  "accept_rest now a w =
     and_then (accept_limit now a w) (\<lambda>w.
     and_then (on_conn (set_data_read_callback DataReadCb) a w) (\<lambda>w.
     and_then (on_conn (set_close_callback CloseCb) a w)
       (on_conn (set_write_complete_callback WriteCompleteCb) a)))"

text \<open>Without interference the pieces are the callback.\<close>

lemma accept_in_pieces:
  "new_connection_callback now a nb f w = and_then (accept_register now a nb f w) (accept_rest now a)"
  (is "?l = ?r")
proof -
  have set: "and_then (on_conn (set_data_read_callback DataReadCb) a w)
      (\<lambda>w. and_then (on_conn (set_close_callback CloseCb) a w) (on_conn (set_write_complete_callback WriteCompleteCb) a)) =
      and_then (get_conn a w) (\<lambda>c. Inr (put_conn a (c\<lparr>data_read_cb := Some DataReadCb, close_cb := Some CloseCb,
           write_complete_cb := Some WriteCompleteCb\<rparr>) w))" for w
    by (cases "conns w a")
       (simp_all add: on_conn_def setter_defs get_conn_def put_conn_def)
  show ?thesis
    unfolding new_connection_callback_def accept_register_def accept_rest_def accept_limit_def set and_then_assoc Let_def
    by (cases "get_next_el w") (simp_all add: split_def and_then_assoc)
qed

text \<open>A connection as the chosen loop sees it before its callbacks are set.\<close>

definition bare_conn :: "timestamp \<Rightarrow> int \<Rightarrow> nat \<Rightarrow> conn" where
  "bare_conn now f i = (new_tcp_connection f (Some i) True now)\<lparr>event := EPOLLIN, sevent := EPOLLIN\<rparr>"

lemma bare_conn_simps [simp]:
  "fd (bare_conn now f i) = f" "event (bare_conn now f i) = EPOLLIN" "sevent (bare_conn now f i) = EPOLLIN"
  "el (bare_conn now f i) = Some i" "ctx (bare_conn now f i) = None" "proto_idx (bare_conn now f i) = 0"
  "connected (bare_conn now f i)" "data_read_cb (bare_conn now f i) = None" "close_cb (bare_conn now f i) = None"
  "write_complete_cb (bare_conn now f i) = None" "rbuf (bare_conn now f i) = new_buffer InitialBufferSize"
  "wbuf (bare_conn now f i) = new_buffer InitialBufferSize"
  by (simp_all add: bare_conn_def new_tcp_connection_def)

lemma empty_buffer:
  "buf_ok (new_buffer InitialBufferSize)" "unread (new_buffer InitialBufferSize) = []"
  "writeable (new_buffer InitialBufferSize) = 1024"
  by (simp_all add: new_buffer_def InitialBufferSize_def buf_ok_def unread_def writeable_def sz_sub_def)

definition only_changed :: "nat \<Rightarrow> world \<Rightarrow> world \<Rightarrow> bool" where
  "only_changed a w w' \<longleftrightarrow> world_reg w' \<and> (\<forall>q. q \<noteq> a \<longrightarrow> conns w' q = conns w q) \<and> same_funcs w w' \<and>
     deferred w' = deferred w \<and> sent w' = sent w \<and> protocols w' = protocols w"

lemma only_changed_trans: "only_changed a w w1 \<Longrightarrow> only_changed a w1 w2 \<Longrightarrow> only_changed a w w2"
  by (simp add: only_changed_def same_funcs_def)

lemma only_changed_put:
  "world_reg w \<Longrightarrow> conns w a = Some c \<Longrightarrow> same_reg c d \<Longrightarrow> only_changed a w (put_conn a d w)"
  using world_reg_put [of w a c d] by (simp add: only_changed_def same_funcs_def put_conn_def)

lemma register_ok:
  assumes w: "world_inv w" and a: "conns w a = None" and f: "f \<notin> open_fds w" "f \<noteq> -1"
  shows "\<exists>i w1. accept_register now a True f (w\<lparr>open_fds := insert f (open_fds w)\<rparr>) = Inr w1 \<and>
    only_changed a w w1 \<and> conns w1 a = Some (bare_conn now f i) \<and> (i = 0 \<longleftrightarrow> thread_num w = 0)"
proof -
  let ?v = "w\<lparr>open_fds := insert f (open_fds w)\<rparr>"
  have reg: "world_reg w" using w by (simp add: world_inv_def)
  then have "pool_ok ?v" by (simp add: world_reg_def pool_ok_def)
  from get_next_el_ok [OF this] obtain i w1 where i: "get_next_el ?v = Inr (i, w1)" "w1 = ?v\<lparr>next_el := next_el w1\<rparr>"
    "i = 0 \<longleftrightarrow> thread_num w = 0" by auto
  have s1: "sent w1 = sent w" "protocols w1 = protocols w"
    using arg_cong [OF i(2), of sent] arg_cong [OF i(2), of protocols] by simp_all
  define c where "c = (new_tcp_connection f (Some i) True now :: conn)"
  define w3 where "w3 = on_loop i (add_channel a now) (put_conn a c w1)"
  note n = new_conn_reg(1) [OF reg a f i(1), of now, folded c_def, folded w3_def] new_conn_reg(2-4) [OF reg a f i(1)]
  have c3: "conns w3 a = Some c" by (simp add: w3_def)
  define w4 where "w4 = put_conn a (c\<lparr>event := EPOLLIN\<rparr>) w3"
  note e = set_event_ok [OF n(1) c3, of EPOLLIN, folded w4_def]
  have c4: "conns w4 a = Some (c\<lparr>event := EPOLLIN\<rparr>)" "el (c\<lparr>event := EPOLLIN\<rparr>) = Some i"
    by (simp_all add: w4_def c_def new_tcp_connection_def)
  from update_on_loop_ok(2-4) [OF e(2) c4] obtain w5 where w5: "update_conn a w4 = Inr w5"
    "world_reg w5" "same_funcs w4 w5" "conns w5 = (conns w4)(a \<mapsto> bare_conn now f i)" "deferred w5 = deferred w4"
    by (simp add: c_def bare_conn_def)
  have "accept_register now a True f ?v = Inr w5"
    using i(1) e(1) w5(1) by (simp add: accept_register_def Let_def flip: c_def) (simp flip: w3_def)
  moreover have "only_changed a w w5"
    using w5 n(2-4) s1 rest_update_conn [OF w5(1)] by (simp add: only_changed_def w4_def w3_def same_funcs_def)
  ultimately show ?thesis using w5(4) i(3) by auto
qed

lemma limit_ok:
  assumes w: "world_reg w" and c: "conns w a = Some c"
  shows "\<exists>w' t. accept_limit now a w = Inr w' \<and> only_changed a w w' \<and> conns w' a = Some (c\<lparr>timer_id := t\<rparr>)"
proof (cases "read_timeout_ms w > 0")
  case True
  from start_timer_ok [OF w c, of now "read_timeout_ms w" True] obtain w' where w':
    "start_timer a now (read_timeout_ms w) True w = Inr w'" "world_reg w'" "same_funcs w w'"
    "conns w' = (conns w)(a \<mapsto> bump_timer c)" "deferred w' = deferred w" by blast
  with True rest_start_timer [OF w'(1)] show ?thesis
    by (auto simp: accept_limit_def only_changed_def bump_timer_def)
next
  case False
  then show ?thesis
    using w c by (auto simp: accept_limit_def only_changed_def same_funcs_def intro: exI [of _ "timer_id c"])
qed

text \<open>The callbacks are set on whatever the connection has become.\<close>

lemma rest_ok:
  assumes w: "world_reg w" and c: "conns w a = Some c"
  shows "\<exists>w' t. accept_rest now a w = Inr w' \<and> only_changed a w w' \<and>
    conns w' a = Some (c\<lparr>timer_id := t, data_read_cb := Some DataReadCb, close_cb := Some CloseCb,
      write_complete_cb := Some WriteCompleteCb\<rparr>)"
proof -
  from limit_ok [OF w c, of now] obtain w1 t where w1: "accept_limit now a w = Inr w1" "only_changed a w w1"
    "conns w1 a = Some (c\<lparr>timer_id := t\<rparr>)" by blast
  let ?d = "c\<lparr>timer_id := t, data_read_cb := Some DataReadCb, close_cb := Some CloseCb,
      write_complete_cb := Some WriteCompleteCb\<rparr>"
  have "accept_rest now a w = Inr (put_conn a ?d w1)"
    using w1(1,3) by (simp add: accept_rest_def on_conn_def setter_defs get_conn_def put_conn_def)
  moreover have "only_changed a w1 (put_conn a ?d w1)"
    using w1 by (intro only_changed_put [of w1 a "c\<lparr>timer_id := t\<rparr>"]) (auto simp: only_changed_def same_reg_def)
  from only_changed_trans [OF w1(2) this] have "only_changed a w (put_conn a ?d w1)" .
  ultimately show ?thesis by auto
qed

section \<open>Overtaken\<close>

text \<open>A state of a started server in which a connection can arrive.\<close>

lemma arrival:
  assumes "wfd \<noteq> lfd" and "sync_app app" and "new_pb_world wfd lfd = Inr w0"
    and "start_pb wfds (configured n rt wt ps svcs w0) = Inr w" and "server_reachable app w (v, ph)" and "0 < n"
    and "conns v a = None" and "f \<notin> open_fds v" and "f \<noteq> -1"
  obtains i w1 where "accept_register now a True f (v\<lparr>open_fds := insert f (open_fds v)\<rparr>) = Inr w1"
    "only_changed a v w1" "conns w1 a = Some (bare_conn now f i)" "i \<noteq> 0"
proof -
  from boot_ok [OF assms(1), of wfds n rt wt ps svcs] assms(3,4) have "system_ok (w, \<lambda>_. Idle)" by auto
  from reachable_ok [OF assms(5) this assms(2)] have inv: "world_inv v" by (simp add: system_ok_def)
  have "thread_num v \<noteq> 0" using reachable_threads [OF assms(3-5) refl] assms(6) by (auto simp: pool_of_def)
  with register_ok [OF inv assms(7-9), of now] show ?thesis by (auto intro: that)
qed

text \<open>C13. A request that the chosen loop reads before the callbacks are set stays in the
  buffer: it is neither parsed nor answered, and the loop has nothing to do for it.\<close>

lemma early_request_stalled:
  assumes "wfd \<noteq> lfd" and "sync_app app" and "new_pb_world wfd lfd = Inr w0"
    and "start_pb wfds (configured n rt wt ps svcs w0) = Inr w" and "server_reachable app w (v, ph)" and "0 < n"
    and "conns v a = None" and "f \<notin> open_fds v" and "f \<noteq> -1" and "bs \<noteq> []" and "length bs \<le> 1024"
  shows "\<exists>i w1 w2 w3 c. i \<noteq> 0 \<and>
    accept_register now a True f (v\<lparr>open_fds := insert f (open_fds v)\<rparr>) = Inr w1 \<and>
    conn_handle_events app now' a EPOLLIN (Pending bs) wa1 wa2 w1 = Inr w2 \<and> accept_rest now a w2 = Inr w3 \<and>
    conns w3 a = Some c \<and> el c = Some i \<and> event c = EPOLLIN \<and> unread (rbuf c) = bs \<and> ctx c = None \<and>
    sent w3 = sent v \<and> funcs (loops w3 i) = funcs (loops v i) \<and> deferred w3 = deferred v"
proof -
  from arrival [OF assms(1-9), of now] obtain i w1 where w1:
    "accept_register now a True f (v\<lparr>open_fds := insert f (open_fds v)\<rparr>) = Inr w1"
    "only_changed a v w1" "conns w1 a = Some (bare_conn now f i)" "i \<noteq> 0" .
  let ?c = "bare_conn now f i"
  from read_fd_fits [OF empty_buffer(1) assms(10)] assms(11) obtain b where b:
    "read_fd (Pending bs) (rbuf ?c) = Inr (int (length bs), b)" "unread b = bs" by (auto simp: empty_buffer)
  let ?w2 = "put_conn a (?c\<lparr>rbuf := b\<rparr>) w1"
  have "tcp_handle_events EPOLLIN (Pending bs) wa1 wa2 ?c = Inr (?c\<lparr>rbuf := b\<rparr>, [], None)"
    using b(1) assms(10) by (simp add: tcp_handle_events_def)
  then have w2: "conn_handle_events app now' a EPOLLIN (Pending bs) wa1 wa2 w1 = Inr ?w2"
    using w1(3) by (simp add: conn_handle_events_def run_callback_def get_conn_def)
  have o2: "only_changed a w1 ?w2"
    using w1(2,3) by (intro only_changed_put [of w1 a ?c]) (auto simp: only_changed_def same_reg_def)
  have "world_reg ?w2" "conns ?w2 a = Some (?c\<lparr>rbuf := b\<rparr>)" using o2 by (simp_all add: only_changed_def)
  from rest_ok [OF this, of now] obtain w3 t where w3: "accept_rest now a ?w2 = Inr w3" "only_changed a ?w2 w3"
    "conns w3 a = Some (?c\<lparr>rbuf := b, timer_id := t, data_read_cb := Some DataReadCb, close_cb := Some CloseCb,
      write_complete_cb := Some WriteCompleteCb\<rparr>)" by auto
  from only_changed_trans [OF only_changed_trans [OF w1(2) o2] w3(2)] have "only_changed a v w3" .
  with w1(1,4) w2 w3(1,3) b(2) show ?thesis by (auto simp: only_changed_def same_funcs_def)
qed

text \<open>The pieces up to the close callback.\<close>

lemma closable_ok:
  assumes "world_reg w" and "conns w a = Some (bare_conn now f i)"
  shows "\<exists>w2 w3 t. accept_limit now a w = Inr w2 \<and> on_conn (set_data_read_callback DataReadCb) a w2 = Inr w3 \<and>
    only_changed a w w3 \<and> conns w3 a = Some ((bare_conn now f i)\<lparr>timer_id := t, data_read_cb := Some DataReadCb\<rparr>)"
proof -
  let ?c = "bare_conn now f i"
  from limit_ok [OF assms, of now] obtain w2 t where w2: "accept_limit now a w = Inr w2" "only_changed a w w2"
    "conns w2 a = Some (?c\<lparr>timer_id := t\<rparr>)" by blast
  let ?d = "?c\<lparr>timer_id := t, data_read_cb := Some DataReadCb\<rparr>"
  have "only_changed a w2 (put_conn a ?d w2)"
    using w2(2,3) by (intro only_changed_put [of w2 a "?c\<lparr>timer_id := t\<rparr>"]) (auto simp: only_changed_def same_reg_def)
  from only_changed_trans [OF w2(2) this] w2(1,3) show ?thesis
    by (auto simp: on_conn_def setter_defs get_conn_def)
qed

text \<open>C11. When the chosen loop sees the end of the stream after the close callback is set and
  before the write callback is, it deletes the connection, and new_connection_callback then writes
  to freed memory.\<close>

lemma early_close_freed:
  assumes "wfd \<noteq> lfd" and "sync_app app" and "new_pb_world wfd lfd = Inr w0"
    and "start_pb wfds (configured n rt wt ps svcs w0) = Inr w" and "server_reachable app w (v, ph)" and "0 < n"
    and "conns v a = None" and "f \<notin> open_fds v" and "f \<noteq> -1"
  shows "\<exists>w1 w2 w3 w4 w5.
    accept_register now a True f (v\<lparr>open_fds := insert f (open_fds v)\<rparr>) = Inr w1 \<and> accept_limit now a w1 = Inr w2 \<and>
    on_conn (set_data_read_callback DataReadCb) a w2 = Inr w3 \<and> on_conn (set_close_callback CloseCb) a w3 = Inr w4 \<and>
    conn_handle_events app now' a EPOLLIN (Pending []) wa1 wa2 w4 = Inr w5 \<and>
    on_conn (set_write_complete_callback WriteCompleteCb) a w5 = Inl UseAfterFree"
proof -
  from arrival [OF assms(1-9), of now] obtain i w1 where w1:
    "accept_register now a True f (v\<lparr>open_fds := insert f (open_fds v)\<rparr>) = Inr w1"
    "only_changed a v w1" "conns w1 a = Some (bare_conn now f i)" .
  let ?c = "bare_conn now f i"
  have "world_reg w1" using w1(2) by (simp add: only_changed_def)
  from closable_ok [OF this w1(3)] obtain w2 w3 t where w3: "accept_limit now a w1 = Inr w2"
    "on_conn (set_data_read_callback DataReadCb) a w2 = Inr w3" "only_changed a w1 w3"
    "conns w3 a = Some (?c\<lparr>timer_id := t, data_read_cb := Some DataReadCb\<rparr>)" by blast
  let ?d = "?c\<lparr>timer_id := t, data_read_cb := Some DataReadCb, close_cb := Some CloseCb\<rparr>"
  let ?w4 = "put_conn a ?d w3"
  have w4: "on_conn (set_close_callback CloseCb) a w3 = Inr ?w4" using w3(4) by (simp add: on_conn_def setter_defs get_conn_def)
  have o4: "only_changed a w3 ?w4"
    by (rule only_changed_put [OF _ w3(4)]) (use w3(3) in \<open>auto simp: only_changed_def same_reg_def\<close>)
  have r: "read_fd (Pending []) (rbuf ?d) = Inr (0, rbuf ?d)"
    by (simp add: read_fd_def Let_def new_buffer_def InitialBufferSize_def writeable_def sz_sub_def in_bounds_def)
  have "tcp_handle_events EPOLLIN (Pending []) wa1 wa2 ?d = Inr (?d\<lparr>rbuf := rbuf ?d\<rparr>, [], Some CloseCb)"
    using r by (simp add: tcp_handle_events_def)
  moreover have "?d\<lparr>rbuf := rbuf ?d\<rparr> = ?d" by simp
  moreover have "put_conn a ?d ?w4 = ?w4" by (simp add: put_conn_def)
  moreover have "conns ?w4 a = Some ?d" by simp
  ultimately have "conn_handle_events app now' a EPOLLIN (Pending []) wa1 wa2 ?w4 = close_callback a ?w4"
    by (simp only: conn_handle_events_def get_conn_def option.case and_then_simps prod.case run_callback_def
      server_cb.case send_nothing)
  moreover have "world_reg ?w4" "conns ?w4 a = Some ?d" using o4 by (simp_all add: only_changed_def)
  from close_callback_ok [OF this] obtain w5 where w5: "close_callback a ?w4 = Inr w5" "conns w5 a = None" by auto
  moreover have "on_conn (set_write_complete_callback WriteCompleteCb) a w5 = Inl UseAfterFree"
    using w5(2) by (simp add: on_conn_def setter_defs get_conn_def)
  ultimately show ?thesis using w1(1) w3(1,2) w4 by metis
qed

text \<open>C12. When input that no protocol claims is handled after the read callback is set and
  before the close callback is, the empty close callback is called and the process ends.\<close>

lemma half_set_aborts:
  assumes "wfd \<noteq> lfd" and "sync_app app" and "new_pb_world wfd lfd = Inr w0"
    and "start_pb wfds (configured n rt wt ps svcs w0) = Inr w" and "server_reachable app w (v, ph)" and "0 < n"
    and "conns v a = None" and "f \<notin> open_fds v" and "f \<noteq> -1" and "bs \<noteq> []" and "length bs \<le> 1024"
    and "\<forall>pr \<in> set (protocols v). proto_need pr \<le> length bs \<and> \<not> proto_claims pr bs"
  shows "\<exists>w1 w2 w3.
    accept_register now a True f (v\<lparr>open_fds := insert f (open_fds v)\<rparr>) = Inr w1 \<and> accept_limit now a w1 = Inr w2 \<and>
    on_conn (set_data_read_callback DataReadCb) a w2 = Inr w3 \<and>
    conn_handle_events app now' a EPOLLIN (Pending bs) wa1 wa2 w3 = Inl Aborted"
proof -
  from arrival [OF assms(1-9), of now] obtain i w1 where w1:
    "accept_register now a True f (v\<lparr>open_fds := insert f (open_fds v)\<rparr>) = Inr w1"
    "only_changed a v w1" "conns w1 a = Some (bare_conn now f i)" .
  let ?c = "bare_conn now f i"
  have "world_reg w1" using w1(2) by (simp add: only_changed_def)
  from closable_ok [OF this w1(3)] obtain w2 w3 t where w3: "accept_limit now a w1 = Inr w2"
    "on_conn (set_data_read_callback DataReadCb) a w2 = Inr w3" "only_changed a w1 w3"
    "conns w3 a = Some (?c\<lparr>timer_id := t, data_read_cb := Some DataReadCb\<rparr>)" by blast
  let ?d = "?c\<lparr>timer_id := t, data_read_cb := Some DataReadCb\<rparr>"
  from read_fd_fits [OF empty_buffer(1) assms(10)] assms(11) obtain b where b:
    "read_fd (Pending bs) (rbuf ?d) = Inr (int (length bs), b)" "buf_ok b" "unread b = bs" by (auto simp: empty_buffer)
  have "tcp_handle_events EPOLLIN (Pending bs) wa1 wa2 ?d = Inr (?d\<lparr>rbuf := b\<rparr>, [], Some DataReadCb)"
    using b(1) assms(10) by (simp add: tcp_handle_events_def)
  then have "conn_handle_events app now' a EPOLLIN (Pending bs) wa1 wa2 w3 =
      data_read_callback app now' a (put_conn a (?d\<lparr>rbuf := b\<rparr>) w3)"
    using w3(4) by (simp add: conn_handle_events_def run_callback_def get_conn_def)
  also have "\<dots> = Inl Aborted"
    using family.none_claims [OF b(2), of "protocols v"] assms(12) b(3) only_changed_trans [OF w1(2) w3(3)]
    by (simp add: data_read_callback_def get_conn_def conn_close_def only_changed_def)
  finally show ?thesis using w1(1) w3(1,2) by blast
qed

end
