(* ===== verification/Run_Samples.thy ===== *)
theory Run_Samples
  imports Time_Limits Lifecycles Accept_Race Reach_Sample
begin

text \<open>
  The properties of the runs of a server at concrete servers: one loop, descriptors 3 and 4, the first
  connection on descriptor 7.
\<close>

lemma idle_started:
  obtains w0 where "new_pb_world 3 4 = Inr w0"
    "start_pb (\<lambda>_. 0) (configured 0 0 0 [SimpleProtocol] [] w0) = Inr idle_server"
  using idle_server_started by blast

lemma echo_app_sync: "sync_app echo_app"
  by (simp add: sync_app_def echo_app_def)


text \<open>The second connection comes while the first is open.\<close>

lemma second_arrives:
  "\<exists>v. acceptor_handle_events (TimeStamp 1 0) EPOLLIN (Accepted 8) 2 True accepted_server = Inr v \<and> conns v 2 \<noteq> None"
  by (simp add: acceptor_handle_events_def new_connection_callback_def get_next_el_def accepted_server_def idle_server_def
      set_event_def update_conn_def update_on_loop_def get_conn_def loop_of_def put_conn_def
      new_tcp_connection_def update_channel_def do_epoll_ctl_def Let_def)


section \<open>A server with a time limit on requests\<close>

definition limited_server :: "world" where
  "limited_server = idle_server\<lparr>read_timeout_ms := 5000\<rparr>"

lemma limited_started:
  "\<exists>w0. new_pb_world 3 4 = Inr w0 \<and> start_pb wfds (configured 0 5000 0 [SimpleProtocol] [] w0) = Inr limited_server"
  by (auto simp: new_pb_world_def new_event_loop_ok update_channel_def do_epoll_ctl_def new_channel_def
      configured_def set_thread_num_def MaxThreadNum_def add_protocol_def start_pb_def start_server_def
      on_loop_def idle_server_def limited_server_def blank_loop_def new_tcp_server_def fun_eq_iff)

definition arrival_poll :: "io_event poll_answer" where
  "arrival_poll = Ready [AcceptIO EPOLLIN (Accepted 7) 1 True]"

lemma take_due_later: "\<not> fst t < now \<Longrightarrow> take_due now \<lparr>queue = [t]\<rparr> [] = Inr ([], \<lparr>queue = [t]\<rparr>)"
  by (subst take_due.simps) (simp add: tm_empty_def tm_top_def)

lemma limited_round:
  "\<exists>v c. server_round app 0 arrival_poll (TimeStamp 0 0) limited_server = Inr v \<and> conns v 1 = Some c \<and> el c = Some 0"
  by (simp add: arrival_poll_def server_round_def loop_body_def acceptor_handle_events_def new_connection_callback_def get_next_el_def
      limited_server_def idle_server_def set_event_def update_conn_def update_on_loop_def get_conn_def loop_of_def
      put_conn_def new_tcp_connection_def update_channel_def do_epoll_ctl_def Let_def start_timer_def bump_timer_def
      on_loop_def swap_funcs_def blank_loop_def due_timers_def run_after_def add_channel_def wakeup_def add_timer_def
      new_timer_manager_def take_due_later after_now_ms_def less_timestamp_iff c_div_def c_mod_def)

lemma steps_reachable: "steps app s s' \<Longrightarrow> server_reachable app w s \<Longrightarrow> server_reachable app w s'"
  by (induction rule: rtranclp_induct) (auto intro: server_reachable.step)

lemma arrival_poll_ok: "poll_ok_for app 0 arrival_poll (TimeStamp 0 0) limited_server"
  by (auto simp: poll_ok_for_def arrival_poll_def limited_server_def idle_server_def reported_def
      intro: exI [of _ 4] split: sum.split)

lemma limited_running: "\<not> is_stop (loops limited_server 0)"
  by (simp add: limited_server_def idle_server_def)

theorem connections_limited_witness:
  "\<exists>v c i r. server_reachable echo_app limited_server (v, \<lambda>_. Idle) \<and> conns v 1 = Some c \<and> el c = Some i \<and>
    (\<exists>t. (t, TimeoutCallback i 1 (conn_ts c) (timer_id c) r) \<in># timers_of (timers (loops v i)))"
proof -
  from limited_started obtain w0 where w0: "new_pb_world 3 4 = Inr w0"
    "start_pb (\<lambda>_. 0) (configured 0 5000 0 [SimpleProtocol] [] w0) = Inr limited_server" by blast
  from limited_round obtain v c where v: "server_round echo_app 0 arrival_poll (TimeStamp 0 0) limited_server = Inr v"
    "conns v 1 = Some c" by blast
  from round_steps [OF v(1) [unfolded arrival_poll_def], of "\<lambda>_. Idle"] arrival_poll_ok limited_running
  have "steps echo_app (limited_server, \<lambda>_. Idle) (v, \<lambda>_. Idle)" by (auto simp: arrival_poll_def)
  then have r: "server_reachable echo_app limited_server (v, \<lambda>_. Idle)"
    by (rule steps_reachable) (rule server_reachable.start)
  from connections_limited [OF _ echo_app_sync _ w0 r v(2)] r v(2) show ?thesis by force
qed

theorem overdue_closed_witness:
  "\<exists>v c t r. server_round echo_app 0 arrival_poll (TimeStamp 0 0) limited_server = Inr v \<and> conns v 1 = Some c \<and>
    (t, TimeoutCallback 0 1 (conn_ts c) (timer_id c) r) \<in># timers_of (timers (loops v 0)) \<and> \<not> t < TimeStamp 0 0"
proof -
  from limited_started obtain w0 where w0: "new_pb_world 3 4 = Inr w0"
    "start_pb (\<lambda>_. 0) (configured 0 5000 0 [SimpleProtocol] [] w0) = Inr limited_server" by blast
  from limited_round obtain v c where v: "server_round echo_app 0 arrival_poll (TimeStamp 0 0) limited_server = Inr v"
    "conns v 1 = Some c" "el c = Some 0" by blast
  from overdue_closed [OF _ echo_app_sync _ w0 server_reachable.start _ limited_running
      arrival_poll_ok [unfolded arrival_poll_def] v(1) [unfolded arrival_poll_def] v(2,3)] v(1,2)
  show ?thesis by auto
qed

section \<open>The end\<close>

definition kernel_fine :: kernel_answers where
  "kernel_fine = (\<lambda>c. case c of Socket \<Rightarrow> 4 | InetPton _ \<Rightarrow> 1 | _ \<Rightarrow> 0)"

lemma sample_members:
  "\<exists>l a. new_server_members kernel_fine ''127.0.0.1'' 8888 3 5 = Inr (l, a) \<and> fd a = 4"
proof -
  obtain tr where "listen_socket kernel_fine ''127.0.0.1'' 8888 1024 = Inr (4, tr)"
    by (simp add: listen_socket_iff kernel_fine_def)
  then show ?thesis
    by (simp add: new_server_members_def new_acceptor_def new_loop_object_def new_wakeuper_def wakeuper_setup_def
        new_channel_def update_channel_def do_epoll_ctl_def)
qed

lemma sample_loop_objects: "\<exists>l. new_loop_object i 0 5 = Inr (l :: task loop_object)"
  by (simp add: new_loop_object_def new_wakeuper_def wakeuper_setup_def new_channel_def update_channel_def do_epoll_ctl_def)

theorem torn_down_witness:
  "\<exists>(objs :: nat \<Rightarrow> task loop_object) a w' svs. tear_down objs a (accepted_server\<lparr>open_fds := {3, 4, 5, 7}\<rparr>) = Inr (w', [SimpleProtocol], svs) \<and>
    open_fds w' = {7} \<and> conns w' = conns accepted_server"
proof -
  from idle_started obtain w0 where w0: "new_pb_world 3 4 = Inr w0"
    "start_pb (\<lambda>_. 0) (configured 0 0 0 [SimpleProtocol] [] w0) = Inr idle_server" .
  from sample_members obtain l a where l: "new_server_members kernel_fine ''127.0.0.1'' 8888 3 5 = Inr (l, a)" "fd a = 4"
    by blast
  from sample_loop_objects obtain sub where sub: "\<And>i. new_loop_object i 0 5 = Inr (sub i :: task loop_object)" by metis
  let ?objs = "\<lambda>i. if i = 0 then l else sub i"
  have all: "fd c = 7" if "conns accepted_server p = Some c" for p c
    using that by (auto simp: accepted_server_def new_tcp_connection_def split: if_splits)
  have "\<exists>p c. 7 = fd c \<and> conns accepted_server p = Some c"
    by (auto simp: accepted_server_def new_tcp_connection_def)
  with all have fds: "{fd c | p c. conns accepted_server p = Some c} = {7}" by blast
  note down = torn_down [where ep = "\<lambda>_. 5" and wfds = "\<lambda>_. 0" and k = kernel_fine and objs = ?objs and E = "{5}",
      OF _ _ _ w0(1) [folded l(2)] w0(2) accepted_reachable echo_app_sync]
  have v: "accepted_server\<lparr>open_fds := open_fds accepted_server \<union> {5}\<rparr> = accepted_server\<lparr>open_fds := {3, 4, 5, 7}\<rparr>"
    "protocols accepted_server = [SimpleProtocol]"
    by (auto simp: accepted_server_def idle_server_def)
  have "\<exists>w' svs. tear_down ?objs a (accepted_server\<lparr>open_fds := open_fds accepted_server \<union> {5}\<rparr>) =
      Inr (w', protocols accepted_server, svs) \<and>
    open_fds w' = {fd c | p c. conns accepted_server p = Some c} \<and> conns w' = conns accepted_server"
    by (rule down [unfolded fst_conv]) (use l sub all in \<open>auto simp: kernel_fine_def\<close>)
  then have "\<exists>w' svs. tear_down ?objs a (accepted_server\<lparr>open_fds := {3, 4, 5, 7}\<rparr>) = Inr (w', [SimpleProtocol], svs) \<and>
    open_fds w' = {7} \<and> conns w' = conns accepted_server" unfolding fds v .
  then have "\<exists>a w' svs. tear_down ?objs a (accepted_server\<lparr>open_fds := {3, 4, 5, 7}\<rparr>) = Inr (w', [SimpleProtocol], svs) \<and>
    open_fds w' = {7} \<and> conns w' = conns accepted_server" by (rule exI [of _ a])
  then show ?thesis by (rule exI [of _ ?objs])
qed

section \<open>A server with a sub reactor\<close>

lemma pooled_started:
  obtains w0 w where "new_pb_world 3 4 = Inr w0"
    "start_pb (\<lambda>_. 6) (configured 1 0 0 [SimpleProtocol] [] w0) = Inr w" "conns w = Map.empty" "open_fds w = {3, 4, 6}"
    "protocols w = [SimpleProtocol]"
proof -
  from boot_ok [of 3 4 "\<lambda>_. 6" 1 0 0 "[SimpleProtocol]" "[]"] obtain w0 w where
    w: "new_pb_world 3 4 = Inr w0" "start_pb (\<lambda>_. 6) (configured 1 0 0 [SimpleProtocol] [] w0) = Inr w" by auto
  have "open_fds w = {3, 4, 6} \<and> conns w = Map.empty \<and> protocols w = [SimpleProtocol]"
    using w by (auto simp: new_pb_world_def new_event_loop_ok update_channel_def do_epoll_ctl_def new_channel_def
      configured_def set_thread_num_def MaxThreadNum_def add_protocol_def start_pb_def start_server_def
      on_loop_def new_tcp_server_def and_then_Inr_iff Let_def numeral_eq_Suc)
  with w show ?thesis by (intro that) auto
qed

theorem early_request_stalled_witness:
  "\<exists>w i w1 w2 w3 c. i \<noteq> 0 \<and>
    accept_register (TimeStamp 0 0) 1 True 7 (w\<lparr>open_fds := insert 7 (open_fds w)\<rparr>) = Inr w1 \<and>
    conn_handle_events echo_app (TimeStamp 0 0) 1 EPOLLIN (Pending magic) (Room 0) (Room 0) w1 = Inr w2 \<and>
    accept_rest (TimeStamp 0 0) 1 w2 = Inr w3 \<and> conns w3 1 = Some c \<and> el c = Some i \<and> unread (rbuf c) = magic \<and>
    ctx c = None \<and> sent w3 = sent w \<and> funcs (loops w3 i) = funcs (loops w i)"
proof -
  from pooled_started obtain w0 w where w: "new_pb_world 3 4 = Inr w0"
    "start_pb (\<lambda>_. 6) (configured 1 0 0 [SimpleProtocol] [] w0) = Inr w" "conns w = Map.empty" "open_fds w = {3, 4, 6}" .
  have m: "length magic = 4" by (simp add: magic_def)
  then have "magic \<noteq> []" by auto
  from early_request_stalled [OF _ echo_app_sync w(1,2) server_reachable.start, of 1 7 magic "TimeStamp 0 0" "TimeStamp 0 0" "Room 0" "Room 0"]
    w(3,4) m this have "\<exists>i w1 w2 w3 c. i \<noteq> 0 \<and>
      accept_register (TimeStamp 0 0) 1 True 7 (w\<lparr>open_fds := insert 7 (open_fds w)\<rparr>) = Inr w1 \<and>
      conn_handle_events echo_app (TimeStamp 0 0) 1 EPOLLIN (Pending magic) (Room 0) (Room 0) w1 = Inr w2 \<and>
      accept_rest (TimeStamp 0 0) 1 w2 = Inr w3 \<and> conns w3 1 = Some c \<and> el c = Some i \<and> unread (rbuf c) = magic \<and>
      ctx c = None \<and> sent w3 = sent w \<and> funcs (loops w3 i) = funcs (loops w i)" by (simp del: One_nat_def) blast
  then show ?thesis by (rule exI)
qed

theorem early_close_freed_witness:
  "\<exists>w w1 w2 w3 w4 w5.
    accept_register (TimeStamp 0 0) 1 True 7 (w\<lparr>open_fds := insert 7 (open_fds w)\<rparr>) = Inr w1 \<and>
    accept_limit (TimeStamp 0 0) 1 w1 = Inr w2 \<and>
    on_conn (set_data_read_callback DataReadCb) 1 w2 = Inr w3 \<and> on_conn (set_close_callback CloseCb) 1 w3 = Inr w4 \<and>
    conn_handle_events echo_app (TimeStamp 0 0) 1 EPOLLIN (Pending []) (Room 0) (Room 0) w4 = Inr w5 \<and>
    on_conn (set_write_complete_callback WriteCompleteCb) 1 w5 = Inl UseAfterFree"
proof -
  from pooled_started obtain w0 w where w: "new_pb_world 3 4 = Inr w0"
    "start_pb (\<lambda>_. 6) (configured 1 0 0 [SimpleProtocol] [] w0) = Inr w" "conns w = Map.empty" "open_fds w = {3, 4, 6}" .
  show ?thesis
    by (rule exI [of _ w], rule early_close_freed [OF _ echo_app_sync w(1,2) server_reachable.start]) (simp_all add: w(3,4))
qed

theorem half_set_aborts_witness:
  "\<exists>w w1 w2 w3.
    accept_register (TimeStamp 0 0) 1 True 7 (w\<lparr>open_fds := insert 7 (open_fds w)\<rparr>) = Inr w1 \<and>
    accept_limit (TimeStamp 0 0) 1 w1 = Inr w2 \<and> on_conn (set_data_read_callback DataReadCb) 1 w2 = Inr w3 \<and>
    conn_handle_events echo_app (TimeStamp 0 0) 1 EPOLLIN (Pending ''quit'') (Room 0) (Room 0) w3 = Inl Aborted"
proof -
  from pooled_started obtain w0 w where w: "new_pb_world 3 4 = Inr w0"
    "start_pb (\<lambda>_. 6) (configured 1 0 0 [SimpleProtocol] [] w0) = Inr w" "conns w = Map.empty" "open_fds w = {3, 4, 6}"
    "protocols w = [SimpleProtocol]" .
  have q: "\<not> proto_claims SimpleProtocol ''quit''" by (simp add: be_word_def MAGIC_NUM_def)
  show ?thesis
    by (rule exI [of _ w], rule half_set_aborts [OF _ echo_app_sync w(1,2) server_reachable.start])
      (simp_all add: w(3-5) q del: proto_claims.simps)
qed

end
