(* ===== verification/Unit_Tests.thy ===== *)
theory Unit_Tests
  imports Log_Records Protocols
begin

text \<open>
  The unit tests of \<open>tests/\<close> run on the model: a test is the sequence of the calls it makes, and its
  value is the list of what its expectations say, in order. The theorems say which of them hold. Where
  a test reads the clock or a flag, the value is a parameter. What the tests log is left out.
\<close>

definition passes :: "bool list result \<Rightarrow> bool" where
  "passes t \<longleftrightarrow> (case t of Inl e \<Rightarrow> False | Inr es \<Rightarrow> list_all (\<lambda>e. e) es)"

lemma passes_simps [simp]: "passes (Inl e) = False" "passes (Inr es) = list_all (\<lambda>e. e) es"
  by (simp_all add: passes_def)

section \<open>test\_timestamp.cpp\<close>

definition test_len :: "(int \<Rightarrow> tm) \<Rightarrow> timestamp \<Rightarrow> bool list result" where
  "test_len localtime now = Inr [length (ts_str localtime now) = 15]"

definition test_ostream :: "(int \<Rightarrow> tm) \<Rightarrow> timestamp \<Rightarrow> bool list result" where
  "test_ostream localtime now = Inr [length (ts_print localtime now) = 23]"

text \<open>The clock is read twice.\<close>

definition test_operator_less :: "timestamp \<Rightarrow> timestamp \<Rightarrow> bool list result" where
  "test_operator_less now1 now2 = Inr [ts_less now1 (after_now_ms now2 900)]"

definition test_operator_reduce :: "timestamp \<Rightarrow> timestamp \<Rightarrow> bool list result" where
  "test_operator_reduce now1 now2 =
     (let ts = now1; ts2 = after_now_ms now2 3900 in Inr [-3900 = ts_diff ts ts2, 3900 = ts_diff ts2 ts])"

lemma stamp_lengths:
  assumes "tm_ok (localtime (sec t))" and "normalised t"
  shows "length (ts_str localtime t) = 15" "length (ts_print localtime t) = 23"
proof -
  define r where "r = localtime (sec t)"
  have r: "tm_ok r" using assms(1) by (simp add: r_def)
  have "length (pad 4 (1900 + tm_year r)) = 4" "length (pad 3 (msec t)) = 3"
    using r assms(2) pad_fixed [of "1900 + tm_year r" 4] pad_fixed [of "msec t" 3] by (simp_all add: tm_ok_def normalised_def)
  moreover have "length (pad 2 n) = 2" if "0 \<le> n" "n < 100" for n
    using that pad_fixed [of n 2] by simp
  ultimately show "length (ts_str localtime t) = 15" "length (ts_print localtime t) = 23"
    using r by (simp_all add: ts_str_def ts_print_def Let_def tm_ok_def flip: r_def)
qed

lemma timestamp_tests_pass:
  assumes "tm_ok (localtime (sec now))" and "normalised now" and "normalised now2" and "now \<le> now2"
  shows "passes (test_len localtime now)" "passes (test_ostream localtime now)" "passes (test_operator_less now now2)"
proof -
  show "passes (test_len localtime now)" "passes (test_ostream localtime now)"
    using assms(1,2) stamp_lengths [of localtime now] by (simp_all add: test_len_def test_ostream_def)
  have "total_ms now \<le> total_ms now2"
    using assms(2-4) less_iff_total_ms [of now2 now] by (metis not_less)
  moreover have "normalised (after_now_ms now2 900)"
    using assms(3) by (intro normalised_after) (simp add: normalised_def)
  ultimately have "now < after_now_ms now2 900" using assms(2) by (simp add: less_iff_total_ms total_ms_after)
  then show "passes (test_operator_less now now2)" by (simp add: test_operator_less_def)
qed

text \<open>The difference is exact only if no millisecond goes by between the two readings.\<close>

lemma reduce_test_iff:
  assumes "normalised now" and "normalised now2" and "\<bar>total_ms now2 - total_ms now\<bar> < 2 ^ 30"
  shows "passes (test_operator_reduce now now2) \<longleftrightarrow> now2 = now"
proof -
  have "ts_diff now (after_now_ms now2 3900) = total_ms now - total_ms now2 - 3900"
    "ts_diff (after_now_ms now2 3900) now = total_ms now2 + 3900 - total_ms now"
    using assms(3) by (simp_all add: ts_diff_exact total_ms_after)
  then have "passes (test_operator_reduce now now2) \<longleftrightarrow> total_ms now2 = total_ms now"
    by (auto simp: test_operator_reduce_def)
  also have "\<dots> \<longleftrightarrow> now2 = now"
    using less_iff_total_ms [OF assms(1,2)] less_iff_total_ms [OF assms(2,1)] by (metis less_irrefl neq_iff)
  finally show ?thesis .
qed

section \<open>test\_buffer.cpp\<close>

definition test_read_buffer :: "bool list result" where
  "test_read_buffer =
     and_then (append_mem ''helloworld'' (new_buffer 12)) (\<lambda>b1.
     and_then (append_int32 0x19951028 b1) (\<lambda>b2.
     and_then (view_str b2 (view_at (rindex b2) 5)) (\<lambda>s1.
     and_then (view_str b2 (view_at (rindex b2) 10)) (\<lambda>s2.
     let b3 = retrieve 10 b2 in
     and_then (peek_int32 b3) (\<lambda>num.
     let b4 = retrieve 4 b3 in
     and_then (append_mem ''world'' b4) (\<lambda>b5.
     and_then (append_mem ''hello'' b5) (\<lambda>b6.
     and_then (append_mem ''1'' b6) (\<lambda>b7.
       Inr [readable b1 = 10, writeable b1 = 2, readable b2 = 14, writeable b2 = 10,
         s1 = ''hello'', s2 = ''helloworld'', readable b3 = 4, writeable b3 = 10, num = 0x19951028,
         readable b4 = 0, writeable b4 = 10, readable b5 = 5, writeable b5 = 5,
         readable b6 = 10, writeable b6 = 0, readable b7 = 11, writeable b7 = 23]))))))))"

text \<open>The flag \<^verbatim>\<open>empty_size\<close> is the argument.\<close>

definition test_find :: "nat \<Rightarrow> bool list result" where
  "test_find extra =
     and_then (append_mem (''hello'' @ [CR, LF] @ ''world'') (new_buffer (12 + extra))) (\<lambda>b1.
     and_then (find_crlf 12 b1) (\<lambda>n1.
     let b2 = retrieve 2 b1 in
     and_then (find_crlf 10 b2) (\<lambda>n2.
     let b3 = retrieve 3 b2 in
     and_then (find_crlf 7 b3) (\<lambda>n3.
     let b4 = retrieve 1 b3 in
     and_then (find_crlf 6 b4) (\<lambda>n4.
       Inr [readable b1 = 12, writeable b1 = extra, n1 = 5, readable b2 = 10, writeable b2 = extra, n2 = 3,
         readable b3 = 7, writeable b3 = extra, n3 = 0, readable b4 = 6, writeable b4 = extra, n4 = -1])))))"

definition test_buffer_view :: "nat \<Rightarrow> bool list result" where
  "test_buffer_view extra =
     and_then (append_mem (''hello'' @ [CR, LF] @ ''world'') (new_buffer (extra + 12))) (\<lambda>b.
     and_then (view_str b \<lparr>has_buf = True, v_begin = 0, v_end = 5\<rparr>) (\<lambda>s1.
     and_then (view_str b \<lparr>has_buf = True, v_begin = 7, v_end = 12\<rparr>) (\<lambda>s2.
       Inr [''hello'' = s1, ''world'' = s2])))"

lemma find_crlf_all:
  assumes "buf_ok b" and "n = length (unread b)"
  shows "find_crlf n b = (case index_of_crlf (unread b) of None \<Rightarrow> Inr (-1) | Some k \<Rightarrow> Inr (to_int32 (int k)))"
  using mem_unread(1) [of b n] assms by (simp add: find_crlf_def)

lemma hello_appended:
  assumes "n \<le> 2 ^ 20"
  shows "\<exists>b. append_mem (''hello'' @ [CR, LF] @ ''world'') (new_buffer (12 + n)) = Inr b \<and> buf_ok b \<and>
    unread b = ''hello'' @ [CR, LF] @ ''world'' \<and> rindex b = 0 \<and> windex b = 12 \<and> length (data b) = 12 + n"
proof -
  let ?b = "new_buffer (12 + n)"
  have e: "rindex ?b = 0" "windex ?b = 0" by (simp_all add: new_buffer_def)
  have ok: "buf_ok ?b" using assms by simp
  then have "writeable ?b = 12 + n" using e by (simp add: writeable_ok)
  with append_mem_ok [OF ok, of "''hello'' @ [CR, LF] @ ''world''"] assms e show ?thesis by auto
qed

lemma test_find_passes:
  assumes "n \<le> 2 ^ 20"
  shows "passes (test_find n)"
proof -
  from hello_appended [OF assms] obtain b where b: "buf_ok b" "unread b = ''hello'' @ [CR, LF] @ ''world''"
    "append_mem (''hello'' @ [CR, LF] @ ''world'') (new_buffer (12 + n)) = Inr b" "windex b = 12" "length (data b) = 12 + n"
    by blast
  define b2 where "b2 = retrieve 2 b"
  define b3 where "b3 = retrieve 3 b2"
  define b4 where "b4 = retrieve 1 b3"
  have 2: "buf_ok b2" "unread b2 = ''llo'' @ [CR, LF] @ ''world''"
    using retrieve_ok [OF b(1), of 2] b(2) by (simp_all add: b2_def del: length_unread)
  have 3: "buf_ok b3" "unread b3 = [CR, LF] @ ''world''"
    using retrieve_ok [OF 2(1), of 3] 2(2) by (simp_all add: b3_def del: length_unread)
  have 4: "buf_ok b4" "unread b4 = LF # ''world''"
    using retrieve_ok [OF 3(1), of 1] 3(2) by (simp_all add: b4_def del: length_unread)
  have w: "writeable b = n" "writeable b2 = n" "writeable b3 = n" "writeable b4 = n"
    using b(1,4,5) 2(1) 3(1) 4(1) by (simp_all add: writeable_ok b2_def b3_def b4_def)
  have r: "readable b = 12" "readable b2 = 10" "readable b3 = 7" "readable b4 = 6"
    using b(1,2) 2 3 4 by (simp_all add: readable_unread del: length_unread)
  have f: "find_crlf 12 b = Inr 5" "find_crlf 10 b2 = Inr 3" "find_crlf 7 b3 = Inr 0" "find_crlf 6 b4 = Inr (-1)"
    using find_crlf_all [OF b(1), of 12] find_crlf_all [OF 2(1), of 10] find_crlf_all [OF 3(1), of 7]
      find_crlf_all [OF 4(1), of 6] b(2) 2(2) 3(2) 4(2)
    by (simp_all add: to_int32_small del: length_unread)
  show ?thesis
    using b(3) w r f by (simp add: test_find_def Let_def del: One_nat_def flip: b2_def b3_def b4_def)
qed

lemma test_buffer_view_passes:
  assumes "n \<le> 2 ^ 20"
  shows "passes (test_buffer_view n)"
proof -
  from hello_appended [OF assms] obtain b where b: "buf_ok b" "unread b = ''hello'' @ [CR, LF] @ ''world''"
    "append_mem (''hello'' @ [CR, LF] @ ''world'') (new_buffer (n + 12)) = Inr b" "rindex b = 0"
    by (auto simp: add.commute)
  have "mem_read b 0 5 = Inr ''hello''" "mem_read b 7 5 = Inr ''world''"
    using mem_read_unread [OF b(1), of 0 5] mem_read_unread [OF b(1), of 7 5] b(2,4)
    by (simp_all add: numeral_eq_Suc del: length_unread)
  then show ?thesis
    using b(3) by (simp add: test_buffer_view_def view_str_def view_size_def sz_sub_small)
qed

text \<open>The sizes after each append.\<close>

lemma test_read_buffer_passes: "passes test_read_buffer"
proof -
  let ?b = "new_buffer 12"
  have 0: "buf_ok ?b" "rindex ?b = 0" "windex ?b = 0" "length (data ?b) = 12" by simp_all (simp_all add: new_buffer_def)
  from append_mem_ok [OF 0(1), of "''helloworld''"] 0 obtain b1 where 1: "append_mem ''helloworld'' ?b = Inr b1" "buf_ok b1"
    "unread b1 = ''helloworld''" "rindex b1 = 0" "windex b1 = 10" "length (data b1) = 12"
    by (auto simp: writeable_ok)
  from append_mem_ok [OF 1(2), of "be_bytes (word_of_int 0x19951028)"] 1 obtain b2 where
    2: "append_int32 0x19951028 b1 = Inr b2" "buf_ok b2" "unread b2 = ''helloworld'' @ be_bytes (word_of_int 0x19951028)"
    "rindex b2 = 0" "windex b2 = 14" "length (data b2) = 24"
    by (auto simp: writeable_ok append_int32_def)
  define b3 where "b3 = retrieve 10 b2"
  have 3: "buf_ok b3" "unread b3 = be_bytes (word_of_int 0x19951028)" "rindex b3 = 10" "windex b3 = 14" "length (data b3) = 24"
    using retrieve_ok [OF 2(2), of 10] 2(3-6) by (simp_all add: b3_def del: length_unread)
  define b4 where "b4 = retrieve 4 b3"
  have 4: "buf_ok b4" "unread b4 = []" "windex b4 = 14" "length (data b4) = 24"
    using retrieve_ok [OF 3(1), of 4] 3 by (simp_all add: b4_def del: length_unread)
  from append_mem_ok [OF 4(1), of "''world''"] 4 obtain b5 where 5: "append_mem ''world'' b4 = Inr b5" "buf_ok b5"
    "unread b5 = ''world''" "windex b5 = 19" "length (data b5) = 24" by (auto simp: writeable_ok)
  from append_mem_ok [OF 5(2), of "''hello''"] 5 obtain b6 where 6: "append_mem ''hello'' b5 = Inr b6" "buf_ok b6"
    "unread b6 = ''worldhello''" "windex b6 = 24" "length (data b6) = 24" by (auto simp: writeable_ok)
  from append_mem_ok [OF 6(2), of "''1''"] 6 obtain b7 where 7: "append_mem ''1'' b6 = Inr b7" "buf_ok b7"
    "unread b7 = ''worldhello1''" "windex b7 = 25" "length (data b7) = 48" by (auto simp: writeable_ok)
  have r: "readable b1 = 10" "readable b2 = 14" "readable b3 = 4" "readable b4 = 0" "readable b5 = 5" "readable b6 = 10" "readable b7 = 11"
    using 1(2,3) 2(2,3) 3(1,2) 4(1,2) 5(2,3) 6(2,3) 7(2,3) by (simp_all add: readable_unread del: length_unread)
  have w: "writeable b1 = 2" "writeable b2 = 10" "writeable b3 = 10" "writeable b4 = 10" "writeable b5 = 5" "writeable b6 = 0" "writeable b7 = 23"
    using 1 2 3 4 5 6 7 by (simp_all add: writeable_ok)
  have v: "view_str b2 (view_at 0 5) = Inr ''hello''" "view_str b2 (view_at 0 10) = Inr ''helloworld''"
    using view_front [OF 2(2), of 5] view_front [OF 2(2), of 10] 2(3,4) by (simp_all del: length_unread)
  have p: "peek_int32 b3 = Inr 0x19951028"
    using bufq.peek_i [OF 3(1)] 3(2) by simp
  show ?thesis
    using 1(1) 2(1,4) 5(1) 6(1) 7(1) r w v p by (simp add: test_read_buffer_def Let_def flip: b3_def b4_def)
qed

section \<open>test\_simple\_protocol.cpp\<close>

text \<open>\<^verbatim>\<open>parse_request(buf, &req_ctx)\<close>, with the pointer as it is.\<close>

definition test_parse_protocol :: "bool list result" where
  "test_parse_protocol =
     and_then (append_mem ''1'' (new_buffer InitialBufferSize)) (\<lambda>b.
     and_then (protocol_parse SimpleProtocol (Some None) b) (\<lambda>(st1, c1, b).
     and_then (append_int32 (MAGIC_NUM - 1) (retrieve 1 b)) (\<lambda>b.
     and_then (protocol_parse SimpleProtocol (Some c1) b) (\<lambda>(st2, c2, b).
     and_then (append_int32 MAGIC_NUM (retrieve 4 b)) (\<lambda>b.
     and_then (protocol_parse SimpleProtocol (Some c2) b) (\<lambda>(st3, c3, b).
       Inr [st1 = ParseProtocol_NoEnoughData, c1 = None, st2 = ParseProtocol_TryAnotherProtocol, c2 = None,
         st3 = ParseProtocol_NoEnoughData, c3 \<noteq> None]))))))"

definition test_parse_context :: "bool list result" where
  "test_parse_context =
     and_then (append_int32 MAGIC_NUM (new_buffer InitialBufferSize)) (\<lambda>b.
     and_then (append_int32 (conn_type_num ConnType_Short) b) (\<lambda>b.
     and_then (append_int32 16 b) (\<lambda>b.
     and_then (append_mem ''EchoService/echo'' b) (\<lambda>b.
     and_then (append_int32 10 b) (\<lambda>b.
     and_then (append_mem ''helloworld'' b) (\<lambda>b.
     and_then (protocol_parse SimpleProtocol (Some None) b) (\<lambda>(st, c, b).
       Inr [st = ParseProtocol_Success])))))))"

text \<open>An append of a few bytes to a buffer with room for them.\<close>

lemma appended:
  assumes "buf_ok b" and "length (data b) = 1024" and "windex b + length mem \<le> 1024"
  shows "\<exists>b'. append_mem mem b = Inr b' \<and> buf_ok b' \<and> length (data b') = 1024 \<and> unread b' = unread b @ mem \<and>
    windex b' = windex b + length mem"
  using append_mem_ok [OF assms(1), of mem] assms by (auto simp: writeable_ok)

lemma initial_buffer:
  "buf_ok (new_buffer InitialBufferSize)" "length (data (new_buffer InitialBufferSize)) = 1024"
  "windex (new_buffer InitialBufferSize) = 0"
  by (simp_all add: InitialBufferSize_def) (simp add: new_buffer_def)

lemma peek_wire: "buf_ok b \<Longrightarrow> unread b = int32_wire n \<Longrightarrow> peek_int32 b = Inr (sint (word_of_int n :: 32 word))"
  using bufq.i32_field [of b "word_of_int n" "[]"] by (simp add: int32_wire_def)

lemma test_parse_protocol_passes: "passes test_parse_protocol"
proof -
  from appended [OF initial_buffer(1,2), of "''1''"] obtain b1 where
    1: "append_mem ''1'' (new_buffer InitialBufferSize) = Inr b1" "buf_ok b1" "length (data b1) = 1024" "unread b1 = ''1''"
    "windex b1 = 1" by (auto simp: initial_buffer(3))
  have p1: "protocol_parse SimpleProtocol (Some None) b1 = Inr (ParseProtocol_NoEnoughData, None, b1)"
    using 1(2,4) by (simp add: protocol_parse_defs readable_unread del: length_unread)
  define b2 where "b2 = retrieve 1 b1"
  have 2: "buf_ok b2" "unread b2 = []" "length (data b2) = 1024" "windex b2 = 1"
    using retrieve_ok [OF 1(2), of 1] 1(3-5) by (simp_all add: b2_def del: length_unread)
  from appended [OF 2(1,3), of "int32_wire (MAGIC_NUM - 1)"] 2 obtain b3 where
    3: "append_int32 (MAGIC_NUM - 1) b2 = Inr b3" "buf_ok b3" "length (data b3) = 1024" "unread b3 = int32_wire (MAGIC_NUM - 1)"
    "windex b3 = 5" by (auto simp: append_int32_def int32_wire_def)
  have p3: "protocol_parse SimpleProtocol (Some None) b3 = Inr (ParseProtocol_TryAnotherProtocol, None, b3)"
    using 3(2,4) peek_wire [OF 3(2,4)]
    by (simp add: protocol_parse_defs readable_unread MAGIC_NUM_def del: length_unread)
  define b4 where "b4 = retrieve 4 b3"
  have 4: "buf_ok b4" "unread b4 = []" "length (data b4) = 1024" "windex b4 = 5"
    using retrieve_ok [OF 3(2), of 4] 3(3-5) by (simp_all add: b4_def del: length_unread)
  from appended [OF 4(1,3), of "int32_wire MAGIC_NUM"] 4 obtain b5 where
    5: "append_int32 MAGIC_NUM b4 = Inr b5" "buf_ok b5" "unread b5 = int32_wire MAGIC_NUM"
    by (auto simp: append_int32_def int32_wire_def)
  have m: "peek_int32 b5 = Inr MAGIC_NUM" using peek_wire [OF 5(2,3)] by (simp add: MAGIC_NUM_def)
  have "unread (retrieve 4 b5) = []" "buf_ok (retrieve 4 b5)" "readable b5 = 4"
    using retrieve_ok [OF 5(2), of 4] 5(2,3) by (simp_all add: readable_unread del: length_unread)
  then have "simple_parse_request new_simple_ctx b5 =
      Inr (ParseProtocol_NoEnoughData, new_simple_ctx\<lparr>s_stage := 1\<rparr>, retrieve 4 b5)"
    using m by (simp add: simple_parse_request.simps simple_request_step_def new_simple_ctx_def readable_unread del: length_unread)
  then have "protocol_parse SimpleProtocol (Some None) b5 =
      Inr (ParseProtocol_NoEnoughData, Some (SimpleCtx (new_simple_ctx\<lparr>s_stage := 1\<rparr>)), retrieve 4 b5)"
    using m \<open>readable b5 = 4\<close> by (simp add: protocol_parse_defs)
  then show ?thesis
    using 1(1) p1 3(1) p3 5(1) by (simp add: test_parse_protocol_def del: One_nat_def protocol_parse.simps flip: b2_def b4_def)
qed

lemma test_parse_context_passes: "passes test_parse_context"
proof -
  have w: "uint32_wire 16 = int32_wire 16" "uint32_wire 10 = int32_wire 10" by (simp_all add: uint32_wire_def int32_wire_def)
  have l: "length ''EchoService'' + 1 + length ''echo'' = 16" "length ''helloworld'' = 10" by simp_all
  from appended [OF initial_buffer(1,2), of "int32_wire MAGIC_NUM"] obtain b1 where
    1: "append_int32 MAGIC_NUM (new_buffer InitialBufferSize) = Inr b1" "buf_ok b1" "length (data b1) = 1024"
    "unread b1 = int32_wire MAGIC_NUM" "windex b1 = 4" by (auto simp: initial_buffer(3) append_int32_def int32_wire_def)
  from appended [OF 1(2,3), of "int32_wire (conn_type_num ConnType_Short)"] 1 obtain b2 where
    2: "append_int32 (conn_type_num ConnType_Short) b1 = Inr b2" "buf_ok b2" "length (data b2) = 1024"
    "unread b2 = int32_wire MAGIC_NUM @ int32_wire (conn_type_num ConnType_Short)" "windex b2 = 8"
    by (auto simp: append_int32_def int32_wire_def)
  from appended [OF 2(2,3), of "int32_wire 16"] 2 obtain b3 where
    3: "append_int32 16 b2 = Inr b3" "buf_ok b3" "length (data b3) = 1024"
    "unread b3 = unread b2 @ int32_wire 16" "windex b3 = 12" by (auto simp: append_int32_def int32_wire_def)
  from appended [OF 3(2,3), of "''EchoService/echo''"] 3 obtain b4 where
    4: "append_mem ''EchoService/echo'' b3 = Inr b4" "buf_ok b4" "length (data b4) = 1024"
    "unread b4 = unread b3 @ ''EchoService/echo''" "windex b4 = 28" by auto
  from appended [OF 4(2,3), of "int32_wire 10"] 4 obtain b5 where
    5: "append_int32 10 b4 = Inr b5" "buf_ok b5" "length (data b5) = 1024"
    "unread b5 = unread b4 @ int32_wire 10" "windex b5 = 32" by (auto simp: append_int32_def int32_wire_def)
  from appended [OF 5(2,3), of "''helloworld''"] 5 obtain b6 where
    6: "append_mem ''helloworld'' b5 = Inr b6" "buf_ok b6" "unread b6 = unread b5 @ ''helloworld''" by auto
  have "unread b6 = simple_request_wire ConnType_Short ''EchoService'' ''echo'' ''helloworld'' @ []"
    unfolding 6(3) 5(4) 4(4) 3(4) 2(4) simple_request_wire_def l w by simp
  from simple_request_parse [OF 6(2) this, of new_simple_ctx] obtain c b where
    p: "simple_parse_request new_simple_ctx b6 = Inr (ParseProtocol_Success, c, b)" by (auto simp: new_simple_ctx_def)
  have front: "unread b6 = be_bytes (word_of_int MAGIC_NUM) @ drop 4 (unread b6)"
    unfolding 6(3) 5(4) 4(4) 3(4) 2(4) by (simp add: int32_wire_def)
  have "peek_int32 b6 = Inr MAGIC_NUM" using bufq.i32_field [OF 6(2) front] by (simp add: MAGIC_NUM_def)
  moreover have "4 \<le> readable b6"
    unfolding readable_unread [OF 6(2)] 6(3) by simp
  ultimately have "protocol_parse SimpleProtocol (Some None) b6 = Inr (ParseProtocol_Success, Some (SimpleCtx c), b)"
    using p by (simp add: protocol_parse_defs)
  then show ?thesis
    using 1(1) 2(1) 3(1) 4(1) 5(1) 6(1) by (simp add: test_parse_context_def del: protocol_parse.simps)
qed

section \<open>test\_http\_protocol.cpp\<close>

text \<open>The three cases of the first test differ in the input and the expectations.\<close>

definition parse_fresh :: "string \<Rightarrow> (parse_status \<times> any_ctx option \<times> buffer) result" where
  "parse_fresh input =
     and_then (append_mem input (new_buffer InitialBufferSize)) (protocol_parse HTTPProtocol (Some None))"

definition test_http_method :: "bool list result" where
  "test_http_method =
     and_then (parse_fresh ''GET HTTP/1.1 /hello/world'') (\<lambda>(st1, c1, b).
     and_then (parse_fresh ''OPTIONS HTTP/1.1 /hello/world'') (\<lambda>(st2, c2, b).
     and_then (parse_fresh ''FAKE HTTP/1.1 /hello/world'') (\<lambda>(st3, c3, b).
       Inr [st1 = ParseProtocol_NoEnoughData, c1 \<noteq> None, st2 = ParseProtocol_NoEnoughData, c2 \<noteq> None,
         st3 = ParseProtocol_TryAnotherProtocol, c3 = None])))"

definition keep_alive_head :: string where
  "keep_alive_head = ''Content-Length: 10'' @ [CR, LF] @ ''Connection: Keep-alive'' @ [CR, LF, CR, LF]"

definition test_http_parse_request :: "bool list result" where
  "test_http_parse_request =
     and_then (parse_fresh (''GET /hello/world HTTP/1.1'' @ [CR, LF] @ keep_alive_head @ ''helloworld'')) (\<lambda>(st, ctx, b).
       Inr [st = ParseProtocol_Success, ctx \<noteq> None, proto_owner (the ctx) = HTTPProtocol,
         conn_type (base_of (the ctx)) = ConnType_Single, service (base_of (the ctx)) = ''hello'',
         method_name (base_of (the ctx)) = ''world''])"

definition test_http_parse_response :: "bool list result" where
  "test_http_parse_response =
     and_then (append_mem (''HTTP/1.1 200 OK'' @ [CR, LF] @ keep_alive_head @ ''helloworld'') (new_buffer InitialBufferSize))
       (\<lambda>b.
     and_then (ctx_parse_response (new_context HTTPProtocol) b) (\<lambda>(st, ctx, b).
       Inr [st = ParseProtocol_Success, proto_owner ctx = HTTPProtocol]))"

lemma fresh_input:
  assumes "length s \<le> 1024"
  shows "\<exists>b. append_mem s (new_buffer InitialBufferSize) = Inr b \<and> buf_ok b \<and> unread b = s"
  using appended [OF initial_buffer(1,2), of s] assms by (auto simp: initial_buffer(3))

lemma no_line_waits:
  assumes "buf_ok b" and "unread b \<noteq> []" and "length (unread b) < 65536" and "index_of_crlf (unread b) = None"
  shows "http_parse_request new_http_ctx b = Inr (ParseProtocol_NoEnoughData, new_http_ctx, b)"
proof -
  have r: "readable b = length (unread b)" using assms(1) by (rule readable_unread)
  then have "find_crlf (min (readable b) MaxHeadlineSize) b = Inr (-1)"
    using find_crlf_all [OF assms(1) refl] assms(3,4) by (simp add: MaxHeadlineSize_def min_def del: length_unread)
  moreover have "min (readable b) MaxHeadlineSize \<noteq> 0" "min (readable b) MaxHeadlineSize \<noteq> MaxHeadlineSize"
    using r assms(2,3) by (auto simp: MaxHeadlineSize_def simp del: length_unread)
  ultimately have "parse_request_line new_http_ctx b = Inr (ParseProtocol_NoEnoughData, new_http_ctx, b)"
    by (simp add: parse_request_line_def Let_def)
  then show ?thesis
    by (subst http_parse_request.simps) (simp add: http_step_def http_advance_def new_http_ctx_def)
qed

lemma fresh_waits:
  assumes "7 \<le> length s" and "length s \<le> 1024" and "proto_claims HTTPProtocol s" and "index_of_crlf s = None"
  shows "\<exists>b. parse_fresh s = Inr (ParseProtocol_NoEnoughData, Some (HttpCtx new_http_ctx), b)"
proof -
  from fresh_input [OF assms(2)] obtain b where b: "append_mem s (new_buffer InitialBufferSize) = Inr b" "buf_ok b" "unread b = s"
    by blast
  from http_claims_match [OF b(2)] assms(1,3) b(3) obtain i where
    "match_method (drop (rindex b) (data b)) HTTPMethod_MIN = Inr (Some i)" by auto
  moreover have "s \<noteq> []" using assms(1) by auto
  then have "http_parse_request new_http_ctx b = Inr (ParseProtocol_NoEnoughData, new_http_ctx, b)"
    using no_line_waits [OF b(2)] assms(2,4) b(3) by (simp del: length_unread)
  ultimately show ?thesis
    using b assms(1) by (simp add: parse_fresh_def protocol_parse_defs readable_unread HTTPMethodMaxLen_def del: length_unread)
qed

lemma fresh_declined:
  assumes "7 \<le> length s" and "length s \<le> 1024" and "\<not> proto_claims HTTPProtocol s"
  shows "\<exists>b. parse_fresh s = Inr (ParseProtocol_TryAnotherProtocol, None, b)"
proof -
  from fresh_input [OF assms(2)] obtain b where b: "append_mem s (new_buffer InitialBufferSize) = Inr b" "buf_ok b" "unread b = s"
    by blast
  from http_claims_match [OF b(2)] assms(1,3) b(3) have
    "match_method (drop (rindex b) (data b)) HTTPMethod_MIN = Inr None" by auto
  then show ?thesis
    using b assms(1) by (simp add: parse_fresh_def protocol_parse_defs readable_unread HTTPMethodMaxLen_def del: length_unread)
qed

lemma test_http_method_passes: "passes test_http_method"
proof -
  have m: "set [HTTPMethod_MIN..<HTTPMethod_MAX] = {0, 1, 2, 3, 4, 5, 6, 7}"
    by (auto simp: HTTPMethod_MIN_def HTTPMethod_MAX_def)
  have c: "proto_claims HTTPProtocol ''GET HTTP/1.1 /hello/world''" "proto_claims HTTPProtocol ''OPTIONS HTTP/1.1 /hello/world''"
    "\<not> proto_claims HTTPProtocol ''FAKE HTTP/1.1 /hello/world''"
    unfolding proto_claims.simps m by (simp_all add: HTTPMethod_Name_def HTTPMethod_names_def)
  have n: "index_of_crlf ''GET HTTP/1.1 /hello/world'' = None" "index_of_crlf ''OPTIONS HTTP/1.1 /hello/world'' = None"
    by simp_all
  from fresh_waits [OF _ _ c(1) n(1)] fresh_waits [OF _ _ c(2) n(2)] fresh_declined [OF _ _ c(3)]
  show ?thesis by (auto simp: test_http_method_def)
qed

text \<open>The headers of the other tests: \<^verbatim>\<open>Keep-alive\<close> is not the value the code looks for.\<close>

lemma keep_alive_read:
  assumes ok: "buf_ok b" and u: "unread b = keep_alive_head @ ''helloworld''"
    and c: "h_stage c = 1" "headers c = Map.empty" "conn_type c = ConnType_Short"
  shows "\<exists>d b'. http_parse_request c b = Inr (ParseProtocol_Success, d, b') \<and>
    http_parse_response c b = Inr (ParseProtocol_Success, d, b') \<and> conn_type d = ConnType_Short \<and>
    service d = service c \<and> method_name d = method_name c"
proof -
  define c1 where "c1 = c\<lparr>body_size := 10, headers := [''Content-Length'' \<mapsto> ''10'']\<rparr>"
  define c2 where "c2 = c1\<lparr>headers := (headers c1)(''Connection'' \<mapsto> ''Keep-alive'')\<rparr>"
  have ten: "to_string 10 = ''10''" by (simp add: to_string.simps digit_char_def char_of_def bit_0)
  have "stoi ''10'' = Inr 10" using stoi_to_string [of 10] by (simp add: ten)
  then have s1: "store_header ''Content-Length'' ''10'' c = Inr c1"
    using c(2) by (simp add: store_header_def c1_def Let_def)
  have s2: "store_header ''Connection'' ''Keep-alive'' c1 = Inr c2"
    by (simp add: store_header_def c1_def c2_def Let_def)
  have u1: "unread b = ''Content-Length'' @ CHR '':'' # CHR '' '' # ''10'' @ CR # LF #
      (''Connection'' @ CHR '':'' # CHR '' '' # ''Keep-alive'' @ CR # LF # (CR # LF # ''helloworld''))"
    using u by (simp add: keep_alive_head_def)
  have p: "plain ''Content-Length''" "plain ''Connection''" "plain ''10''" "plain ''Keep-alive''" by (simp_all add: plain_def)
  have k: "''Content-Length'' \<noteq> []" "''Connection'' \<noteq> []" "CHR '':'' \<notin> set ''Content-Length''"
    "CHR '':'' \<notin> set ''Connection''" "length ''Content-Length'' + length ''10'' + 4 \<le> 65536"
    "length ''Connection'' + length ''Keep-alive'' + 4 \<le> 65536" by simp_all
  note l1 = parse_headers_line [OF ok u1 k(1,3) p(1,3) k(5) s1]
  note l2 = parse_headers_line [OF l1(2,3) k(2,4) p(2,4) k(6) s2]
  note l3 = parse_headers_end [OF l2(2,3)]
  obtain b1 where h: "parse_headers c b = Inr (ParseProtocol_PartSuccess, c2, b1)" "buf_ok b1" "unread b1 = ''helloworld''"
    using l1(1) l2(1) l3(2,3) parse_headers_end(1) [OF l2(2,3), of c2] by simp
  let ?d = "c2\<lparr>h_stage := 2\<rparr>" and ?e = "c2\<lparr>h_stage := 2, payload_view := view_at (rindex b1) 10, h_stage := 3\<rparr>"
  have stage: "h_stage c2 = 1" using c(1) by (simp add: c1_def c2_def)
  have 1: "http_step f c b = Inr (None, ?d, b1)" for f
    using c(1) h(1) stage by (simp add: http_step_def http_advance_def)
  have body: "unread b1 = ''helloworld'' @ []" "body_size ?d = int (length ''helloworld'')"
    "length ''helloworld'' + length ([] :: byte list) < 2 ^ 31" "length ''helloworld'' = 10"
    using h(3) by (simp_all add: c1_def c2_def)
  have "parse_body ?d b1 = Inr (ParseProtocol_PartSuccess, ?d\<lparr>payload_view := view_at (rindex b1) 10\<rparr>, b1)"
    by (rule parse_body_ok(1) [OF h(2) body(1-3), unfolded body(4)])
  then have 2: "http_step f ?d b1 = Inr (None, ?e, b1)" for f
    by (simp add: http_step_def http_advance_def)
  have "http_parse_request c b = Inr (ParseProtocol_Success, ?e, b1)"
    "http_parse_response c b = Inr (ParseProtocol_Success, ?e, b1)"
    by (simp_all add: http_request_loop [OF 1] http_request_loop [OF 2] http_response_loop [OF 1]
        http_response_loop [OF 2] http_done)
  then show ?thesis using c(3) by (simp add: c1_def c2_def)
qed

text \<open>The expectation on the connection type, and no other, fails.\<close>

lemma test_http_parse_request_fails:
  "test_http_parse_request = Inr [True, True, True, False, True, True]"
proof -
  let ?s = "''GET /hello/world HTTP/1.1'' @ [CR, LF] @ keep_alive_head @ ''helloworld''"
  have len: "7 \<le> length ?s" "length ?s \<le> 1024" by (simp_all add: keep_alive_head_def)
  from fresh_input [OF len(2)] obtain b where b: "append_mem ?s (new_buffer InitialBufferSize) = Inr b" "buf_ok b" "unread b = ?s"
    by blast
  have get: "HTTPMethod_Name 0 = ''GET''" "(0 :: nat) < HTTPMethod_MAX"
    by (simp_all add: HTTPMethod_Name_def HTTPMethod_names_def HTTPMethod_MAX_def)
  have u: "unread b = request_line_wire 0 ''hello'' ''world'' ''HTTP/1.1'' @ CR # LF # keep_alive_head @ ''helloworld''"
    using b(3) by (simp add: request_line_wire_def get(1))
  have l: "length (request_line_wire 0 ''hello'' ''world'' ''HTTP/1.1'') + 2 \<le> 65536"
    by (simp add: request_line_wire_def get(1))
  have p: "CHR ''/'' \<notin> set ''hello''" "plain ''hello''" "plain ''world''" "plain ''HTTP/1.1''" by (simp_all add: plain_def)
  from parse_request_line_ok [OF b(2) u get(2) l p, of new_http_ctx] obtain c1 b1 where
    r: "parse_request_line new_http_ctx b = Inr (ParseProtocol_PartSuccess, c1, b1)" "service c1 = ''hello''"
      "method_name c1 = ''world''" "conn_type c1 = ConnType_Short" "headers c1 = Map.empty" "buf_ok b1"
      "unread b1 = keep_alive_head @ ''helloworld''"
    by (auto simp: new_http_ctx_def)
  have "h_stage c1 = 0" using parse_request_line_stage [OF r(1)] by (simp add: new_http_ctx_def)
  with r(1) have "http_step parse_request_line new_http_ctx b = Inr (None, c1\<lparr>h_stage := 1\<rparr>, b1)"
    by (simp add: http_step_def http_advance_def new_http_ctx_def)
  note loop = http_request_loop [OF this]
  from keep_alive_read [OF r(6,7), of "c1\<lparr>h_stage := 1\<rparr>"] r(2-5) loop obtain d b2 where
    d: "http_parse_request new_http_ctx b = Inr (ParseProtocol_Success, d, b2)" "conn_type d = ConnType_Short"
      "service d = ''hello''" "method_name d = ''world''" by auto
  have "proto_claims HTTPProtocol (unread b)"
    unfolding b(3) proto_claims.simps using get by (intro bexI [of _ 0]) (simp_all add: HTTPMethod_MIN_def)
  with http_claims_match [OF b(2)] len(1) b(3) obtain i where
    "match_method (drop (rindex b) (data b)) HTTPMethod_MIN = Inr (Some i)" by auto
  moreover have "7 \<le> readable b" unfolding readable_unread [OF b(2)] b(3) by (rule len(1))
  ultimately have "parse_fresh ?s = Inr (ParseProtocol_Success, Some (HttpCtx d), b2)"
    using b(1) d(1) by (simp add: parse_fresh_def protocol_parse_defs HTTPMethodMaxLen_def)
  then show ?thesis using d(2-4) by (simp add: test_http_parse_request_def rpc_context.defs)
qed

lemma test_http_parse_response_passes: "passes test_http_parse_response"
proof -
  let ?s = "''HTTP/1.1 200 OK'' @ [CR, LF] @ keep_alive_head @ ''helloworld''"
  have len: "length ?s \<le> 1024" by (simp add: keep_alive_head_def)
  from fresh_input [OF len] obtain b where b: "append_mem ?s (new_buffer InitialBufferSize) = Inr b" "buf_ok b" "unread b = ?s"
    by blast
  have u: "unread b = ''HTTP/1.1 200 OK'' @ CR # LF # keep_alive_head @ ''helloworld''" using b(3) by simp
  have cr: "CR \<notin> set ''HTTP/1.1 200 OK''" "length ''HTTP/1.1 200 OK'' + 2 \<le> 65536" by simp_all
  note line = line_front [OF b(2) u cr]
  let ?c1 = "new_http_ctx\<lparr>request_line := view_at (rindex b) 15, h_stage := 1\<rparr>"
  have sz: "to_size 15 = 15" "to_size 17 = 17" by (simp_all add: to_size_def)
  with line(1,2) have "http_step parse_response_line new_http_ctx b = Inr (None, ?c1, retrieve 17 b)"
    by (simp add: http_step_def http_advance_def parse_response_line_def Let_def MaxHeadlineSize_def new_http_ctx_def)
  note loop = http_response_loop [OF this]
  have "length ''HTTP/1.1 200 OK'' + 2 = 17" by simp
  note rest = line(3,4) [unfolded this]
  from keep_alive_read [OF rest, of ?c1] loop obtain d b2 where
    "http_parse_response new_http_ctx b = Inr (ParseProtocol_Success, d, b2)" by (auto simp: new_http_ctx_def)
  then show ?thesis using b(1) by (simp add: test_http_parse_response_def lift_ctx_def)
qed

end
