(* ===== verification/Spec2Isabelle.thy ===== *)
theory Spec2Isabelle
  imports Reach_Sample Server_Rounds Parser_Limits Server_Pieces Buffer_Queue Long_Connections Wakeups
    Log_Records Base_Utils Echo_Samples Run_Samples Unit_Tests
begin

text \<open>
  A model of \<^verbatim>\<open>small_rpc\<close>, an RPC framework over TCP: a server whose event loops read requests of
  two protocols from non-blocking sockets, hand them to services and write the answers back, and
  a client that calls it, waiting or with a closure. The definitions follow the code function by
  function; names are those of the code, with the class as a prefix where two classes share one.

  \<^bold>\<open>The parts.\<close>
  \<^item> \<^theory_text>\<open>Prelude\<close>: results with faults as values (\<open>fault\<close>, \<open>and_then\<close>), the 32- and 64-bit arithmetic the
    code does on \<open>int\<close> and \<open>size_t\<close>, bytes in network order, \<^verbatim>\<open>std::stoi\<close>, \<^verbatim>\<open>std::to_string\<close>, errors of the
    kernel. \<^theory_text>\<open>Timestamps\<close> is \<open>base/timestamp.h\<close>.
  \<^item> \<^theory_text>\<open>Timers\<close> (\<open>net/timer_manager.h\<close>): the timer queue; the locale \<open>timer_queue\<close> is what the loop relies on,
    \<open>timer_client\<close> the loop that takes the due timers, and \<open>tmq\<close> interprets both on the code.
  \<^item> \<^theory_text>\<open>Buffers\<close> (\<open>net/buffer.h\<close>, \<open>net/buffer.cpp\<close>): the vector with its two positions, the extra data that is
    written after it, and views. Contract: \<open>unread\<close>, the bytes not yet taken, under the invariant
    \<open>buf_ok\<close>; locale \<open>byte_queue\<close>. \<^theory_text>\<open>Buffer_Queue\<close>: all operations together refine a queue of bytes.
  \<^item> \<^theory_text>\<open>Contexts\<close>, \<^theory_text>\<open>Simple\<close>, \<^theory_text>\<open>Http\<close>, \<^theory_text>\<open>Protocols\<close> (\<open>protocols/\<close>): the contexts of a call, the parsers and
    printers of the two protocols, the virtual calls as functions of \<open>any_ctx\<close> and \<open>protocol\<close>, and the
    loop of the server that finds the protocol (\<open>dispatch\<close>; locale \<open>protocol_family\<close>). \<^theory_text>\<open>Http_Safety\<close> shows
    that the HTTP parsers stay inside the buffer, \<^theory_text>\<open>Http_Roundtrip\<close> that they read what the printers
    write, \<^theory_text>\<open>Http_Resume\<close> that the outcome does not depend on the pieces in which a message arrives, \<^theory_text>\<open>Parser_Limits\<close> what they do at the edges.
  \<^item> \<^theory_text>\<open>Event_Loops\<close> (\<open>net/eventloop.h\<close>, \<open>net/eventloop.cpp\<close>, \<open>net/channel.h\<close>): the state of a loop, the interest
    list of its \<^verbatim>\<open>epoll\<close>, one round of \<^verbatim>\<open>loop\<close> and the loop itself. \<^theory_text>\<open>Wakeups\<close> is the same loop in steps
    of single accesses to shared state, interleaved with \<^verbatim>\<open>add_func\<close> and \<^verbatim>\<open>stop\<close> of other threads.
  \<^item> \<^theory_text>\<open>Connections\<close> (\<open>net/tcpconnection.*\<close>), \<^theory_text>\<open>Servers\<close> (\<open>net/tcpserver.*\<close>): a connection and its handler,
    and the pool of loops and threads.
  \<^item> \<^theory_text>\<open>Pb_Server\<close> (\<open>net/pb_server.*\<close>, \<open>net/acceptor.*\<close>): a \<open>world\<close> holds the server, its loops, the heap of
    connections and the open descriptors; the callbacks act on it. A connection that is deleted
    leaves the heap, and each later access to it is the fault \<open>UseAfterFree\<close>.
    \<^theory_text>\<open>Lifetime\<close>, \<^theory_text>\<open>Server_Safety\<close>: the invariant \<open>world_inv\<close>, which every callback keeps.
    \<^theory_text>\<open>Server_Steps\<close>: the interleaving of the loops, handler by handler (\<open>server_step\<close>), construction and
    start, and the invariant of all reachable states; \<^theory_text>\<open>Server_Rounds\<close>: the same for whole rounds.
    \<^theory_text>\<open>Server_Calls\<close>, \<^theory_text>\<open>Server_IO\<close>: what becomes of a request, from its bytes to the bytes of the answer; \<^theory_text>\<open>Long_Connections\<close>: call after call on
    a connection that is kept.
  \<^item> \<^theory_text>\<open>Pb_Client\<close> (\<open>net/pb_client.*\<close>); \<^theory_text>\<open>Client_Calls\<close> for the calls that wait, \<^theory_text>\<open>Client_Async\<close> for those with
    a closure in a loop; \<^theory_text>\<open>Client_Loop\<close> runs the events and queued functions of that loop, and shows what
    becomes of a call made while the connection callback is half done. \<^theory_text>\<open>Controllers\<close>: \<open>net/pb_controller.h\<close>.
  \<^item> \<^theory_text>\<open>Shutdown\<close>: no handler touches the threads of the server, so \<^verbatim>\<open>stop\<close> works from every reachable state.
  \<^item> \<^theory_text>\<open>Time_Limits\<close>: with a limit on reading, every connection has a running limit, and a round of a loop
    closes those whose limit is over. \<^theory_text>\<open>Isolation\<close>: a step touches one connection, and no descriptor leaks
    while the server runs. Both are relations between the world before and after, kept by every operation.
  \<^item> \<^theory_text>\<open>Lifecycles\<close>: constructors and destructors of \<^verbatim>\<open>WakeUper\<close>, \<^verbatim>\<open>EventLoop\<close>, \<^verbatim>\<open>Acceptor\<close>, \<^verbatim>\<open>PbServer\<close> and
    \<^verbatim>\<open>PbClient\<close>, with the descriptors they open and close; what a server leaves behind.
  \<^item> \<^theory_text>\<open>Accept_Race\<close>: \<^verbatim>\<open>PbServer::new_connection_callback\<close> cut into pieces, and what happens when the chosen
    loop handles an event of the connection in between.
  \<^item> \<^theory_text>\<open>Echo_Programs\<close> (\<open>examples/echo/\<close>): the service, the server program and the three clients;
    \<^theory_text>\<open>Echo_Runs\<close>: the programs together, from \<^verbatim>\<open>start\<close> and \<^verbatim>\<open>connect\<close> to the last response and \<^verbatim>\<open>stop\<close>.
  \<^item> \<^theory_text>\<open>Context_Types\<close>: the context of a connection always belongs to the protocol at its index, so each
    cast of the code is to the class the object has; \<^theory_text>\<open>Printing\<close> is the output of the objects.
    \<^theory_text>\<open>Server_Pieces\<close>: a request that arrives in several events.
  \<^item> \<^theory_text>\<open>Logging\<close> (\<open>base/logging.h\<close>): severities, and the appender that rolls its file over.
    \<^theory_text>\<open>Log_Records\<close>: the text of a record, and the \<^verbatim>\<open>LOG_*\<close> macros as statements on logger, appenders and files.
    \<^theory_text>\<open>Base_Utils\<close>: \<open>base/done_guard.h\<close>, \<open>base/status_manager.*\<close>, \<open>net/socket.*\<close>.
  \<^item> \<^theory_text>\<open>Samples\<close>, \<^theory_text>\<open>Reach_Sample\<close>, \<^theory_text>\<open>Run_Samples\<close>, \<^theory_text>\<open>Echo_Samples\<close>: the concrete objects of the instances.
    \<^theory_text>\<open>Unit_Tests\<close>: the unit tests of \<open>tests/\<close> run on the model. All expectations hold but two: the one that
    spells \<^verbatim>\<open>Keep-Alive\<close> differently, and one that holds only if no millisecond goes by.

  \<^bold>\<open>How they interact.\<close> The kernel appears as inputs: what \<^verbatim>\<open>epoll_wait\<close>, \<^verbatim>\<open>accept\<close>, \<^verbatim>\<open>readv\<close> and \<^verbatim>\<open>write\<close>
  answer, and the clock; what is written is recorded per descriptor (\<open>sent\<close>). The application,
  generated code and the protobuf library are the parameter \<open>app\<close>: for a service, a method and the
  bytes of a request, it rejects them, answers, or keeps \<^verbatim>\<open>done\<close> for later. The hypothesis
  \<open>sync_app\<close> says that it never does the last; \<open>done_after_close\<close> shows why it is needed.

  \<^bold>\<open>Bounds.\<close> The parsers, \<open>take_due\<close> and \<open>stop_subs\<close> are total, by measures. The loops that wait for
  the kernel (\<open>loop\<close>, \<open>sync_write\<close>, \<open>sync_read\<close>) recurse over the list of the answers it gives; the
  synchronous ones return \<open>None\<close> when the answers run out, and \<open>rpc_end_to_end\<close> shows that they return
  before that on a normal call. Vectors are bounded by \<open>max_object\<close>, messages by \<open>message_fits\<close> (lengths
  that the 32-bit fields hold) and buffers by \<open>pack_room\<close> (the head of a message fits the vector after
  one doubling); beyond these bounds \<open>append_mem_overflow\<close> shows what happens.

  \<^bold>\<open>Not modelled.\<close> The tests without expectations on a result (logging, sockets, event loop), and of the
  example programs the command line, the lines they log, and sleeping. What \<^verbatim>\<open>protoc\<close> generates for
  their messages is the parameter \<open>echo_codec\<close>; \<open>codec_ok\<close> says that parsing undoes serialising, and
  \<^theory_text>\<open>Echo_Samples\<close> has an instance. Memory is modelled where its lifetime matters, for connections; leaks
  of other objects have no counterpart. A handler of one loop is a single step with respect to other loops in
  \<open>server_step\<close>, and what is proved of reachable states is meant at that granularity; finer steps are in
  \<^theory_text>\<open>Wakeups\<close> for the queue of functions and in \<^theory_text>\<open>Accept_Race\<close> for a new connection, where they do harm. Memory that
  is freed is never given out again in the middle of a handler, but a new connection may have the
  address of an old one.
\<close>

section \<open>The server as a whole\<close>



text \<open>C2. A synchronous call, from the client's arguments to its result: the bytes the client sends are
  a request that the server, when they arrive on a waiting connection, hands to the service;
  the bytes the server sends back are a response from which the client returns exactly what
  the service answered. The connection is then closed, or waits for the next request.\<close>

theorem rpc_end_to_end:
  assumes server: "own e p c w" "awaiting c" "unread (rbuf c) = []" "can_call w c j pr svc mth pl"
      "length (request_wire pr ct svc mth pl) \<le> writeable (rbuf c)"
    and service: "find_service_method svc mth w = Some (s, m)" "app s m pl = Replies (Some out)"
      "length out < 2 ^ 31"
    and client: "client_protocol (client cw) = Some pr" "el (client cw) = None" "idle_client cw"
      "pack_room (clear (wbuf (client cw))) svc mth" "buf_ok (rbuf (client cw))"
      "length (response_wire pr (seen_type pr ConnType_Short ct) RpcStatus_OK out) \<le> length (data (rbuf (client cw)))"
    and sockets: "length (request_wire pr ct svc mth pl) \<le> k"
      "length (response_wire pr (seen_type pr ConnType_Short ct) RpcStatus_OK out) \<le> k"
  shows "\<exists>req resp i w1 w2 w3 cw'.
    conn_handle_events app now p EPOLLIN (Pending req) wa1 wa2 w = Inr w1 \<and>
    UpdateChannel i p \<in> set (funcs (loops w1 i)) \<and> exec_task (UpdateChannel i p) w1 = Inr w2 \<and>
    conn_handle_events app later p EPOLLOUT ra (Room k) (Room k) w2 = Inr w3 \<and>
    sent w3 (fd c) = sent w (fd c) @ resp \<and>
    call_over (seen_type pr ConnType_Short ct) e p (fd c) j (length (data (rbuf c))) w3 \<and>
    call_method ct svc mth pl None ((Room k, Room k) # ws) (Pending resp # rs) cw = Inr (Some (Some out, cw')) \<and>
    client_sent cw' = client_sent cw @ req"
proof -
  have "message_fits svc mth pl" using server(4) by (simp add: can_call_def)
  from sync_call_ok [OF client(1-4) this sockets(1,1) client(5,6) service(3), of ws rs]
    served_over_sockets [where app = app, OF server service sockets(2,2), of now wa1 wa2 later ra]
  show ?thesis by blast
qed

theorem rpc_end_to_end_witness:
  "\<exists>resp cw'. call_method ConnType_Single ''Echo'' ''echo'' ''hi'' None [(Room 1000, Room 1000)] [Pending resp]
     (sample_client None) = Inr (Some (Some ''hi'', cw'))"
proof -
  let ?c = "sample_conn (filled []) (filled [])"
  have "own (Some 0) 1 ?c (sample_world ?c)" by (rule sample_own) simp_all
  moreover have "awaiting ?c" by (simp add: sample_awaiting)
  moreover have "can_call (sample_world ?c) ?c 0 SimpleProtocol ''Echo'' ''echo'' ''hi''"
    by (simp add: can_call_def message_fits_def)
  moreover have "idle_client (sample_client None)" by (rule sample_client_idle)
  ultimately show ?thesis
    using rpc_end_to_end [of "Some 0" 1 ?c "sample_world ?c" 0 SimpleProtocol "''Echo''" "''echo''" "''hi''"
        ConnType_Single 5 6 echo_app "''hi''" "sample_client None" 1000 "TimeStamp 0 0" "Room 0" "Room 0"
        "TimeStamp 0 0" "Pending []" "[]" "[]"]
    by (auto simp: simple_request_wire_def simple_response_wire_def echo_app_def)
qed





text \<open>C6. A response that the server packs is read back by the client: status and payload, and for the
  simple protocol the connection type; the HTTP header says kept or closed.\<close>

theorem response_round_trip:
  assumes room: "pack_room b [] []" and x: "rpc_status (base_of x) = Some st" "length (payload (base_of x)) < 2 ^ 31"
    and e: "buf_ok e" and c: "unparsed c" "proto_owner c = proto_owner x"
  shows "\<exists>b'. ctx_pack_response x b = Inr (True, b') \<and>
    (unread e = unread b' @ extra_left b' \<longrightarrow>
      (\<exists>c' e'. ctx_parse_response c e = Inr (ParseProtocol_Success, c', e') \<and>
        conn_type (base_of c') = seen_type (proto_owner x) (conn_type (base_of c)) (conn_type (base_of x)) \<and>
        view_str e' (payload_view (base_of c')) = Inr (payload (base_of x))))"
proof -
  from ctx_pack_response_ok [OF room x(2,1)] obtain b' where b: "ctx_pack_response x b = Inr (True, b')"
    "unread b' @ extra_left b' = response_wire (proto_owner x) (conn_type (base_of x)) st (payload (base_of x))"
    by blast
  have "\<exists>c' e'. ctx_parse_response c e = Inr (ParseProtocol_Success, c', e') \<and>
        conn_type (base_of c') = seen_type (proto_owner x) (conn_type (base_of c)) (conn_type (base_of x)) \<and>
        view_str e' (payload_view (base_of c')) = Inr (payload (base_of x))"
    if "unread e = unread b' @ extra_left b'"
    using response_parsed [OF e _ x(2) c(1), of "conn_type (base_of x)" st] that b(2) c(2) by auto
  with b(1) show ?thesis by blast
qed

theorem response_round_trip_witness:
  "\<exists>b' c' e'. ctx_pack_response (HttpCtx (new_http_ctx\<lparr>rpc_status := Some RpcStatus_OK, payload := ''hi''\<rparr>))
      (filled []) = Inr (True, b') \<and>
    ctx_parse_response (new_context HTTPProtocol) (filled (unread b' @ extra_left b')) =
      Inr (ParseProtocol_Success, c', e') \<and> view_str e' (payload_view (base_of c')) = Inr ''hi''"
proof -
  let ?x = "HttpCtx (new_http_ctx\<lparr>rpc_status := Some RpcStatus_OK, payload := ''hi''\<rparr>)"
  let ?wire = "response_wire HTTPProtocol ConnType_Short RpcStatus_OK ''hi''"
  have x: "rpc_status (base_of ?x) = Some RpcStatus_OK" "payload (base_of ?x) = ''hi''"
    "conn_type (base_of ?x) = ConnType_Short" by (simp_all add: new_http_ctx_def rpc_context.defs)
  then obtain b where b: "ctx_pack_response ?x (filled []) = Inr (True, b)" "unread b @ extra_left b = ?wire"
    using ctx_pack_response_ok [of "filled []" ?x RpcStatus_OK] by auto
  have "length ?wire < 2 ^ 20" using length_to_string [of "Suc (Suc 0)" 1]
    by (simp add: http_response_wire_def http_head_wire_def connection_value_def)
  then have "buf_ok (filled ?wire)" by simp
  moreover have "proto_owner (new_context HTTPProtocol) = HTTPProtocol" by simp
  ultimately show ?thesis
    using response_round_trip [of "filled []" ?x RpcStatus_OK "filled ?wire" "new_context HTTPProtocol"] x b
    by (auto simp del: ctx_parse_response.simps ctx_pack_response.simps new_context.simps)
qed

section \<open>Time limits and closing\<close>

text \<open>C26. The function of a time limit closes the connection when it is about the connection that is
  now at that address, in that loop, and no limit was started since; otherwise nothing happens.\<close>

theorem timeout_decides:
  assumes w: "world_inv w"
  shows "\<exists>w'. timeout_callback i p t tid r w = Inr w' \<and> world_inv w' \<and>
    (if \<exists>c. conns w p = Some c \<and> el c = Some i \<and> conn_ts c = t \<and> timer_id c = tid
     then conns w' = (conns w)(p := None) \<and> (\<forall>c. conns w p = Some c \<longrightarrow> fd c \<notin> open_fds w') else w' = w)"
proof (cases "\<exists>c. conns w p = Some c \<and> el c = Some i \<and> conn_ts c = t \<and> timer_id c = tid")
  case True
  then obtain c where c: "conns w p = Some c" "el c = Some i" "conn_ts c = t" "timer_id c = tid" by blast
  from timeout_fires [OF w c(1,2), of r] c True show ?thesis by auto
next
  case False
  have reg: "world_reg w" using w by (simp add: world_inv_def)
  have "timeout_callback i p t tid r w = Inr w"
  proof (cases "channels (loops w i) p = Some t")
    case True
    from world_reg_channel [OF reg this] False show ?thesis
      by (intro timeout_stale [OF w]) blast
  qed (simp add: timeout_callback_def)
  then show ?thesis using w by (simp only: if_not_P [OF False]) blast
qed

theorem timeout_decides_witness:
  "(\<exists>w'. timeout_callback 0 1 (TimeStamp 0 0) 0 True (sample_world (sample_conn (filled []) (filled []))) =
      Inr w' \<and> conns w' = Map.empty) \<and>
   timeout_callback 0 1 (TimeStamp 0 0) 5 True (sample_world (sample_conn (filled []) (filled []))) =
      Inr (sample_world (sample_conn (filled []) (filled [])))"
proof -
  let ?w = "sample_world (sample_conn (filled []) (filled []))"
  have "world_inv ?w" by (rule sample_world_inv) simp_all
  from timeout_decides [OF this, of 0 1 "TimeStamp 0 0" 0 True]
    timeout_decides [OF this, of 0 1 "TimeStamp 0 0" 5 True]
  show ?thesis by auto
qed

text \<open>The number of a time limit is not used again for the same connection before \<open>2 ^ 32\<close> limits
  have been started on it: until then a limit that was replaced has no effect.\<close>

lemma timer_numbers_differ:
  assumes r: "- (2 ^ 31) \<le> timer_id c" "timer_id c < 2 ^ 31"
  shows "timer_id ((bump_timer ^^ k) c) = timer_id c \<longleftrightarrow> 2 ^ 32 dvd k"
proof -
  have "timer_id ((bump_timer ^^ k) c) = to_int32 (timer_id c + int k)"
  proof (induction k)
    case 0
    show ?case using to_int32_small r by simp
  next
    case (Suc k)
    then show ?case by (simp add: bump_timer_def to_int32_def mod_simps ac_simps)
  qed
  moreover have "to_int32 (timer_id c + int k) = timer_id c \<longleftrightarrow>
      (timer_id c + int k + 2 ^ 31) mod 2 ^ 32 = (timer_id c + 2 ^ 31) mod 2 ^ 32"
    using r by (auto simp: to_int32_def)
  moreover have "\<dots> \<longleftrightarrow> 2 ^ 32 dvd int k" by (simp add: mod_eq_dvd_iff)
  moreover have "\<dots> \<longleftrightarrow> 2 ^ 32 dvd k" by (metis int_dvd_int_iff of_nat_numeral of_nat_power)
  ultimately show ?thesis by simp
qed

text \<open>Closing a connection takes it out of its loop and of the kernel's interest list and frees it,
  but \<^verbatim>\<open>::close\<close> is called on its descriptor twice: by the callback and by the destructor.\<close>

lemma close_closes_twice:
  assumes w: "world_inv w" and c: "conns w p = Some c" "el c = Some i"
  shows "\<exists>w'. close_callback p w = Inr w' \<and> world_inv w' \<and> conns w' = (conns w)(p := None) \<and>
    channels (loops w' i) p = None \<and> interests (loops w' i) (fd c) = None \<and> fd c \<notin> open_fds w' \<and>
    close_calls w' = close_calls w @ [fd c, fd c]"
proof -
  have reg: "world_reg w" using w by (simp add: world_inv_def)
  from close_callback_ok [OF reg c(1)] obtain w' where w': "close_callback p w = Inr w'" "world_reg w'"
    "conns w' = (conns w)(p := None)" "close_calls w' = close_calls w @ [fd c, fd c]" "fd c \<notin> open_fds w'"
    by blast
  have "channels (loops w' i) p = None"
    using world_reg_channel [OF w'(2), of i p] w'(3) by (cases "channels (loops w' i) p") auto
  moreover have "interests (loops w' i) (fd c) = None"
    using w'(2,5) by (simp add: world_reg_def)
  ultimately show ?thesis using w' w by (simp add: world_inv_def)
qed

text \<open>C27. When the socket takes the head of a response and only \<open>j\<close> bytes of its payload, the response
  counts as sent: the rest is dropped, and the connection is closed or waits for the next
  request.\<close>

theorem response_truncated:
  assumes o: "own e p d w" and x: "ctx d = Some x" "conn_type (base_of x) = t"
    and b: "buf_ok (rbuf d)" "buf_ok (wbuf d)" "pack_room (clear (wbuf d)) [] []"
    and k: "readable (wbuf d) \<le> k" and j: "j < length (extra_left (wbuf d))"
  shows "\<exists>w' rest. conn_handle_events app now p EPOLLOUT ra (Room k) (Room j) w = Inr w' \<and> rest \<noteq> [] \<and>
    sent w' (fd d) @ rest = sent w (fd d) @ unread (wbuf d) @ extra_left (wbuf d) \<and>
    call_over t e p (fd d) (proto_idx d) (length (data (rbuf d))) w'"
proof -
  from response_sent [where app = app, OF o x b k, of now ra j] obtain w' where w':
    "conn_handle_events app now p EPOLLOUT ra (Room k) (Room j) w = Inr w'"
    "sent w' = (sent w)(fd d := sent w (fd d) @ unread (wbuf d) @ take j (extra_left (wbuf d)))"
    "call_over t e p (fd d) (proto_idx d) (length (data (rbuf d))) w'" by blast
  then show ?thesis using j by (intro exI [of _ w'] exI [of _ "drop j (extra_left (wbuf d))"]) simp
qed

theorem response_truncated_witness:
  "\<exists>w' rest. conn_handle_events echo_app (TimeStamp 0 0) 1 EPOLLOUT (Pending []) (Room 100) (Room 1)
      (sample_world (answered_conn ''head'' ''payload'')) = Inr w' \<and>
    rest \<noteq> [] \<and> sent w' 7 @ rest = ''headpayload'' \<and> conns w' 1 = None"
proof -
  let ?d = "answered_conn ''head'' ''payload''"
  have "own (Some 0) 1 ?d (sample_world ?d)" by (rule sample_own) simp_all
  moreover have "pack_room (clear (wbuf ?d)) [] []" by (simp add: filled_extra_room)
  moreover have "buf_ok (wbuf ?d)" by simp
  ultimately show ?thesis
    using response_truncated [of "Some 0" 1 ?d "sample_world ?d" "HttpCtx new_http_ctx" ConnType_Short 100 1
        echo_app "TimeStamp 0 0" "Pending []"]
    by (fastforce simp: call_over_def new_http_ctx_def rpc_context.defs)
qed

section \<open>Parsers, timers, pools, registries\<close>

text \<open>C23. The HTTP parsers end on every byte string, in every state of the context, without reading
  outside the buffer: they consume bytes of it and leave the rest as it was, or throw what
  \<^verbatim>\<open>std::stoi\<close> throws.\<close>

theorem http_parsers_safe:
  assumes "buf_ok b"
  shows "safe_result b (http_parse_request c b) \<and> safe_result b (http_parse_response c b)"
  using http_parse_request_safe [OF assms] http_parse_response_safe [OF assms] by blast

theorem http_parsers_safe_witness:
  "safe_result (filled ''POST / HTTP/9'') (http_parse_request new_http_ctx (filled ''POST / HTTP/9'')) \<and>
   safe_result (filled ''HTTP'') (http_parse_response new_http_ctx (filled ''HTTP''))"
  using http_parsers_safe [of "filled ''POST / HTTP/9''" new_http_ctx]
    http_parsers_safe [of "filled ''HTTP''" new_http_ctx] by simp

text \<open>C24. Of the timers a loop was given, \<^verbatim>\<open>loop\<close> runs exactly those whose time has passed, earliest
  first, and keeps the others.\<close>

theorem timers_fire_in_order:
  "\<exists>due m. due_timers now (foldl (\<lambda>l (t, ms, f). run_after t ms f l) l xs) =
      Inr (map snd due, (foldl (\<lambda>l (t, ms, f). run_after t ms f l) l xs)\<lparr>timers := m\<rparr>) \<and>
    sorted (map fst due) \<and>
    mset due = {# t \<in># timers_of (timers l) + mset (map (\<lambda>(t, ms, f). (after_now_ms t ms, f)) xs). fst t < now #} \<and>
    timers_of m = {# t \<in># timers_of (timers l) + mset (map (\<lambda>(t, ms, f). (after_now_ms t ms, f)) xs). now \<le> fst t #}"
proof -
  have "timers_of (timers (foldl (\<lambda>l (t, ms, f). run_after t ms f l) l xs)) =
    timers_of (timers l) + mset (map (\<lambda>(t, ms, f). (after_now_ms t ms, f)) xs)"
    by (induction xs arbitrary: l) (auto simp: timers_of_def add_timer_def)
  with due_timers_ok [of now "foldl (\<lambda>l (t, ms, f). run_after t ms f l) l xs"] show ?thesis
    unfolding not_less by metis
qed

text \<open>C31. Whatever number of threads is asked for, the server starts with that number cut down to 0 to
  144, and stopping it stops every loop once, the sub reactors in order and then its own, and
  leaves no thread to be joined.\<close>

theorem server_lifecycle:
  "\<exists>s1 s2. start_server (set_thread_num n new_tcp_server) = Inr s1 \<and> pool_ok s1 \<and>
    thread_num s1 = max 0 (min 144 n) \<and>
    stop_server s1 = Inr (map Suc [0..<nat (max 0 (min 144 n))] @ [0], s2) \<and>
    True \<notin> set (sub_threads s2) \<and> \<not> main_joinable s2 \<and> sub_els s2 = None"
proof -
  define m where "m = max 0 (min 144 n)"
  have m: "0 \<le> m" "m \<le> 144" by (simp_all add: m_def)
  have same: "set_thread_num n new_tcp_server = set_thread_num m new_tcp_server"
    by (simp add: m_def set_thread_num_def MaxThreadNum_def new_tcp_server_def max_def min_def Let_def)
  from start_stop [OF m refl] obtain s1 s2 where s:
    "start_server (set_thread_num m new_tcp_server) = Inr s1" "pool_ok s1"
    "stop_server s1 = Inr (map Suc [0..<nat m] @ [0], s2)" "sub_els s2 = None"
    "\<forall>j \<in> set (sub_threads s2). \<not> j" "\<not> main_joinable s2" "thread_num s2 = m" by blast
  have "thread_num s1 = thread_num s2"
    using s(3) by (auto simp: stop_server_def and_then_Inr_iff split: option.splits)
  with s have "start_server (set_thread_num m new_tcp_server) = Inr s1 \<and> pool_ok s1 \<and> thread_num s1 = m \<and>
    stop_server s1 = Inr (map Suc [0..<nat m] @ [0], s2) \<and> True \<notin> set (sub_threads s2) \<and>
    \<not> main_joinable s2 \<and> sub_els s2 = None" by auto
  then show ?thesis unfolding same m_def by blast
qed

text \<open>C33. Registering protocols keeps the list and the map by name in agreement, without duplicates:
  each protocol is tried once, in the order of its first registration.\<close>

theorem protocols_registered:
  assumes "registry_ok s"
  shows "registry_ok (foldl (\<lambda>s p. snd (add_protocol p s)) s ps) \<and>
    set (protocols (foldl (\<lambda>s p. snd (add_protocol p s)) s ps)) = set (protocols s) \<union> set ps \<and>
    take (length (protocols s)) (protocols (foldl (\<lambda>s p. snd (add_protocol p s)) s ps)) = protocols s"
  using assms
proof (induction ps arbitrary: s)
  case (Cons p ps)
  from add_protocol_ok [OF Cons.prems, of p] obtain s' where s': "snd (add_protocol p s) = s'" "registry_ok s'"
    "protocols s' = (if p \<in> set (protocols s) then protocols s else protocols s @ [p])" by auto
  define t where "t = foldl (\<lambda>s p. snd (add_protocol p s)) s' ps"
  from Cons.IH [OF s'(2)] have t: "registry_ok t" "set (protocols t) = set (protocols s') \<union> set ps"
    "take (length (protocols s')) (protocols t) = protocols s'" by (simp_all add: t_def)
  have "take (length (protocols s)) (protocols t) = protocols s"
    using arg_cong [OF t(3), of "take (length (protocols s))"] s'(3) by (auto simp: min_def split: if_splits)
  with t s'(1,3) show ?case by (auto simp: t_def split: if_splits)
qed simp

theorem protocols_registered_witness:
  "set (protocols (foldl (\<lambda>s p. snd (add_protocol p s)) (sample_world (sample_conn (filled []) (filled [])))
     [HTTPProtocol, HTTPProtocol])) = {SimpleProtocol, HTTPProtocol}"
proof -
  have "registry_ok (sample_world (sample_conn (filled []) (filled [])))"
    by (auto simp: registry_ok_def sample_world_def split: if_splits)
  from protocols_registered [OF this, of "[HTTPProtocol, HTTPProtocol]"] show ?thesis by (simp add: insert_commute)
qed

section \<open>Instances of the properties of the components\<close>

theorem async_call_served_witness:
  "\<exists>w1 w2 w3 w4. call_method ConnType_Single ''Echo'' ''echo'' ''hi'' (Some 9) [] [] (sample_client (Some 0)) =
      Inr (Some (None, w1)) \<and> client_update w1 = Inr w2 \<and>
    client_handle_events EPOLLOUT (Pending []) (Room 100) (Room 100) None w2 = Inr w3 \<and>
    client_handle_events EPOLLIN (Pending (response_wire SimpleProtocol ConnType_Single RpcStatus_OK ''hi''))
      (Room 0) (Room 0) None w3 = Inr w4 \<and> done_runs w4 = [(9, ''hi'')]"
proof -
  have "in_loop (sample_client (Some 0))" by (rule sample_client_in_loop)
  from async_call_served [OF _ this, of SimpleProtocol "''Echo''" "''echo''" "''hi''" ConnType_Single 100 100
      ConnType_Single RpcStatus_OK "''hi''" 9 "[]" "[]" "Pending []" None "Room 0" "Room 0"]
  show ?thesis by (fastforce simp: simple_request_wire_def simple_response_wire_def message_fits_def)
qed

theorem call_hangs_witness:
  "\<forall>n. call_method ConnType_Single ''Echo'' ''echo'' ''hi'' None [(Room 100, Room 100)]
     (replicate n (Pending [])) (sample_client None) = Inr None"
  using call_hangs [of "sample_client None" SimpleProtocol "''Echo''" "''echo''" "''hi''"
      ConnType_Single 100 100 "[]" _ "[]"] sample_client_idle
  by (simp add: simple_request_wire_def message_fits_def filled_data)

theorem call_refused_witness:
  "\<exists>w'. data_read_callback echo_app (TimeStamp 0 0) 1 (sample_world (sample_conn
      (filled (request_wire SimpleProtocol ConnType_Single ''Echo'' ''none'' ''hi'')) (filled []))) = Inr w' \<and>
    conns w' = Map.empty \<and> 7 \<notin> open_fds w'"
proof -
  let ?b = "filled (request_wire SimpleProtocol ConnType_Single ''Echo'' ''none'' ''hi'')"
  let ?c = "sample_conn ?b (filled [])"
  have small: "length (request_wire SimpleProtocol ConnType_Single ''Echo'' ''none'' ''hi'') < 2 ^ 20"
    by (simp add: simple_request_wire_def)
  have o: "own (Some 0) 1 ?c (sample_world ?c)" by (rule sample_own) simp_all
  have r: "request_arrived (sample_world ?c) ?c 0 SimpleProtocol ConnType_Single ''Echo'' ''none'' ''hi''"
    by (simp add: request_arrived_def message_fits_def del: request_wire.simps)
  show ?thesis
    using call_refused [OF o sample_awaiting [OF small] r] by auto
qed

theorem done_after_close_witness:
  "\<exists>w'. conn_handle_events echo_app (TimeStamp 0 0) 1 EPOLLIN (Pending []) (Room 0) (Room 0)
      (sample_world (sample_conn (filled []) (filled []))) = Inr w' \<and> conns w' 1 = None \<and>
    run_deferred (TimeStamp 1 0) 1 (Some ''hi'') w' = Inl UseAfterFree"
proof -
  have "world_inv (sample_world (sample_conn (filled []) (filled [])))" by (rule sample_world_inv) simp_all
  from done_after_close [OF this, of 1 "sample_conn (filled []) (filled [])" echo_app "TimeStamp 0 0" "Room 0"
      "Room 0" "TimeStamp 1 0" "''hi''"] show ?thesis by auto
qed

theorem negative_length_accepted_witness:
  "\<exists>c'. http_parse_request (new_http_ctx\<lparr>h_stage := 2, body_size := -1\<rparr>) (filled ''body'') =
      Inr (ParseProtocol_Success, c', filled ''body'') \<and>
    view_str (filled ''body'') (payload_view c') = Inl LengthError"
  using negative_length_accepted [of "filled ''body''" "new_http_ctx\<lparr>h_stage := 2, body_size := -1\<rparr>"] by simp


theorem simple_payload_accepted_early_witness:
  "\<exists>c' b'. simple_parse_request (new_simple_ctx\<lparr>s_stage := 3\<rparr>) (filled (uint32_wire 6 @ ''load'')) =
      Inr (ParseProtocol_Success, c', b') \<and> \<not> buf_ok b' \<and> readable b' = 2 ^ 64 - 2"
  using simple_payload_accepted_early [of "new_simple_ctx\<lparr>s_stage := 3\<rparr>" "filled (uint32_wire 6 @ ''load'')"
      6 "''load''"] by simp

theorem append_mem_overflow_witness:
  "append_mem (replicate 5000 (CHR ''x'')) (filled []) = Inl OutOfBounds"
  using append_mem_overflow [of "filled []" "replicate 5000 (CHR ''x'')"] by simp

theorem reachable_awake_witness:
  "\<exists>s. reachable blank_loop s \<and> added s = [UpdateChannel 0 7] \<and> fifo s \<and> will_wake s"
proof -
  let ?s = "(initial_threads blank_loop)\<lparr>shared := push_func (UpdateChannel 0 7) blank_loop, mtx_held := True, added := [UpdateChannel 0 7]\<rparr>"
  have "thread_step (initial_threads blank_loop) ?s"
    using thread_step.push [of "initial_threads blank_loop" "UpdateChannel 0 7"] by (simp add: initial_threads_def)
  with reachable.start have "reachable blank_loop ?s" by (rule reachable.step)
  from this reachable_awake [OF this] show ?thesis by (auto simp: blank_loop_def)
qed


text \<open>A log of one file, opened for the first time.\<close>

definition sample_log :: "log_state" where
  "sample_log = snd (init_appender ''rpc.log'' 1 (TimeStamp 0 0) True
     \<lparr>directory = Map.empty, contents = (\<lambda>_. []), next_inode = 1\<rparr>)"

lemma sample_log_eq: "sample_log = (\<lparr>log_file = Some 1, file_node = 1, rollover_s = 60, log_t = TimeStamp 0 0,
    log_name = ''rpc.log''\<rparr>, \<lparr>directory = [''rpc.log'' \<mapsto> 1], contents = (\<lambda>_. []), next_inode = 2\<rparr>)"
  by (simp add: sample_log_def init_appender_def open_log_def to_int32_def fun_upd_idem)

lemma sample_log_ok: "log_ok sample_log"
  by (simp add: sample_log_eq log_ok_def)

theorem http_segmented_witness:
  "http_parse_request new_http_ctx (fill ''GET / HTTP/1.1'' (filled [])) =
     and_then (feed http_parse_request new_http_ctx (filled []) [''GET'', '' / '', ''HTTP/1.1''])
       (\<lambda>x. Inr (at_rindex (fill ''GET / HTTP/1.1'' (filled [])) x))"
proof -
  have room: "has_room (filled []) (length (concat [''GET'', '' / '', ''HTTP/1.1'']))"
    by (simp add: has_room_def)
  from http_segmented [OF _ this read_fd_fill [OF this], of new_http_ctx] show ?thesis by simp
qed


theorem long_connection_witness:
  "\<exists>w'. all_calls echo_app (TimeStamp 0 0) 0 1 200
      [request_wire HTTPProtocol ConnType_Single ''Echo'' ''echo'' ''one'',
       request_wire HTTPProtocol ConnType_Single ''Echo'' ''echo'' ''two'']
      (sample_world (sample_conn (filled []) (filled []))) = Inr w' \<and>
    sent w' 7 = response_wire HTTPProtocol ConnType_Single RpcStatus_OK ''one'' @
      response_wire HTTPProtocol ConnType_Single RpcStatus_OK ''two''"
proof -
  let ?c = "sample_conn (filled []) (filled [])"
  let ?w = "sample_world ?c"
  let ?xs = "[(''Echo'', ''echo'', ''one'', ''one''), (''Echo'', ''echo'', ''two'', ''two'')]"
  have o: "own (Some 0) 1 ?c ?w" by (rule sample_own) simp_all
  have a: "awaiting ?c" by (simp add: sample_awaiting)
  have ready: "ready 0 1 7 HTTPProtocol 1024 ?w"
    unfolding ready_def using o a by (intro exI [of _ ?c] exI [of _ 1]) auto
  have digits: "to_string (Suc (Suc (Suc 0))) = ''3''" by code_simp
  have good: "\<forall>x \<in> set ?xs. good_call echo_app ?w HTTPProtocol ConnType_Single 1024 200 x"
    by (simp add: good_call_def message_fits_def plain_def echo_app_def http_request_wire_def http_head_wire_def
        http_response_wire_def connection_value_def digits)
  have "seen_type HTTPProtocol ConnType_Short ConnType_Single = ConnType_Single" by (simp add: conn_type_read_def)
  with long_connection [where app = echo_app, OF ready good, of "TimeStamp 0 0"] show ?thesis
    by (auto simp: request_of_def response_of_def simp del: request_wire.simps response_wire.simps)
qed

definition sample_time :: "int \<Rightarrow> tm" where
  "sample_time _ = \<lparr>tm_sec = 1, tm_min = 30, tm_hour = 9, tm_mday = 14, tm_mon = 6, tm_year = 125\<rparr>"

definition sample_env :: log_env where
  "sample_env = \<lparr>localtime_r = sample_time, strerror_r = (\<lambda>_. ''error''), getpid = 321, pthread_self = 77\<rparr>"

definition sample_answers :: append_answers where
  "sample_answers = \<lparr>at_time = TimeStamp 1 0, stat_errs = False, opens = True, takes = 200, reopens = True\<rparr>"

definition sample_logger :: "log_system" where
  "sample_logger = \<lparr>the_logger = \<lparr>severity = NOTICE, appender_id = 1\<rparr>,
     appenders = [StdoutAppender, FileAppender (fst sample_log)], files = snd sample_log, stdout = []\<rparr>"

theorem ts_print_fields_witness:
  "length (ts_print sample_time (TimeStamp 1 5)) = 23 \<and> field 20 3 (ts_print sample_time (TimeStamp 1 5)) = 5"
proof -
  have "tm_ok (sample_time (sec (TimeStamp 1 5)))" "normalised (TimeStamp 1 5)"
    by (simp_all add: tm_ok_def sample_time_def normalised_def)
  from ts_print_fields [where localtime = sample_time, OF this] show ?thesis by (simp add: Let_def)
qed

lemma sample_logger_file: "logs_to_file sample_logger"
  using sample_log_ok by (simp add: logs_to_file_def sample_logger_def fresh_nodes_def sample_log_eq)



end
